(* ===== verification/Prelude.thy ===== *)
theory Prelude
  imports Main "HOL-Library.Word" "HOL-Library.Monad_Syntax"
begin

text \<open>
  The vocabulary every component of the kernel model shares: the machine types, C's
  \<open>int\<close> arithmetic with its overflow, arrays with checked accesses, the bounded search loop
  that the kernel uses everywhere, the error numbers of \<^verbatim>\<open>src/errno.h\<close>, and the lemmas on
  lists, options and words on which the component proofs rest.

  Conventions. A C array is a list of its fixed length. An access outside the array is
  undefined behaviour in C: it is the value \<open>None\<close> of an \<open>option\<close> result. Plain C \<open>int\<close>
  variables that only hold small indices are \<open>int\<close> or \<open>nat\<close>; \<open>uint8_t\<close>,
  \<open>uint16_t\<close> and \<open>uint32_t\<close> are words of that width.
\<close>

unbundle bit_operations_syntax

section \<open>Machine types\<close>

type_synonym u8 = "8 word"
type_synonym u16 = "16 word"
type_synonym u32 = "32 word"
type_synonym u64 = "64 word"

definition byte :: "char \<Rightarrow> u8" where
  "byte c = of_char c"

definition bytes :: "string \<Rightarrow> u8 list" where
  "bytes s = map byte s"

lemma bytes_simps [simp]:
  "bytes [] = []"
  "bytes (c # s) = byte c # bytes s"
  "length (bytes s) = length s"
  by (simp_all add: bytes_def)

lemma unat_byte: "unat (byte c) = of_char c"
proof -
  have "byte c = of_nat (of_char c)"
    by (cases c) (simp add: byte_def of_char_def)
  then have "unat (byte c) = of_char c mod 256"
    by (simp only: unat_of_nat) (simp add: take_bit_eq_mod)
  with nat_of_char_less_256 [of c] show ?thesis by simp
qed

lemma byte_inject [simp]: "byte c = byte d \<longleftrightarrow> c = d"
  using unat_byte [of c] unat_byte [of d] by (metis char_of_char)

lemma bytes_inject [simp]: "bytes v = bytes w \<longleftrightarrow> v = w"
  by (simp add: bytes_def inj_map_eq_map inj_def)

lemma bytes_eq_Nil_iff [simp]: "bytes w = [] \<longleftrightarrow> w = []"
  by (simp add: bytes_def)

lemma byte_eq_0_iff [simp]: "byte c = 0 \<longleftrightarrow> c = CHR 0x00"
  using byte_inject [of c "CHR 0x00"] by (simp add: byte_def of_char_def)

lemma zero_in_bytes [simp]: "0 \<in> set (bytes w) \<longleftrightarrow> CHR 0x00 \<in> set w"
proof -
  have "0 = byte c \<longleftrightarrow> c = CHR 0x00" for c by (metis byte_eq_0_iff)
  then show ?thesis by (induction w) auto
qed

lemma bytes_append [simp]: "bytes (v @ w) = bytes v @ bytes w"
  by (simp add: bytes_def)

text \<open>C's signed 32-bit \<open>int\<close>: a result outside the range is undefined behaviour.\<close>

definition cint :: "int \<Rightarrow> int option" where
  "cint x = (if - (2 ^ 31) \<le> x \<and> x < 2 ^ 31 then Some x else None)"

lemma cint_Some [simp]: "- 2147483648 \<le> x \<Longrightarrow> x < 2147483648 \<Longrightarrow> cint x = Some x"
  by (simp add: cint_def)

lemma cint_SomeD: "cint x = Some y \<Longrightarrow> y = x \<and> - 2147483648 \<le> x \<and> x < 2147483648"
  by (simp add: cint_def split: if_splits)

section \<open>Arrays\<close>

definition get_at :: "'a list \<Rightarrow> nat \<Rightarrow> 'a option" where
  "get_at xs i = (if i < length xs then Some (xs ! i) else None)"

definition put_at :: "'a list \<Rightarrow> nat \<Rightarrow> 'a \<Rightarrow> 'a list option" where
  "put_at xs i v = (if i < length xs then Some (xs[i := v]) else None)"

lemma get_at_in [simp]: "i < length xs \<Longrightarrow> get_at xs i = Some (xs ! i)"
  by (simp add: get_at_def)

lemma put_at_in [simp]: "i < length xs \<Longrightarrow> put_at xs i v = Some (xs[i := v])"
  by (simp add: put_at_def)

lemma get_at_out [simp]: "length xs \<le> i \<Longrightarrow> get_at xs i = None"
  by (simp add: get_at_def)

lemma put_at_out [simp]: "length xs \<le> i \<Longrightarrow> put_at xs i v = None"
  by (simp add: put_at_def)

lemma put_at_SomeD: "put_at xs i v = Some ys \<Longrightarrow> i < length xs \<and> ys = xs[i := v]"
  by (simp add: put_at_def split: if_splits)

lemma get_at_SomeD: "get_at xs i = Some v \<Longrightarrow> i < length xs \<and> v = xs ! i"
  by (simp add: get_at_def split: if_splits)

section \<open>The bounded search loop\<close>

text \<open>
  \<open>first_from P i n\<close> is the loop \<^verbatim>\<open>for (; i < n; i++) if (P(i)) return i; return -1;\<close>
  with \<open>None\<close> for the -1.
\<close>

function first_from :: "(nat \<Rightarrow> bool) \<Rightarrow> nat \<Rightarrow> nat \<Rightarrow> nat option" where
  "first_from P i n =
     (if i < n then if P i then Some i else first_from P (Suc i) n else None)"
  by pat_completeness auto
termination
  by (relation "measure (\<lambda>(P, i, n). n - i)") auto

declare first_from.simps [simp del]

lemma first_from_SomeD:
  assumes "first_from P i n = Some k"
  shows "i \<le> k \<and> k < n \<and> P k \<and> (\<forall>j. i \<le> j \<and> j < k \<longrightarrow> \<not> P j)"
  using assms
proof (induction P i n rule: first_from.induct)
  case (1 P i n)
  show ?case
  proof (cases "i < n \<and> \<not> P i")
    case True
    with 1 have "Suc i \<le> k \<and> k < n \<and> P k \<and> (\<forall>j. Suc i \<le> j \<and> j < k \<longrightarrow> \<not> P j)"
      by (simp add: first_from.simps [of P i n])
    with True show ?thesis
      by (metis Suc_leD Suc_leI le_neq_implies_less)
  next
    case False
    with 1 show ?thesis
      by (auto simp: first_from.simps [of P i n] split: if_splits)
  qed
qed

lemma first_from_NoneD:
  assumes "first_from P i n = None" "i \<le> j" "j < n"
  shows "\<not> P j"
  using assms
proof (induction P i n rule: first_from.induct)
  case (1 P i n)
  then show ?case
    by (cases "j = i") (auto simp: first_from.simps [of P i n] split: if_splits)
qed

lemma first_from_None_iff:
  "first_from P i n = None \<longleftrightarrow> (\<forall>j. i \<le> j \<and> j < n \<longrightarrow> \<not> P j)"
proof
  assume none: "\<forall>j. i \<le> j \<and> j < n \<longrightarrow> \<not> P j"
  show "first_from P i n = None"
  proof (cases "first_from P i n")
    case (Some k)
    from first_from_SomeD [OF this] none show ?thesis by blast
  qed
qed (use first_from_NoneD in blast)

lemma first_from_Some_iff:
  "first_from P i n = Some k \<longleftrightarrow>
     i \<le> k \<and> k < n \<and> P k \<and> (\<forall>j. i \<le> j \<and> j < k \<longrightarrow> \<not> P j)"
proof
  assume k: "i \<le> k \<and> k < n \<and> P k \<and> (\<forall>j. i \<le> j \<and> j < k \<longrightarrow> \<not> P j)"
  then obtain k' where k': "first_from P i n = Some k'"
    by (cases "first_from P i n") (auto simp: first_from_None_iff)
  from first_from_SomeD [OF this] k have "k' = k"
    by (metis linorder_neqE_nat)
  with k' show "first_from P i n = Some k" by simp
qed (rule first_from_SomeD)

lemma first_from_cong:
  "(\<And>j. i \<le> j \<Longrightarrow> j < n \<Longrightarrow> P j = Q j) \<Longrightarrow> first_from P i n = first_from Q i n"
proof (induction P i n rule: first_from.induct)
  case (1 P i n)
  then show ?case
    by (simp add: first_from.simps [of P i n] first_from.simps [of Q i n])
qed

text \<open>Evaluation at numerals.\<close>

lemma first_from_step:
  "i < n \<Longrightarrow> P i \<Longrightarrow> first_from P i n = Some i"
  "i < n \<Longrightarrow> \<not> P i \<Longrightarrow> first_from P i n = first_from P (Suc i) n"
  "\<not> i < n \<Longrightarrow> first_from P i n = None"
  by (simp_all add: first_from.simps [of P i n])

section \<open>Error numbers\<close>

text \<open>The codes of \<^verbatim>\<open>src/errno.h\<close>; a failing call returns the negated code.\<close>

datatype errno =
    EPERM | ENOENT | ESRCH | EINTR | EIO | EBADF | ECHILD | EAGAIN | ENOMEM | EACCES
  | EFAULT | EBUSY | EEXIST | ENOTDIR | EISDIR | EINVAL | ENFILE | EMFILE | ENOSPC
  | ESPIPE | ENAMETOOLONG | ENOSYS | ENOTEMPTY

fun errno_code :: "errno \<Rightarrow> int" where
  "errno_code EPERM = 1"
| "errno_code ENOENT = 2"
| "errno_code ESRCH = 3"
| "errno_code EINTR = 4"
| "errno_code EIO = 5"
| "errno_code EBADF = 9"
| "errno_code ECHILD = 10"
| "errno_code EAGAIN = 11"
| "errno_code ENOMEM = 12"
| "errno_code EACCES = 13"
| "errno_code EFAULT = 14"
| "errno_code EBUSY = 16"
| "errno_code EEXIST = 17"
| "errno_code ENOTDIR = 20"
| "errno_code EISDIR = 21"
| "errno_code EINVAL = 22"
| "errno_code ENFILE = 23"
| "errno_code EMFILE = 24"
| "errno_code ENOSPC = 28"
| "errno_code ESPIPE = 29"
| "errno_code ENAMETOOLONG = 36"
| "errno_code ENOSYS = 38"
| "errno_code ENOTEMPTY = 39"

text \<open>The C return value of a call: a count on success, the negated code on failure.\<close>

fun ret_int :: "errno + nat \<Rightarrow> int" where
  "ret_int (Inl e) = - errno_code e"
| "ret_int (Inr n) = int n"

lemma errno_code_bounds: "0 < errno_code e \<and> errno_code e < 40"
  by (cases e) simp_all

lemma errno_code_inject: "errno_code a = errno_code b \<Longrightarrow> a = b"
  by (cases a; cases b; simp)

lemma ret_int_neg_iff: "ret_int r < 0 \<longleftrightarrow> (\<exists>e. r = Inl e)"
  using errno_code_bounds by (cases r) auto

lemma ret_int_inject: "ret_int r = ret_int q \<Longrightarrow> r = q"
proof (cases r; cases q)
  fix a b assume "ret_int r = ret_int q" "r = Inl a" "q = Inl b"
  then show "r = q" using errno_code_inject by simp
next
  fix a b assume *: "ret_int r = ret_int q" "r = Inl a" "q = Inr b"
  then have "- errno_code a = int b" by simp
  with errno_code_bounds [of a] show "r = q" by simp
next
  fix a b assume *: "ret_int r = ret_int q" "r = Inr a" "q = Inl b"
  then have "int a = - errno_code b" by simp
  with errno_code_bounds [of b] show "r = q" by simp
qed simp

section \<open>Lists and words\<close>

lemma unat_u32_bound [simp]: "unat (x :: u32) < 4294967296"
  using unsigned_less [of x, where 'a = nat] by simp

lemma unat_u16_bound [simp]: "unat (x :: u16) < 65536"
  using unsigned_less [of x, where 'a = nat] by simp

lemma unat_u8_bound [simp]: "unat (x :: u8) < 256"
  using unsigned_less [of x, where 'a = nat] by simp

lemma unat_of_nat_u32 [simp]: "n < 4294967296 \<Longrightarrow> unat (of_nat n :: u32) = n"
  by (simp add: unat_of_nat)

lemma unat_of_nat_u16 [simp]: "n < 65536 \<Longrightarrow> unat (of_nat n :: u16) = n"
  by (simp add: unat_of_nat)

lemma sint_small:
  assumes "uint (x :: u32) < 2147483648"
  shows "sint x = uint x"
proof -
  have "sint x = signed_take_bit 31 (uint x)" by (simp only: sint_uint) simp
  also have "\<dots> = uint x"
  proof (rule signed_take_bit_int_eq_self)
    show "- (2 ^ 31) \<le> uint x" by (rule order_trans [OF _ uint_nonnegative]) simp
  qed (use assms in simp)
  finally show ?thesis .
qed

lemma sint_unat_small: "unat (x :: u32) < 2147483648 \<Longrightarrow> sint x = int (unat x)"
proof -
  assume x: "unat x < 2147483648"
  have u: "uint x = int (unat x)" by (simp only: uint_nat)
  have "uint x < 2147483648" unfolding u using x by linarith
  then show ?thesis unfolding u [symmetric] by (rule sint_small)
qed

lemma takeWhile_append_zero [simp]:
  "0 \<notin> set s \<Longrightarrow> takeWhile (\<lambda>c. c \<noteq> 0) (s @ 0 # r) = (s :: 'a::zero list)"
  by (induction s) auto

lemma take_list_update_append:
  "i < length xs \<Longrightarrow> take (Suc i) (xs[i := v]) = take i xs @ [v]"
  by (simp add: take_Suc_conv_app_nth)

lemma length_filter_upt_flip:
  assumes "k < n" "\<And>i. i < n \<Longrightarrow> i \<noteq> k \<Longrightarrow> Q i = P i" "P k" "\<not> Q k"
  shows "length (filter P [0..<n]) = Suc (length (filter Q [0..<n]))"
proof -
  have "{i. i < n \<and> P i} = insert k {i. i < n \<and> Q i}"
    using assms by auto
  moreover have "k \<notin> {i. i < n \<and> Q i}" "finite {i. i < n \<and> Q i}"
    using assms by auto
  ultimately have "card {i. i < n \<and> P i} = Suc (card {i. i < n \<and> Q i})"
    by simp
  then show ?thesis
    by (simp add: length_filter_conv_card cong: conj_cong)
qed

end
