(* ===== verification/CString.thy ===== *)
theory CString
  imports Prelude
begin

text \<open>
  The freestanding string library \<^verbatim>\<open>src/string.c\<close>. A \<open>const char*\<close> argument is the list
  of the bytes at the pointer with a terminating NUL understood after the last one, so
  \<open>str[i]\<close> is a byte of the list or that NUL; \<open>cstr s\<close> is the C string it denotes (up to
  the first NUL). A destination is an array: the list of its bytes, written through \<open>put_at\<close>,
  so that a write beyond its end is \<open>None\<close>. \<open>memcpy\<close> takes the arrays and the offsets of
  the two pointers in them.
\<close>

definition cstr :: "u8 list \<Rightarrow> u8 list" where
  "cstr s = takeWhile (\<lambda>c. c \<noteq> 0) s"

definition hdc :: "u8 list \<Rightarrow> u8" where
  "hdc s = (case s of [] \<Rightarrow> 0 | c # _ \<Rightarrow> c)"

section \<open>Definitions\<close>

fun strlen :: "u8 list \<Rightarrow> nat" where
  "strlen [] = 0"
| "strlen (c # s) = (if c \<noteq> 0 then Suc (strlen s) else 0)"

fun strcmp :: "u8 list \<Rightarrow> u8 list \<Rightarrow> int" where
  "strcmp [] [] = 0"
| "strcmp [] (b # bs) = 0 - uint b"
| "strcmp (a # as) [] = uint a - 0"
| "strcmp (a # as) (b # bs) =
     (if a \<noteq> 0 \<and> a = b then strcmp as bs else uint a - uint b)"

fun strncmp :: "u8 list \<Rightarrow> u8 list \<Rightarrow> nat \<Rightarrow> int" where
  "strncmp a b 0 = 0"
| "strncmp a b (Suc n) =
     (if hdc a \<noteq> hdc b then uint (hdc a) - uint (hdc b)
      else if hdc a = 0 then 0
      else strncmp (tl a) (tl b) n)"

text \<open>\<^verbatim>\<open>while ((*d++ = *src++));\<close> with \<open>d\<close> at index \<open>i\<close> of the destination.\<close>

fun copy_str :: "u8 list \<Rightarrow> nat \<Rightarrow> u8 list \<Rightarrow> u8 list option" where
  "copy_str d i [] = put_at d i 0"
| "copy_str d i (c # s) =
     do { d' \<leftarrow> put_at d i c; if c = 0 then Some d' else copy_str d' (Suc i) s }"

definition strcpy :: "u8 list \<Rightarrow> u8 list \<Rightarrow> u8 list option" where
  "strcpy dest src = copy_str dest 0 src"

definition strcat :: "u8 list \<Rightarrow> u8 list \<Rightarrow> u8 list option" where
  "strcat dest src = copy_str dest (strlen dest) src"

text \<open>The two loops of \<open>strncpy\<close>: the copying one, then the one that pads with NULs.\<close>

fun pad_nul :: "u8 list \<Rightarrow> nat \<Rightarrow> nat \<Rightarrow> u8 list option" where
  "pad_nul d i 0 = Some d"
| "pad_nul d i (Suc n) = do { d' \<leftarrow> put_at d i 0; pad_nul d' (Suc i) n }"

fun strncpy_from :: "u8 list \<Rightarrow> nat \<Rightarrow> u8 list \<Rightarrow> nat \<Rightarrow> u8 list option" where
  "strncpy_from d i src 0 = Some d"
| "strncpy_from d i src (Suc n) =
     (if hdc src \<noteq> 0
      then do { d' \<leftarrow> put_at d i (hdc src); strncpy_from d' (Suc i) (tl src) n }
      else pad_nul d i (Suc n))"

definition strncpy :: "u8 list \<Rightarrow> u8 list \<Rightarrow> nat \<Rightarrow> u8 list option" where
  "strncpy dest src n = strncpy_from dest 0 src n"

fun memset_from :: "u8 list \<Rightarrow> nat \<Rightarrow> u8 \<Rightarrow> nat \<Rightarrow> u8 list option" where
  "memset_from p i v 0 = Some p"
| "memset_from p i v (Suc n) = do { p' \<leftarrow> put_at p i v; memset_from p' (Suc i) v n }"

definition memset :: "u8 list \<Rightarrow> int \<Rightarrow> nat \<Rightarrow> u8 list option" where
  "memset p v n = memset_from p 0 (word_of_int v) n"

fun memcpy :: "u8 list \<Rightarrow> nat \<Rightarrow> u8 list \<Rightarrow> nat \<Rightarrow> nat \<Rightarrow> u8 list option" where
  "memcpy d i s j 0 = Some d"
| "memcpy d i s j (Suc n) =
     do { c \<leftarrow> get_at s j; d' \<leftarrow> put_at d i c; memcpy d' (Suc i) s (Suc j) n }"

fun memcmp_from :: "u8 list \<Rightarrow> u8 list \<Rightarrow> nat \<Rightarrow> nat \<Rightarrow> int option" where
  "memcmp_from a b i 0 = Some 0"
| "memcmp_from a b i (Suc n) =
     do { x \<leftarrow> get_at a i; y \<leftarrow> get_at b i;
          if x \<noteq> y then Some (uint x - uint y) else memcmp_from a b (Suc i) n }"

definition memcmp :: "u8 list \<Rightarrow> u8 list \<Rightarrow> nat \<Rightarrow> int option" where
  "memcmp a b n = memcmp_from a b 0 n"

text \<open>\<open>atoi\<close>: \<open>result * 10 + digit\<close> is signed arithmetic, undefined on overflow.\<close>

fun skip_spaces :: "u8 list \<Rightarrow> u8 list" where
  "skip_spaces [] = []"
| "skip_spaces (c # s) = (if c = byte CHR '' '' then skip_spaces s else c # s)"

fun atoi_digits :: "int \<Rightarrow> u8 list \<Rightarrow> int option" where
  "atoi_digits result [] = Some result"
| "atoi_digits result (c # s) =
     (if sint c \<ge> 48 \<and> sint c \<le> 57
      then do { r \<leftarrow> cint (result * 10); r' \<leftarrow> cint (r + (sint c - 48)); atoi_digits r' s }
      else Some result)"

definition atoi :: "u8 list \<Rightarrow> int option" where
  "atoi str =
     (let s = skip_spaces str in
      if hdc s = byte CHR ''-'' then do { r \<leftarrow> atoi_digits 0 (tl s); cint (- 1 * r) }
      else if hdc s = byte CHR ''+'' then atoi_digits 0 (tl s)
      else atoi_digits 0 s)"

section \<open>Closed forms\<close>

lemma cstr_simps [simp]:
  "cstr [] = []"
  "cstr (c # s) = (if c = 0 then [] else c # cstr s)"
  by (simp_all add: cstr_def)

lemma hdc_simps [simp]: "hdc [] = 0" "hdc (c # s) = c"
  by (simp_all add: hdc_def)

lemma cstr_no_nul [simp]: "0 \<notin> set (cstr s)"
  by (induction s) auto

lemma cstr_idem [simp]: "cstr (cstr s) = cstr s"
  by (induction s) auto

lemma cstr_id: "0 \<notin> set s \<Longrightarrow> cstr s = s"
  by (induction s) auto

lemma cstr_append_nul [simp]: "0 \<notin> set s \<Longrightarrow> cstr (s @ 0 # r) = s"
  by (simp add: cstr_def)

lemma cstr_append: "cstr (s @ r) = (if 0 \<in> set s then cstr s else s @ cstr r)"
  by (induction s) auto

lemma cstr_replicate_nul [simp]: "cstr (replicate n 0) = []"
  by (cases n) simp_all

lemma length_cstr: "length (cstr s) \<le> length s"
  by (simp add: cstr_def length_takeWhile_le)

lemma length_cstr_less: "0 \<in> set s \<Longrightarrow> length (cstr s) < length s"
  by (induction s) auto

lemma strlen_eq [simp]: "strlen s = length (cstr s)"
  by (induction s) auto

lemma uint_u8_eq [simp]:
  "uint (a :: u8) = uint b \<longleftrightarrow> a = b"
  "uint (a :: u8) = 0 \<longleftrightarrow> a = 0"
  by (rule word_uint_eq_iff [symmetric], rule uint_0_iff)

lemma uint_u8_pos: "c \<noteq> 0 \<Longrightarrow> 0 < uint (c :: u8)"
  by (metis uint_0_iff uint_nonnegative order_le_less)

lemma strcmp_eq_0: "strcmp a b = 0 \<longleftrightarrow> cstr a = cstr b"
  by (induction a b rule: strcmp.induct) auto

lemma strcmp_swap: "strcmp b a = - strcmp a b"
  by (induction a b rule: strcmp.induct) auto

lemma strcmp_neg: "strcmp a b < 0 \<longleftrightarrow> ord_class.lexordp (cstr a) (cstr b)"
proof (induction a b rule: strcmp.induct)
  case (4 a as b bs)
  have "uint a - uint b < 0 \<longleftrightarrow> a < b"
    by (simp add: word_less_def)
  with 4 show ?case
    by (auto simp: word_neq_0_conv)
qed (auto simp: uint_u8_pos not_less)

lemma strncmp_eq_0: "strncmp a b n = 0 \<longleftrightarrow> take n (cstr a) = take n (cstr b)"
proof (induction a b n rule: strncmp.induct)
  case (2 a b n)
  then show ?case
    by (cases a; cases b) auto
qed simp

lemma copy_str_fits:
  "i + length (cstr s) < length d \<Longrightarrow>
     copy_str d i s = Some (take i d @ cstr s @ 0 # drop (Suc (i + length (cstr s))) d)"
proof (induction d i s rule: copy_str.induct)
  case (1 d i)
  then show ?case by (simp add: upd_conv_take_nth_drop)
next
  case (2 d i c s)
  show ?case
  proof (cases "c = 0")
    case True
    with 2 show ?thesis by (simp add: upd_conv_take_nth_drop)
  next
    case False
    with 2 have "copy_str (d[i := c]) (Suc i) s =
        Some (take (Suc i) (d[i := c]) @ cstr s
          @ 0 # drop (Suc (Suc i + length (cstr s))) (d[i := c]))"
      by simp
    with 2 False show ?thesis
      by (simp add: take_list_update_append)
  qed
qed

lemma copy_str_overflow:
  "length d \<le> i + length (cstr s) \<Longrightarrow> copy_str d i s = None"
proof (induction d i s rule: copy_str.induct)
  case (2 d i c s)
  then show ?case
    by (cases "i < length d") (auto split: if_splits)
qed simp

lemma strcpy_closed:
  "strcpy dest src =
     (if length (cstr src) < length dest
      then Some (cstr src @ 0 # drop (Suc (length (cstr src))) dest) else None)"
  by (simp add: strcpy_def copy_str_fits copy_str_overflow)

lemma strcat_closed:
  "strcat dest src =
     (if length (cstr dest) + length (cstr src) < length dest
      then Some (cstr dest @ cstr src @ 0 # drop (Suc (length (cstr dest) + length (cstr src))) dest)
      else None)"
proof -
  have "take (length (cstr dest)) dest = cstr dest"
    unfolding cstr_def by (metis takeWhile_eq_take)
  then show ?thesis
    by (simp add: strcat_def copy_str_fits copy_str_overflow)
qed

lemma pad_nul_closed:
  "i + n \<le> length d \<Longrightarrow> pad_nul d i n = Some (take i d @ replicate n 0 @ drop (i + n) d)"
proof (induction d i n rule: pad_nul.induct)
  case (2 d i n)
  then show ?case
    by (simp add: take_list_update_append)
qed simp

lemma strncpy_from_closed:
  "i + n \<le> length d \<Longrightarrow>
     strncpy_from d i src n =
       Some (take i d @ take n (cstr src) @ replicate (n - length (cstr src)) 0 @ drop (i + n) d)"
proof (induction d i src n rule: strncpy_from.induct)
  case (2 d i src n)
  show ?case
  proof (cases "hdc src = 0")
    case True
    then have "cstr src = []" by (cases src) auto
    moreover from True have "strncpy_from d i src (Suc n) = pad_nul d i (Suc n)"
      by (simp only: strncpy_from.simps) simp
    ultimately show ?thesis
      using 2 by (simp add: pad_nul_closed del: pad_nul.simps)
  next
    case False
    then obtain c s where "src = c # s" "c \<noteq> 0" by (cases src) auto
    with 2 show ?thesis
      by (simp add: take_list_update_append)
  qed
qed simp

lemma strncpy_closed:
  "n \<le> length dest \<Longrightarrow>
     strncpy dest src n = Some (take n (cstr src) @ replicate (n - length (cstr src)) 0 @ drop n dest)"
  by (simp add: strncpy_def strncpy_from_closed)

text \<open>The idiom that stores a string in a field of \<open>Suc n\<close> bytes: \<open>strncpy\<close> of \<open>n\<close> and a final NUL.\<close>

lemma stored_name:
  assumes "strncpy a nm n = Some d" "length a = Suc n"
  shows "cstr (d[n := 0]) = take n (cstr nm)"
proof -
  let ?x = "take n (cstr nm) @ replicate (n - length (cstr nm)) 0"
  obtain z where z: "drop n a = [z]" using assms(2) by (cases "drop n a") (auto dest: arg_cong [of _ _ length])
  have len: "length ?x = n" by simp
  have "d = ?x @ [z]" using assms z by (simp add: strncpy_closed)
  then have "d[n := 0] = ?x @ [0]" using len by (metis list_update_length)
  moreover have "0 \<notin> set (take n (cstr nm))" by (metis cstr_no_nul in_set_takeD)
  ultimately show ?thesis by (cases "n - length (cstr nm)") (simp_all add: cstr_append)
qed

lemma memset_from_closed:
  "i + n \<le> length p \<Longrightarrow> memset_from p i v n = Some (take i p @ replicate n v @ drop (i + n) p)"
proof (induction p i v n rule: memset_from.induct)
  case (2 p i v n)
  then show ?case
    by (simp add: take_list_update_append)
qed simp

lemma memset_closed:
  "n \<le> length p \<Longrightarrow> memset p v n = Some (replicate n (word_of_int v) @ drop n p)"
  by (simp add: memset_def memset_from_closed)

lemma memcpy_closed:
  "i + n \<le> length d \<Longrightarrow> j + n \<le> length s \<Longrightarrow>
     memcpy d i s j n = Some (take i d @ take n (drop j s) @ drop (i + n) d)"
proof (induction d i s j n rule: memcpy.induct)
  case (2 d i s j n)
  then have "drop j s = s ! j # drop (Suc j) s"
    by (simp add: Cons_nth_drop_Suc)
  with 2 show ?case
    by (simp add: take_list_update_append)
qed simp

lemma memcpy_fault:
  "length d < i + n \<or> length s < j + n \<Longrightarrow> memcpy d i s j n = None \<or> n = 0"
proof (induction d i s j n rule: memcpy.induct)
  case (2 d i s j n)
  then show ?case
    by (cases "j < length s"; cases "i < length d"; cases n) (auto simp: bind_eq_None_conv)
qed simp

end
