(* ===== verification/Fs.thy ===== *)
theory Fs
  imports CString
begin

text \<open>
  The ramdisk filesystem \<^verbatim>\<open>src/fs.c\<close>: 64 nodes (files and directories, linked by the index
  of their parent), a table of 16 descriptors, one current directory. The state \<open>fs\<close> holds the
  file's three static variables. A call returns the new state and either an error number or a
  count; \<open>None\<close> is an access outside an array, which C leaves undefined. A \<open>const char*\<close>
  that the code compares with NULL is an \<open>option\<close>; a buffer is the array the pointer points to.
  \<open>now\<close> is the value \<open>timer_get_ticks()\<close> returns.
\<close>

section \<open>Data\<close>

abbreviation (input) FS_MAX_FILES :: nat where "FS_MAX_FILES \<equiv> 64"
abbreviation (input) FS_MAX_NAME :: nat where "FS_MAX_NAME \<equiv> 32"
abbreviation (input) FS_MAX_DATA :: nat where "FS_MAX_DATA \<equiv> 4096"
abbreviation (input) FS_MAX_FDS :: nat where "FS_MAX_FDS \<equiv> 16"

abbreviation (input) FS_TYPE_FILE :: u8 where "FS_TYPE_FILE \<equiv> 1"
abbreviation (input) FS_TYPE_DIR :: u8 where "FS_TYPE_DIR \<equiv> 2"

abbreviation (input) O_RDONLY :: u32 where "O_RDONLY \<equiv> 0x0000"
abbreviation (input) O_WRONLY :: u32 where "O_WRONLY \<equiv> 0x0001"
abbreviation (input) O_RDWR :: u32 where "O_RDWR \<equiv> 0x0002"
abbreviation (input) O_CREAT :: u32 where "O_CREAT \<equiv> 0x0040"
abbreviation (input) O_TRUNC :: u32 where "O_TRUNC \<equiv> 0x0200"
abbreviation (input) O_APPEND :: u32 where "O_APPEND \<equiv> 0x0400"

abbreviation (input) SEEK_SET :: int where "SEEK_SET \<equiv> 0"
abbreviation (input) SEEK_CUR :: int where "SEEK_CUR \<equiv> 1"
abbreviation (input) SEEK_END :: int where "SEEK_END \<equiv> 2"

record fs_node =
  name :: "u8 list"
  node_type :: u8
  node_size :: u32
  data :: "u8 list"
  parent :: int
  in_use :: bool
  created_tick :: u32

record fs_fd =
  node_idx :: int
  offset :: u32
  flags :: u32
  fd_in_use :: bool

record fs_stat_t =
  st_type :: u8
  st_size :: u32
  st_created_tick :: u32
  st_parent :: int

record fs =
  fs_nodes :: "fs_node list"
  fs_fd_table :: "fs_fd list"
  current_dir :: nat

type_synonym fs_result = "(fs \<times> (errno + nat)) option"

section \<open>Lookup\<close>

definition find_free_node :: "fs \<Rightarrow> nat option" where
  "find_free_node s = first_from (\<lambda>i. \<not> in_use (fs_nodes s ! i)) 1 FS_MAX_FILES"

definition find_node :: "u8 list \<Rightarrow> fs \<Rightarrow> nat option" where
  "find_node nm s =
     first_from (\<lambda>i. in_use (fs_nodes s ! i) \<and> strcmp (name (fs_nodes s ! i)) nm = 0
       \<and> parent (fs_nodes s ! i) = int (current_dir s)) 0 FS_MAX_FILES"

definition find_free_fd :: "fs \<Rightarrow> nat option" where
  "find_free_fd s = first_from (\<lambda>i. \<not> fd_in_use (fs_fd_table s ! i)) 0 FS_MAX_FDS"

text \<open>\<open>fs_nodes[i]\<close> for a C \<open>int\<close> that comes from the descriptor table.\<close>

definition node_at :: "fs \<Rightarrow> int \<Rightarrow> fs_node option" where
  "node_at s i = (if 0 \<le> i then get_at (fs_nodes s) (nat i) else None)"

definition set_node :: "nat \<Rightarrow> fs_node \<Rightarrow> fs \<Rightarrow> fs" where
  "set_node i n s = s\<lparr>fs_nodes := (fs_nodes s)[i := n]\<rparr>"

definition set_fd :: "nat \<Rightarrow> fs_fd \<Rightarrow> fs \<Rightarrow> fs" where
  "set_fd i f s = s\<lparr>fs_fd_table := (fs_fd_table s)[i := f]\<rparr>"

definition has_children :: "nat \<Rightarrow> fs \<Rightarrow> bool" where
  "has_children idx s \<longleftrightarrow>
     first_from (\<lambda>i. in_use (fs_nodes s ! i) \<and> parent (fs_nodes s ! i) = int idx) 0 FS_MAX_FILES
       \<noteq> None"

section \<open>The name-based calls\<close>

definition fs_mkdir :: "u32 \<Rightarrow> u8 list option \<Rightarrow> fs \<Rightarrow> fs_result" where
  "fs_mkdir now nmp s =
     (case nmp of
        None \<Rightarrow> Some (s, Inl EINVAL)
      | Some nm \<Rightarrow>
          if hdc nm = 0 then Some (s, Inl EINVAL)
          else if strlen nm \<ge> FS_MAX_NAME then Some (s, Inl ENAMETOOLONG)
          else if find_node nm s \<noteq> None then Some (s, Inl EEXIST)
          else (case find_free_node s of
              None \<Rightarrow> Some (s, Inl ENOSPC)
            | Some idx \<Rightarrow> do {
                nm1 \<leftarrow> strncpy (name (fs_nodes s ! idx)) nm (FS_MAX_NAME - 1);
                nm2 \<leftarrow> put_at nm1 (FS_MAX_NAME - 1) 0;
                Some (set_node idx ((fs_nodes s ! idx)\<lparr>name := nm2, node_type := FS_TYPE_DIR,
                        node_size := 0, parent := int (current_dir s), in_use := True,
                        created_tick := now\<rparr>) s, Inr 0)
              }))"

definition fs_create_file :: "u32 \<Rightarrow> u8 list option \<Rightarrow> fs \<Rightarrow> fs_result" where
  "fs_create_file now nmp s =
     (case nmp of
        None \<Rightarrow> Some (s, Inl EINVAL)
      | Some nm \<Rightarrow>
          if hdc nm = 0 then Some (s, Inl EINVAL)
          else if strlen nm \<ge> FS_MAX_NAME then Some (s, Inl ENAMETOOLONG)
          else if find_node nm s \<noteq> None then Some (s, Inl EEXIST)
          else (case find_free_node s of
              None \<Rightarrow> Some (s, Inl ENOSPC)
            | Some idx \<Rightarrow> do {
                nm1 \<leftarrow> strncpy (name (fs_nodes s ! idx)) nm (FS_MAX_NAME - 1);
                nm2 \<leftarrow> put_at nm1 (FS_MAX_NAME - 1) 0;
                d \<leftarrow> put_at (data (fs_nodes s ! idx)) 0 0;
                Some (set_node idx ((fs_nodes s ! idx)\<lparr>name := nm2, node_type := FS_TYPE_FILE,
                        node_size := 0, data := d, parent := int (current_dir s), in_use := True,
                        created_tick := now\<rparr>) s, Inr 0)
              }))"

definition fs_write_file :: "u8 list \<Rightarrow> u8 list \<Rightarrow> u32 \<Rightarrow> fs \<Rightarrow> fs_result" where
  "fs_write_file nm src len s =
     (case find_node nm s of
        None \<Rightarrow> Some (s, Inl ENOENT)
      | Some idx \<Rightarrow>
          if node_type (fs_nodes s ! idx) \<noteq> FS_TYPE_FILE then Some (s, Inl EISDIR)
          else let copy_len = (if len \<ge> of_nat FS_MAX_DATA then of_nat FS_MAX_DATA - 1 else len) in
            do {
              d \<leftarrow> memcpy (data (fs_nodes s ! idx)) 0 src 0 (unat copy_len);
              d' \<leftarrow> put_at d (unat copy_len) 0;
              Some (set_node idx ((fs_nodes s ! idx)\<lparr>data := d', node_size := copy_len\<rparr>) s,
                    Inr (unat copy_len))
            })"

text \<open>The calls that fill a buffer also return its new contents.\<close>

definition fs_read_file :: "u8 list \<Rightarrow> u8 list \<Rightarrow> u32 \<Rightarrow> fs \<Rightarrow> (u8 list \<times> (errno + nat)) option" where
  "fs_read_file nm buf max_len s =
     (case find_node nm s of
        None \<Rightarrow> Some (buf, Inl ENOENT)
      | Some idx \<Rightarrow>
          if node_type (fs_nodes s ! idx) \<noteq> FS_TYPE_FILE then Some (buf, Inl EISDIR)
          else let size = node_size (fs_nodes s ! idx);
                   copy_len = (if size \<ge> max_len then max_len - 1 else size) in
            do {
              b \<leftarrow> memcpy buf 0 (data (fs_nodes s ! idx)) 0 (unat copy_len);
              b' \<leftarrow> put_at b (unat copy_len) 0;
              Some (b', Inr (unat copy_len))
            })"

text \<open>One round of the loop of \<open>fs_list\<close>, on the buffer, the offset in it and the count.\<close>

definition list_entry :: "fs \<Rightarrow> nat \<Rightarrow> nat \<Rightarrow> u8 list \<times> nat \<times> nat \<Rightarrow> (u8 list \<times> nat \<times> nat) option" where
  "list_entry s max_len i st =
     (case st of (buf, off, count) \<Rightarrow>
      let n = fs_nodes s ! i in
      if in_use n \<and> parent n = int (current_dir s)
      then let type_str = (if node_type n = FS_TYPE_DIR then bytes ''DIR '' else bytes ''FILE'');
               name_len = strlen (name n) in
        if off + 6 + name_len + 1 < max_len
        then do {
          b1 \<leftarrow> memcpy buf off type_str 0 4;
          b2 \<leftarrow> put_at b1 (off + 4) (byte CHR '' '');
          b3 \<leftarrow> put_at b2 (off + 5) (byte CHR '' '');
          b4 \<leftarrow> memcpy b3 (off + 6) (name n) 0 name_len;
          b5 \<leftarrow> put_at b4 (off + 6 + name_len) 10;
          Some (b5, off + 7 + name_len, Suc count)
        }
        else Some (buf, off, count)
      else Some (buf, off, count))"

fun list_loop :: "fs \<Rightarrow> nat \<Rightarrow> nat list \<Rightarrow> u8 list \<times> nat \<times> nat \<Rightarrow> (u8 list \<times> nat \<times> nat) option" where
  "list_loop s max_len [] st = Some st"
| "list_loop s max_len (i # is) st = do { st' \<leftarrow> list_entry s max_len i st; list_loop s max_len is st' }"

definition fs_list :: "u8 list \<Rightarrow> nat \<Rightarrow> fs \<Rightarrow> (u8 list \<times> nat) option" where
  "fs_list buf max_len s = do {
     (b, off, count) \<leftarrow> list_loop s max_len [0 ..< FS_MAX_FILES] (buf, 0, 0);
     b' \<leftarrow> put_at b off 0;
     Some (b', count)
   }"

definition fs_delete :: "u8 list \<Rightarrow> fs \<Rightarrow> fs \<times> (errno + nat)" where
  "fs_delete nm s =
     (case find_node nm s of
        None \<Rightarrow> (s, Inl ENOENT)
      | Some idx \<Rightarrow>
          if idx = 0 then (s, Inl ENOENT)
          else if node_type (fs_nodes s ! idx) = FS_TYPE_DIR \<and> has_children idx s
          then (s, Inl ENOTEMPTY)
          else (set_node idx ((fs_nodes s ! idx)\<lparr>in_use := False\<rparr>) s, Inr 0))"

definition fs_cd :: "u8 list \<Rightarrow> fs \<Rightarrow> fs \<times> (errno + nat)" where
  "fs_cd nm s =
     (if strcmp nm (bytes ''..'') = 0
      then (if parent (fs_nodes s ! current_dir s) \<ge> 0
            then s\<lparr>current_dir := nat (parent (fs_nodes s ! current_dir s))\<rparr> else s, Inr 0)
      else if strcmp nm (bytes ''/'') = 0 then (s\<lparr>current_dir := 0\<rparr>, Inr 0)
      else (case find_node nm s of
          None \<Rightarrow> (s, Inl ENOENT)
        | Some idx \<Rightarrow>
            if node_type (fs_nodes s ! idx) \<noteq> FS_TYPE_DIR then (s, Inl ENOTDIR)
            else (s\<lparr>current_dir := idx\<rparr>, Inr 0)))"

definition fs_pwd :: "fs \<Rightarrow> u8 list" where
  "fs_pwd s = name (fs_nodes s ! current_dir s)"

definition fs_get_file_count :: "fs \<Rightarrow> nat" where
  "fs_get_file_count s = length (filter (\<lambda>i. in_use (fs_nodes s ! i)
     \<and> node_type (fs_nodes s ! i) = FS_TYPE_FILE) [0 ..< FS_MAX_FILES])"

definition fs_get_dir_count :: "fs \<Rightarrow> nat" where
  "fs_get_dir_count s = length (filter (\<lambda>i. in_use (fs_nodes s ! i)
     \<and> node_type (fs_nodes s ! i) = FS_TYPE_DIR) [0 ..< FS_MAX_FILES])"

text \<open>A pointer into the node table is the index of the node it points to.\<close>

definition fs_get_node :: "u8 list \<Rightarrow> fs \<Rightarrow> nat option" where
  "fs_get_node nm s = find_node nm s"

section \<open>The descriptor-based calls\<close>

text \<open>\<open>fs_open\<close> in two steps: the index of the node, created when the flags ask for it; then
  the truncation and the descriptor.\<close>

definition open_lookup :: "u32 \<Rightarrow> u8 list \<Rightarrow> u32 \<Rightarrow> fs \<Rightarrow> fs_result" where
  "open_lookup now nm flgs s =
     (case find_node nm s of
        Some idx \<Rightarrow> Some (s, Inr idx)
      | None \<Rightarrow>
          if flgs AND O_CREAT \<noteq> 0
          then do {
            (s', rc) \<leftarrow> fs_create_file now (Some nm) s;
            (case rc of
               Inl e \<Rightarrow> Some (s', Inl e)
             | Inr _ \<Rightarrow> (case find_node nm s' of
                   None \<Rightarrow> Some (s', Inl EIO)
                 | Some idx \<Rightarrow> Some (s', Inr idx)))
          }
          else Some (s, Inl ENOENT))"

definition open_node :: "u32 \<Rightarrow> nat \<Rightarrow> fs \<Rightarrow> fs_result" where
  "open_node flgs idx s =
     (if node_type (fs_nodes s ! idx) \<noteq> FS_TYPE_FILE then Some (s, Inl EISDIR)
      else do {
        s2 \<leftarrow> (if flgs AND O_TRUNC \<noteq> 0
          then do { d \<leftarrow> put_at (data (fs_nodes s ! idx)) 0 0;
                    Some (set_node idx ((fs_nodes s ! idx)\<lparr>data := d, node_size := 0\<rparr>) s) }
          else Some s);
        (case find_free_fd s2 of
           None \<Rightarrow> Some (s2, Inl EMFILE)
         | Some fd \<Rightarrow>
             Some (set_fd fd \<lparr>node_idx = int idx,
                 offset = (if flgs AND O_APPEND \<noteq> 0 then node_size (fs_nodes s2 ! idx) else 0),
                 flags = flgs, fd_in_use = True\<rparr> s2, Inr fd))
      })"

definition fs_open :: "u32 \<Rightarrow> u8 list option \<Rightarrow> u32 \<Rightarrow> fs \<Rightarrow> fs_result" where
  "fs_open now nmp flgs s =
     (case nmp of
        None \<Rightarrow> Some (s, Inl EINVAL)
      | Some nm \<Rightarrow>
          if hdc nm = 0 then Some (s, Inl EINVAL)
          else do {
            (s1, found) \<leftarrow> open_lookup now nm flgs s;
            (case found of Inl e \<Rightarrow> Some (s1, Inl e) | Inr idx \<Rightarrow> open_node flgs idx s1)
          })"

text \<open>The test every descriptor call starts with.\<close>

definition fd_ok :: "int \<Rightarrow> fs \<Rightarrow> bool" where
  "fd_ok fd s \<longleftrightarrow> \<not> (fd < 0 \<or> fd \<ge> int FS_MAX_FDS \<or> \<not> fd_in_use (fs_fd_table s ! nat fd))"

definition fs_close :: "int \<Rightarrow> fs \<Rightarrow> fs \<times> (errno + nat)" where
  "fs_close fd s =
     (if fd < 0 \<or> fd \<ge> int FS_MAX_FDS then (s, Inl EBADF)
      else if \<not> fd_in_use (fs_fd_table s ! nat fd) then (s, Inl EBADF)
      else (set_fd (nat fd) ((fs_fd_table s ! nat fd)\<lparr>fd_in_use := False, node_idx := - 1\<rparr>) s, Inr 0))"

definition fs_read_fd :: "int \<Rightarrow> u8 list option \<Rightarrow> u32 \<Rightarrow> fs
    \<Rightarrow> (fs \<times> u8 list option \<times> (errno + nat)) option" where
  "fs_read_fd fd bufp n s =
     (if \<not> fd_ok fd s then Some (s, bufp, Inl EBADF)
      else case bufp of
        None \<Rightarrow> Some (s, None, Inl EFAULT)
      | Some buf \<Rightarrow>
          let f = fs_fd_table s ! nat fd in
          if flags f AND 3 = O_WRONLY then Some (s, Some buf, Inl EACCES)
          else do {
            node \<leftarrow> node_at s (node_idx f);
            (if offset f \<ge> node_size node then Some (s, Some buf, Inr 0)
             else let avail = node_size node - offset f;
                      to_copy = (if n < avail then n else avail) in
               do {
                 b \<leftarrow> memcpy buf 0 (data node) (unat (offset f)) (unat to_copy);
                 Some (set_fd (nat fd) (f\<lparr>offset := offset f + to_copy\<rparr>) s, Some b,
                       Inr (unat to_copy))
               })
          })"

definition fs_write_fd :: "int \<Rightarrow> u8 list option \<Rightarrow> u32 \<Rightarrow> fs \<Rightarrow> fs_result" where
  "fs_write_fd fd bufp n s =
     (if \<not> fd_ok fd s then Some (s, Inl EBADF)
      else case bufp of
        None \<Rightarrow> Some (s, Inl EFAULT)
      | Some buf \<Rightarrow>
          let f = fs_fd_table s ! nat fd in
          if flags f AND 3 = O_RDONLY then Some (s, Inl EACCES)
          else do {
            node \<leftarrow> node_at s (node_idx f);
            let f1 = (if flags f AND O_APPEND \<noteq> 0 then f\<lparr>offset := node_size node\<rparr> else f) in
            if offset f1 \<ge> of_nat FS_MAX_DATA - 1 then Some (set_fd (nat fd) f1 s, Inl ENOSPC)
            else let space = (of_nat FS_MAX_DATA - 1) - offset f1;
                     to_copy = (if n < space then n else space) in
              do {
                d \<leftarrow> memcpy (data node) (unat (offset f1)) buf 0 (unat to_copy);
                let new_off = offset f1 + to_copy;
                    size = (if new_off > node_size node then new_off else node_size node) in
                do {
                  d' \<leftarrow> put_at d (unat size) 0;
                  Some (set_node (nat (node_idx f)) (node\<lparr>data := d', node_size := size\<rparr>)
                          (set_fd (nat fd) (f1\<lparr>offset := new_off\<rparr>) s), Inr (unat to_copy))
                }
              }
          })"

definition fs_lseek :: "int \<Rightarrow> int \<Rightarrow> int \<Rightarrow> fs \<Rightarrow> fs_result" where
  "fs_lseek fd off whence s =
     (if \<not> fd_ok fd s then Some (s, Inl EBADF)
      else let f = fs_fd_table s ! nat fd in
        do {
          node \<leftarrow> node_at s (node_idx f);
          (if whence = SEEK_SET \<or> whence = SEEK_CUR \<or> whence = SEEK_END
           then do {
             new_off \<leftarrow> (if whence = SEEK_SET then Some off
                 else if whence = SEEK_CUR then cint (sint (offset f) + off)
                 else cint (sint (node_size node) + off));
             (if new_off < 0 then Some (s, Inl EINVAL)
              else if new_off > int FS_MAX_DATA - 1 then Some (s, Inl EINVAL)
              else Some (set_fd (nat fd) (f\<lparr>offset := word_of_int new_off\<rparr>) s, Inr (nat new_off)))
           }
           else Some (s, Inl EINVAL))
        })"

definition fs_stat :: "u8 list option \<Rightarrow> fs_stat_t option \<Rightarrow> fs \<Rightarrow> fs_stat_t option \<times> (errno + nat)" where
  "fs_stat nmp out s =
     (case (nmp, out) of
        (Some nm, Some st) \<Rightarrow>
          (case find_node nm s of
             None \<Rightarrow> (out, Inl ENOENT)
           | Some idx \<Rightarrow>
               (Some \<lparr>st_type = node_type (fs_nodes s ! idx), st_size = node_size (fs_nodes s ! idx),
                      st_created_tick = created_tick (fs_nodes s ! idx),
                      st_parent = parent (fs_nodes s ! idx)\<rparr>, Inr 0))
      | _ \<Rightarrow> (out, Inl EFAULT))"

definition fs_unlink :: "u8 list \<Rightarrow> fs \<Rightarrow> fs \<times> (errno + nat)" where
  "fs_unlink nm s =
     (case find_node nm s of
        None \<Rightarrow> (s, Inl ENOENT)
      | Some idx \<Rightarrow>
          if idx = 0 then (s, Inl ENOENT)
          else if node_type (fs_nodes s ! idx) \<noteq> FS_TYPE_FILE then (s, Inl EISDIR)
          else (set_node idx ((fs_nodes s ! idx)\<lparr>in_use := False\<rparr>) s, Inr 0))"

definition fs_rmdir :: "u8 list \<Rightarrow> fs \<Rightarrow> fs \<times> (errno + nat)" where
  "fs_rmdir nm s =
     (case find_node nm s of
        None \<Rightarrow> (s, Inl ENOENT)
      | Some idx \<Rightarrow>
          if idx = 0 then (s, Inl ENOENT)
          else if node_type (fs_nodes s ! idx) \<noteq> FS_TYPE_DIR then (s, Inl ENOTDIR)
          else if has_children idx s then (s, Inl ENOTEMPTY)
          else (set_node idx ((fs_nodes s ! idx)\<lparr>in_use := False\<rparr>) s, Inr 0))"

definition fs_getcwd :: "u8 list option \<Rightarrow> u32 \<Rightarrow> fs \<Rightarrow> (u8 list option \<times> (errno + nat)) option" where
  "fs_getcwd bufp n s =
     (case bufp of
        None \<Rightarrow> Some (None, Inl EFAULT)
      | Some buf \<Rightarrow>
          if n = 0 then Some (bufp, Inl EFAULT)
          else let nm = name (fs_nodes s ! current_dir s); len = strlen nm in
            if of_nat len + 1 > n then Some (bufp, Inl EINVAL)
            else do { b \<leftarrow> memcpy buf 0 nm 0 (len + 1); Some (Some b, Inr len) })"

section \<open>Initialisation\<close>

definition zero_node :: fs_node where
  "zero_node = \<lparr>name = replicate FS_MAX_NAME 0, node_type = 0, node_size = 0,
     data = replicate FS_MAX_DATA 0, parent = 0, in_use = False, created_tick = 0\<rparr>"

definition free_fd_entry :: fs_fd where
  "free_fd_entry = \<lparr>node_idx = - 1, offset = 0, flags = 0, fd_in_use = False\<rparr>"

definition root_node :: fs_node where
  "root_node = zero_node\<lparr>name := bytes ''/'' @ replicate 31 0, node_type := FS_TYPE_DIR,
     parent := - 1, in_use := True, created_tick := 0\<rparr>"

text \<open>The tables after the two \<open>memset\<close>s, the loop over the descriptors and the root's set-up.
  \<open>fs_init\<close> does not touch \<open>current_dir\<close>, statically 0.\<close>

definition fs_blank :: fs where
  "fs_blank = \<lparr>fs_nodes = root_node # replicate 63 zero_node,
     fs_fd_table = replicate FS_MAX_FDS free_fd_entry, current_dir = 0\<rparr>"

definition welcome_text :: "u8 list" where
  "welcome_text = bytes ''Welcome to MyMisu OS!'' @ [10] @ bytes ''This is a simple ramdisk filesystem.''
     @ [10] @ bytes ''Type '' @ [39] @ bytes ''help'' @ [39] @ bytes '' for commands.'' @ [10]"

text \<open>\<open>version\<close> is the generated string \<^verbatim>\<open>MYMISU_VERSION\<close> of \<^verbatim>\<open>src/version.h\<close>.\<close>

definition fs_init :: "u32 \<Rightarrow> u8 list \<Rightarrow> fs option" where
  "fs_init now version = do {
     (s1, _) \<leftarrow> fs_mkdir now (Some (bytes ''home'')) fs_blank;
     (s2, _) \<leftarrow> fs_mkdir now (Some (bytes ''bin'')) s1;
     (s3, _) \<leftarrow> fs_mkdir now (Some (bytes ''etc'')) s2;
     (s4, _) \<leftarrow> fs_mkdir now (Some (bytes ''tmp'')) s3;
     (s5, _) \<leftarrow> fs_create_file now (Some (bytes ''readme.txt'')) s4;
     (s6, _) \<leftarrow> fs_write_file (bytes ''readme.txt'') welcome_text (of_nat (strlen welcome_text)) s5;
     (s7, _) \<leftarrow> fs_create_file now (Some (bytes ''hostname'')) s6;
     (s8, _) \<leftarrow> fs_write_file (bytes ''hostname'') (bytes ''misu-pc'') 7 s7;
     (s9, _) \<leftarrow> fs_create_file now (Some (bytes ''version'')) s8;
     (s10, _) \<leftarrow> fs_write_file (bytes ''version'') (bytes ''MyMisu OS '' @ version)
        (of_nat (strlen (bytes ''MyMisu OS '' @ version))) s9;
     Some s10
   }"

end
