(* ===== verification/FsInv.thy ===== *)
theory FsInv
  imports Fs
begin

text \<open>
  The invariant of the filesystem state and the proof that every call keeps it. It has two
  parts: \<open>fs_shape\<close>, the sizes and bounds that keep every access inside its array, and
  \<open>fs_tree\<close>, the structure of the directory tree. The tree part only reads a node's \<open>meta\<close>
  (in use, type, parent, name), so that a call that writes data or descriptors keeps it at once.
\<close>

section \<open>The invariant\<close>

definition node_wf :: "fs_node \<Rightarrow> bool" where
  "node_wf n \<longleftrightarrow> length (name n) = 32 \<and> name n ! 31 = 0 \<and> length (data n) = 4096
     \<and> unat (node_size n) \<le> 4095"

definition fd_wf :: "fs_fd \<Rightarrow> bool" where
  "fd_wf f \<longleftrightarrow> (fd_in_use f \<longrightarrow> 0 \<le> node_idx f \<and> node_idx f < 64 \<and> unat (offset f) \<le> 4095)"

definition fs_shape :: "fs \<Rightarrow> bool" where
  "fs_shape s \<longleftrightarrow> length (fs_nodes s) = 64 \<and> length (fs_fd_table s) = 16
     \<and> (\<forall>i < 64. node_wf (fs_nodes s ! i)) \<and> (\<forall>i < 16. fd_wf (fs_fd_table s ! i))
     \<and> current_dir s < 64"

definition node_meta :: "fs_node \<Rightarrow> bool \<times> u8 \<times> int \<times> u8 list" where
  "node_meta n = (in_use n, node_type n, parent n, cstr (name n))"

definition is_dir :: "fs \<Rightarrow> nat \<Rightarrow> bool" where
  "is_dir s i \<longleftrightarrow> i < 64 \<and> in_use (fs_nodes s ! i) \<and> node_type (fs_nodes s ! i) = FS_TYPE_DIR"

text \<open>Node \<open>i\<close> is an entry of directory \<open>d\<close>.\<close>

definition entry_of :: "fs \<Rightarrow> nat \<Rightarrow> nat \<Rightarrow> bool" where
  "entry_of s d i \<longleftrightarrow> i < 64 \<and> i \<noteq> 0 \<and> in_use (fs_nodes s ! i) \<and> parent (fs_nodes s ! i) = int d"

definition fs_tree :: "fs \<Rightarrow> bool" where
  "fs_tree s \<longleftrightarrow>
     is_dir s 0 \<and> parent (fs_nodes s ! 0) = - 1 \<and> is_dir s (current_dir s)
     \<and> (\<forall>i < 64. i \<noteq> 0 \<longrightarrow> in_use (fs_nodes s ! i) \<longrightarrow>
          (\<exists>d. is_dir s d \<and> parent (fs_nodes s ! i) = int d)
          \<and> node_type (fs_nodes s ! i) \<in> {FS_TYPE_FILE, FS_TYPE_DIR}
          \<and> cstr (name (fs_nodes s ! i)) \<noteq> [])
     \<and> (\<forall>d i j. entry_of s d i \<longrightarrow> entry_of s d j \<longrightarrow>
          cstr (name (fs_nodes s ! i)) = cstr (name (fs_nodes s ! j)) \<longrightarrow> i = j)
     \<and> (\<exists>rank :: nat \<Rightarrow> nat. \<forall>d i. entry_of s d i \<longrightarrow> rank d < rank i)"

definition fs_inv :: "fs \<Rightarrow> bool" where
  "fs_inv s \<longleftrightarrow> fs_shape s \<and> fs_tree s"

lemma fs_shapeD:
  assumes "fs_shape s"
  shows "length (fs_nodes s) = 64" "length (fs_fd_table s) = 16" "current_dir s < 64"
    and "\<And>i. i < 64 \<Longrightarrow> length (name (fs_nodes s ! i)) = 32"
    and "\<And>i. i < 64 \<Longrightarrow> name (fs_nodes s ! i) ! 31 = 0"
    and "\<And>i. i < 64 \<Longrightarrow> length (data (fs_nodes s ! i)) = 4096"
    and "\<And>i. i < 64 \<Longrightarrow> unat (node_size (fs_nodes s ! i)) \<le> 4095"
  using assms by (auto simp: fs_shape_def node_wf_def)

lemma set_node_simps [simp]:
  "fs_nodes (set_node i n s) = (fs_nodes s)[i := n]"
  "fs_fd_table (set_node i n s) = fs_fd_table s"
  "current_dir (set_node i n s) = current_dir s"
  "fs_nodes (set_fd j f s) = fs_nodes s"
  "fs_fd_table (set_fd j f s) = (fs_fd_table s)[j := f]"
  "current_dir (set_fd j f s) = current_dir s"
  by (simp_all add: set_node_def set_fd_def)

lemma fs_shape_set_node: "fs_shape s \<Longrightarrow> node_wf n \<Longrightarrow> fs_shape (set_node i n s)"
  by (cases "i < 64") (auto simp: fs_shape_def nth_list_update)

lemma fs_shape_set_fd: "fs_shape s \<Longrightarrow> fd_wf f \<Longrightarrow> fs_shape (set_fd i f s)"
  by (cases "i < 16") (auto simp: fs_shape_def nth_list_update)

lemma is_dir_set_fd [simp]: "is_dir (set_fd j f s) = is_dir s"
  by (simp add: is_dir_def fun_eq_iff)

lemma entry_of_set_fd [simp]: "entry_of (set_fd j f s) = entry_of s"
  by (simp add: entry_of_def fun_eq_iff)

lemma fs_tree_set_fd [simp]: "fs_tree (set_fd j f s) = fs_tree s"
  by (simp add: fs_tree_def)

lemma fs_tree_same_meta:
  assumes "\<And>i. node_meta (fs_nodes s' ! i) = node_meta (fs_nodes s ! i)"
    and "current_dir s' = current_dir s"
  shows "fs_tree s' = fs_tree s"
proof -
  from assms(1) have eqs: "in_use (fs_nodes s' ! i) = in_use (fs_nodes s ! i)"
    "node_type (fs_nodes s' ! i) = node_type (fs_nodes s ! i)"
    "parent (fs_nodes s' ! i) = parent (fs_nodes s ! i)"
    "cstr (name (fs_nodes s' ! i)) = cstr (name (fs_nodes s ! i))" for i
    by (simp_all add: node_meta_def)
  then have "is_dir s' = is_dir s" "entry_of s' = entry_of s"
    by (simp_all add: is_dir_def entry_of_def fun_eq_iff)
  with eqs assms(2) show ?thesis
    by (simp add: fs_tree_def)
qed

lemma fs_tree_set_node_meta:
  "node_meta n = node_meta (fs_nodes s ! i) \<Longrightarrow> fs_tree (set_node i n s) = fs_tree s"
  by (cases "i < length (fs_nodes s)")
    (auto intro!: fs_tree_same_meta simp: nth_list_update list_update_beyond)

lemma fs_tree_cd: "fs_tree s \<Longrightarrow> is_dir s d \<Longrightarrow> fs_tree (s\<lparr>current_dir := d\<rparr>)"
proof -
  assume "fs_tree s" "is_dir s d"
  moreover have "is_dir (s\<lparr>current_dir := d\<rparr>) = is_dir s"
    "entry_of (s\<lparr>current_dir := d\<rparr>) = entry_of s"
    by (simp_all add: is_dir_def entry_of_def fun_eq_iff)
  ultimately show ?thesis by (simp add: fs_tree_def)
qed

lemma no_entry_of_unused:
  assumes "fs_tree s" "\<not> is_dir s d"
  shows "\<not> entry_of s d i"
  using assms unfolding fs_tree_def entry_of_def by (metis of_nat_eq_iff)

section \<open>Adding and removing a node\<close>

lemma fs_tree_add:
  assumes tree: "fs_tree s" and len: "length (fs_nodes s) = 64"
    and idx: "idx < 64" "idx \<noteq> 0" "\<not> in_use (fs_nodes s ! idx)"
    and n: "in_use n" "parent n = int (current_dir s)" "node_type n \<in> {FS_TYPE_FILE, FS_TYPE_DIR}"
      "cstr (name n) \<noteq> []"
    and fresh: "\<And>i. entry_of s (current_dir s) i \<Longrightarrow> cstr (name (fs_nodes s ! i)) \<noteq> cstr (name n)"
  shows "fs_tree (set_node idx n s)"
proof -
  let ?t = "set_node idx n s"
  have nth: "(fs_nodes s)[idx := n] ! i = (if i = idx then n else fs_nodes s ! i)" for i
    using len idx by (simp add: nth_list_update)
  have dir: "is_dir s d \<Longrightarrow> is_dir ?t d" for d
    using idx by (auto simp: is_dir_def nth)
  have none: "\<not> entry_of s idx i" for i
    using no_entry_of_unused [OF tree] idx by (auto simp: is_dir_def)
  have cur: "is_dir s (current_dir s)" "current_dir s \<noteq> idx"
    using tree idx by (auto simp: fs_tree_def is_dir_def)
  have ent: "entry_of ?t d i \<longleftrightarrow> (if i = idx then d = current_dir s else entry_of s d i)" for d i
    using idx n by (auto simp: entry_of_def nth)
  from tree obtain rank :: "nat \<Rightarrow> nat" where rank: "\<And>d i. entry_of s d i \<Longrightarrow> rank d < rank i"
    unfolding fs_tree_def by blast
  let ?rank = "rank(idx := Suc (rank (current_dir s)))"
  have "?rank d < ?rank i" if "entry_of ?t d i" for d i
    using that rank none cur by (auto simp: ent split: if_splits)
  moreover have "i = j" if "entry_of ?t d i" "entry_of ?t d j"
    "cstr (name (fs_nodes ?t ! i)) = cstr (name (fs_nodes ?t ! j))" for d i j
  proof (cases "i = idx \<or> j = idx")
    case True
    with that fresh show ?thesis by (auto simp: ent nth split: if_splits)
  next
    case False
    with that tree show ?thesis unfolding fs_tree_def by (auto simp: ent nth)
  qed
  moreover have "(\<exists>d. is_dir ?t d \<and> parent (fs_nodes ?t ! i) = int d)
      \<and> node_type (fs_nodes ?t ! i) \<in> {FS_TYPE_FILE, FS_TYPE_DIR} \<and> cstr (name (fs_nodes ?t ! i)) \<noteq> []"
    if "i < 64" "i \<noteq> 0" "in_use (fs_nodes ?t ! i)" for i
  proof (cases "i = idx")
    case True
    with n cur dir show ?thesis by (auto simp: nth)
  next
    case False
    with that tree have "(\<exists>d. is_dir s d \<and> parent (fs_nodes s ! i) = int d)
        \<and> node_type (fs_nodes s ! i) \<in> {FS_TYPE_FILE, FS_TYPE_DIR} \<and> cstr (name (fs_nodes s ! i)) \<noteq> []"
      unfolding fs_tree_def by (simp add: nth)
    with False dir show ?thesis by (auto simp: nth)
  qed
  moreover have "is_dir ?t 0" "is_dir ?t (current_dir ?t)"
    using tree dir by (auto simp: fs_tree_def)
  moreover have "parent (fs_nodes ?t ! 0) = - 1"
    using tree idx by (simp add: fs_tree_def nth)
  ultimately show ?thesis unfolding fs_tree_def by blast
qed

lemma fs_tree_remove:
  assumes tree: "fs_tree s" and len: "length (fs_nodes s) = 64"
    and idx: "idx < 64" "idx \<noteq> 0" "idx \<noteq> current_dir s"
    and childless: "\<And>i. \<not> entry_of s idx i"
    and n: "\<not> in_use n"
  shows "fs_tree (set_node idx n s)"
proof -
  let ?t = "set_node idx n s"
  have nth: "(fs_nodes s)[idx := n] ! i = (if i = idx then n else fs_nodes s ! i)" for i
    using len idx by (simp add: nth_list_update)
  have dir: "is_dir ?t d \<longleftrightarrow> is_dir s d \<and> d \<noteq> idx" for d
    using n by (auto simp: is_dir_def nth)
  have ent: "entry_of ?t d i \<longleftrightarrow> entry_of s d i \<and> i \<noteq> idx" for d i
    using n by (auto simp: entry_of_def nth)
  have "(\<exists>d. is_dir ?t d \<and> parent (fs_nodes ?t ! i) = int d)
      \<and> node_type (fs_nodes ?t ! i) \<in> {FS_TYPE_FILE, FS_TYPE_DIR} \<and> cstr (name (fs_nodes ?t ! i)) \<noteq> []"
    if i: "i < 64" "i \<noteq> 0" "in_use (fs_nodes ?t ! i)" for i
  proof -
    from i n have ne: "i \<noteq> idx" by (auto simp: nth)
    with i tree obtain d where d: "is_dir s d" "parent (fs_nodes s ! i) = int d"
      unfolding fs_tree_def by (auto simp: nth)
    moreover from this i ne have "entry_of s d i" by (simp add: entry_of_def nth)
    ultimately have "is_dir ?t d" using childless dir by auto
    with d ne i tree show ?thesis unfolding fs_tree_def by (auto simp: nth)
  qed
  moreover have "i = j" if "entry_of ?t d i" "entry_of ?t d j"
    "cstr (name (fs_nodes ?t ! i)) = cstr (name (fs_nodes ?t ! j))" for d i j
    using that tree unfolding fs_tree_def by (auto simp: ent nth)
  moreover have "\<exists>rank :: nat \<Rightarrow> nat. \<forall>d i. entry_of ?t d i \<longrightarrow> rank d < rank i"
    using tree unfolding fs_tree_def ent by blast
  moreover have "is_dir ?t 0" "is_dir ?t (current_dir ?t)" "parent (fs_nodes ?t ! 0) = - 1"
    using tree idx by (auto simp: fs_tree_def dir nth)
  ultimately show ?thesis unfolding fs_tree_def by blast
qed

section \<open>Lookup\<close>

lemma find_node_SomeD:
  assumes "find_node nm s = Some i"
  shows "i < 64" "in_use (fs_nodes s ! i)" "cstr (name (fs_nodes s ! i)) = cstr nm"
    "parent (fs_nodes s ! i) = int (current_dir s)"
  using first_from_SomeD [OF assms [unfolded find_node_def]] by (simp_all add: strcmp_eq_0)

lemma find_node_entry:
  assumes "fs_tree s" "find_node nm s = Some i"
  shows "entry_of s (current_dir s) i" "i \<noteq> 0" "i < 64" "i \<noteq> current_dir s"
proof -
  note f = find_node_SomeD [OF assms(2)]
  from assms(1) have root: "parent (fs_nodes s ! 0) = - 1" by (simp add: fs_tree_def)
  show "i \<noteq> 0"
  proof
    assume "i = 0"
    with f(4) root show False by simp
  qed
  with f show e: "entry_of s (current_dir s) i" "i < 64" by (simp_all add: entry_of_def)
  from assms(1) e(1) show "i \<noteq> current_dir s" unfolding fs_tree_def by blast
qed

lemma find_node_iff:
  assumes "fs_tree s"
  shows "find_node nm s = Some i \<longleftrightarrow>
    entry_of s (current_dir s) i \<and> cstr (name (fs_nodes s ! i)) = cstr nm"
proof
  assume *: "entry_of s (current_dir s) i \<and> cstr (name (fs_nodes s ! i)) = cstr nm"
  have "find_node nm s \<noteq> None"
    using * by (auto simp: find_node_def first_from_None_iff strcmp_eq_0 entry_of_def)
  then obtain j where j: "find_node nm s = Some j" by auto
  with assms * have "j = i"
    using find_node_entry(1) [OF assms j] find_node_SomeD(3) [OF j] unfolding fs_tree_def by metis
  with j show "find_node nm s = Some i" by simp
qed (use find_node_entry(1) [OF assms] find_node_SomeD(3) in blast)

lemma find_node_None_iff:
  assumes "fs_tree s"
  shows "find_node nm s = None \<longleftrightarrow>
    (\<forall>i. entry_of s (current_dir s) i \<longrightarrow> cstr (name (fs_nodes s ! i)) \<noteq> cstr nm)"
  using find_node_iff [OF assms, of nm] by (metis not_None_eq)

lemma find_free_node_SomeD:
  assumes "find_free_node s = Some i"
  shows "1 \<le> i" "i < 64" "\<not> in_use (fs_nodes s ! i)"
    "\<And>j. 1 \<le> j \<Longrightarrow> j < i \<Longrightarrow> in_use (fs_nodes s ! j)"
  using first_from_SomeD [OF assms [unfolded find_free_node_def]] by simp_all

lemma find_free_fd_SomeD:
  assumes "find_free_fd s = Some i"
  shows "i < 16" "\<not> fd_in_use (fs_fd_table s ! i)"
  using first_from_SomeD [OF assms [unfolded find_free_fd_def]] by simp_all

lemma has_children_iff:
  assumes "fs_tree s"
  shows "has_children d s \<longleftrightarrow> (\<exists>i. entry_of s d i)"
proof -
  have root: "parent (fs_nodes s ! 0) = - 1" using assms by (simp add: fs_tree_def)
  have "i \<noteq> 0" if "parent (fs_nodes s ! i) = int d" for i
  proof
    assume "i = 0"
    with that root show False by simp
  qed
  then show ?thesis
    by (auto simp: has_children_def first_from_None_iff entry_of_def)
qed

lemma file_no_entries:
  "fs_tree s \<Longrightarrow> node_type (fs_nodes s ! i) \<noteq> FS_TYPE_DIR \<Longrightarrow> \<not> entry_of s i j"
  by (rule no_entry_of_unused) (simp_all add: is_dir_def)

section \<open>The calls that change the tree\<close>

definition pad_name :: "u8 list \<Rightarrow> u8 list" where
  "pad_name nm = cstr nm @ replicate (32 - length (cstr nm)) 0"

lemma pad_name_simps [simp]:
  "length (cstr nm) < 32 \<Longrightarrow> length (pad_name nm) = 32"
  "length (cstr nm) < 32 \<Longrightarrow> pad_name nm ! 31 = 0"
  "cstr (pad_name nm) = cstr nm"
  by (auto simp: pad_name_def nth_append cstr_append)

lemma store_name:
  assumes "length a = 32" "length (cstr nm) < 32"
  shows "do { nm1 \<leftarrow> strncpy a nm 31; put_at nm1 31 0 } = Some (pad_name nm)"
proof -
  let ?c = "cstr nm"
  have "strncpy a nm 31 = Some (?c @ replicate (31 - length ?c) 0 @ drop 31 a)"
    using assms by (simp add: strncpy_closed)
  moreover have "drop 31 a = [a ! 31]"
    using assms by (simp add: Cons_nth_drop_Suc [symmetric])
  moreover have "32 - length ?c = Suc (31 - length ?c)"
    using assms by simp
  then have "replicate (32 - length ?c) 0 = replicate (31 - length ?c) (0 :: u8) @ [0]"
    by (metis replicate_Suc replicate_append_same)
  ultimately show ?thesis
    using assms by (simp add: pad_name_def list_update_append)
qed

lemma store_name_bind:
  assumes "length a = 32" "length (cstr nm) < 32"
  shows "Option.bind (strncpy a nm 31) (\<lambda>nm1. Option.bind (put_at nm1 31 0) f) = f (pad_name nm)"
proof -
  have "Option.bind (strncpy a nm 31) (\<lambda>nm1. Option.bind (put_at nm1 31 0) f)
      = Option.bind (do { nm1 \<leftarrow> strncpy a nm 31; put_at nm1 31 0 }) f"
    by (simp add: bind_assoc)
  with store_name [OF assms] show ?thesis by simp
qed

lemma hdc_0_iff: "hdc nm = 0 \<longleftrightarrow> cstr nm = []"
  by (cases nm) auto

text \<open>What the two creating calls store, and their behaviour as equations without the
  intermediate array operations.\<close>

definition new_dir :: "u32 \<Rightarrow> u8 list \<Rightarrow> nat \<Rightarrow> fs_node \<Rightarrow> fs_node" where
  "new_dir now nm cur n = n\<lparr>name := pad_name nm, node_type := FS_TYPE_DIR, node_size := 0,
     parent := int cur, in_use := True, created_tick := now\<rparr>"

definition new_file :: "u32 \<Rightarrow> u8 list \<Rightarrow> nat \<Rightarrow> fs_node \<Rightarrow> fs_node" where
  "new_file now nm cur n = n\<lparr>name := pad_name nm, node_type := FS_TYPE_FILE, node_size := 0,
     data := (data n)[0 := 0], parent := int cur, in_use := True, created_tick := now\<rparr>"

lemma fs_mkdir_eq:
  assumes "fs_shape s"
  shows "fs_mkdir now (Some nm) s =
    (if cstr nm = [] then Some (s, Inl EINVAL)
     else if 32 \<le> length (cstr nm) then Some (s, Inl ENAMETOOLONG)
     else if find_node nm s \<noteq> None then Some (s, Inl EEXIST)
     else case find_free_node s of None \<Rightarrow> Some (s, Inl ENOSPC)
       | Some idx \<Rightarrow> Some (set_node idx (new_dir now nm (current_dir s) (fs_nodes s ! idx)) s, Inr 0))"
proof (cases "find_free_node s")
  case (Some idx)
  with find_free_node_SomeD(2) [OF Some] show ?thesis
    by (simp add: fs_mkdir_def hdc_0_iff store_name_bind fs_shapeD [OF assms] new_dir_def)
qed (simp add: fs_mkdir_def hdc_0_iff)

lemma fs_create_file_eq:
  assumes "fs_shape s"
  shows "fs_create_file now (Some nm) s =
    (if cstr nm = [] then Some (s, Inl EINVAL)
     else if 32 \<le> length (cstr nm) then Some (s, Inl ENAMETOOLONG)
     else if find_node nm s \<noteq> None then Some (s, Inl EEXIST)
     else case find_free_node s of None \<Rightarrow> Some (s, Inl ENOSPC)
       | Some idx \<Rightarrow> Some (set_node idx (new_file now nm (current_dir s) (fs_nodes s ! idx)) s, Inr 0))"
proof (cases "find_free_node s")
  case (Some idx)
  with find_free_node_SomeD(2) [OF Some] show ?thesis
    by (simp add: fs_create_file_def hdc_0_iff store_name_bind fs_shapeD [OF assms] new_file_def)
qed (simp add: fs_create_file_def hdc_0_iff)

lemma fs_inv_shape [simp]: "fs_inv s \<Longrightarrow> fs_shape s"
  and fs_inv_tree [simp]: "fs_inv s \<Longrightarrow> fs_tree s"
  by (simp_all add: fs_inv_def)

lemma fs_invI: "fs_shape s \<Longrightarrow> fs_tree s \<Longrightarrow> fs_inv s"
  by (simp only: fs_inv_def)

lemma fs_tree_dirs:
  assumes "fs_tree s"
  shows "is_dir s 0" "is_dir s (current_dir s)" "parent (fs_nodes s ! 0) = - 1"
  using assms by (simp_all add: fs_tree_def)

lemma node_wf_nth: "fs_shape s \<Longrightarrow> i < 64 \<Longrightarrow> node_wf (fs_nodes s ! i)"
  by (simp add: fs_shape_def)

lemma new_node_wf:
  "node_wf n \<Longrightarrow> length (cstr nm) < 32 \<Longrightarrow> node_wf (new_dir now nm cur n)"
  "node_wf n \<Longrightarrow> length (cstr nm) < 32 \<Longrightarrow> node_wf (new_file now nm cur n)"
  by (simp_all add: node_wf_def new_dir_def new_file_def)

lemma add_node_inv:
  assumes "fs_inv s" "find_node nm s = None" "find_free_node s = Some idx"
    and "length (cstr nm) < 32" "cstr nm \<noteq> []"
  shows "fs_inv (set_node idx (new_dir now nm (current_dir s) (fs_nodes s ! idx)) s)"
    and "fs_inv (set_node idx (new_file now nm (current_dir s) (fs_nodes s ! idx)) s)"
proof -
  note free = find_free_node_SomeD [OF assms(3)]
  have fresh: "cstr (name (fs_nodes s ! i)) \<noteq> cstr nm" if "entry_of s (current_dir s) i" for i
    using that assms(1,2) by (simp add: find_node_None_iff)
  have tree: "fs_tree (set_node idx n s)"
    if "in_use n" "parent n = int (current_dir s)" "node_type n \<in> {FS_TYPE_FILE, FS_TYPE_DIR}"
      "cstr (name n) = cstr nm" for n
    using that assms fresh free(1) free(2) free(3)
    by (intro fs_tree_add) (auto simp: fs_shapeD)
  show "fs_inv (set_node idx (new_dir now nm (current_dir s) (fs_nodes s ! idx)) s)"
    using assms free(2) by (intro fs_invI tree fs_shape_set_node new_node_wf node_wf_nth)
      (simp_all add: new_dir_def)
  show "fs_inv (set_node idx (new_file now nm (current_dir s) (fs_nodes s ! idx)) s)"
    using assms free(2) by (intro fs_invI tree fs_shape_set_node new_node_wf node_wf_nth)
      (simp_all add: new_file_def)
qed

lemma fs_mkdir_inv:
  assumes "fs_inv s"
  shows "\<exists>s' r. fs_mkdir now nmp s = Some (s', r) \<and> fs_inv s'"
proof (cases nmp)
  case None
  with assms show ?thesis by (simp add: fs_mkdir_def)
next
  case (Some nm)
  with assms add_node_inv(1) [OF assms, of nm] show ?thesis
    by (simp add: fs_mkdir_eq not_le split: option.split)
qed

lemma fs_create_file_inv:
  assumes "fs_inv s"
  shows "\<exists>s' r. fs_create_file now nmp s = Some (s', r) \<and> fs_inv s'"
proof (cases nmp)
  case None
  with assms show ?thesis by (simp add: fs_create_file_def)
next
  case (Some nm)
  with assms add_node_inv(2) [OF assms, of nm] show ?thesis
    by (simp add: fs_create_file_eq not_le split: option.split)
qed

lemma remove_entry_inv:
  assumes "fs_inv s" "find_node nm s = Some idx" "\<And>i. \<not> entry_of s idx i"
  shows "fs_inv (set_node idx ((fs_nodes s ! idx)\<lparr>in_use := False\<rparr>) s)"
proof -
  note idx = find_node_entry [OF fs_inv_tree [OF assms(1)] assms(2)]
  have "node_wf ((fs_nodes s ! idx)\<lparr>in_use := False\<rparr>)"
    using node_wf_nth [OF fs_inv_shape [OF assms(1)] idx(3)] by (simp add: node_wf_def)
  moreover have "fs_tree (set_node idx ((fs_nodes s ! idx)\<lparr>in_use := False\<rparr>) s)"
    using idx assms(3) by (intro fs_tree_remove fs_inv_tree [OF assms(1)]
      fs_shapeD(1) [OF fs_inv_shape [OF assms(1)]]) simp_all
  ultimately show ?thesis
    using assms(1) by (intro fs_invI fs_shape_set_node) simp_all
qed

lemma fs_unlink_inv:
  assumes "fs_inv s"
  shows "fs_inv (fst (fs_unlink nm s))"
proof (cases "find_node nm s")
  case (Some idx)
  have "fs_inv (set_node idx ((fs_nodes s ! idx)\<lparr>in_use := False\<rparr>) s)"
    if "node_type (fs_nodes s ! idx) = FS_TYPE_FILE"
    using assms Some that by (intro remove_entry_inv file_no_entries) simp_all
  with assms Some show ?thesis by (simp add: fs_unlink_def)
qed (use assms in \<open>simp add: fs_unlink_def\<close>)

lemma fs_rmdir_inv:
  assumes "fs_inv s"
  shows "fs_inv (fst (fs_rmdir nm s))"
proof (cases "find_node nm s")
  case (Some idx)
  have "fs_inv (set_node idx ((fs_nodes s ! idx)\<lparr>in_use := False\<rparr>) s)" if "\<not> has_children idx s"
    using assms Some that by (intro remove_entry_inv) (simp_all add: has_children_iff)
  with assms Some show ?thesis by (simp add: fs_rmdir_def)
qed (use assms in \<open>simp add: fs_rmdir_def\<close>)

lemma fs_delete_inv:
  assumes "fs_inv s"
  shows "fs_inv (fst (fs_delete nm s))"
proof (cases "find_node nm s")
  case (Some idx)
  have "fs_inv (set_node idx ((fs_nodes s ! idx)\<lparr>in_use := False\<rparr>) s)"
    if "\<not> (node_type (fs_nodes s ! idx) = FS_TYPE_DIR \<and> has_children idx s)"
  proof (rule remove_entry_inv)
    show "\<And>i. \<not> entry_of s idx i"
      using assms that file_no_entries [of s idx] by (auto simp: has_children_iff)
  qed (use assms Some in simp_all)
  with assms Some show ?thesis by (simp add: fs_delete_def)
qed (use assms in \<open>simp add: fs_delete_def\<close>)

lemma fs_cd_inv:
  assumes "fs_inv s"
  shows "fs_inv (fst (fs_cd nm s))"
proof -
  have to_dir: "fs_inv (s\<lparr>current_dir := d\<rparr>)" if "is_dir s d" for d
  proof (rule fs_invI)
    show "fs_tree (s\<lparr>current_dir := d\<rparr>)"
      using assms that by (simp add: fs_tree_cd)
    show "fs_shape (s\<lparr>current_dir := d\<rparr>)"
      using fs_inv_shape [OF assms] that by (simp add: fs_shape_def is_dir_def)
  qed
  have root: "is_dir s 0" and cur: "is_dir s (current_dir s)" and rp: "parent (fs_nodes s ! 0) = - 1"
    using fs_tree_dirs [OF fs_inv_tree [OF assms]] by simp_all
  have up: "is_dir s (nat (parent (fs_nodes s ! current_dir s)))"
    if "0 \<le> parent (fs_nodes s ! current_dir s)"
  proof -
    have "current_dir s \<noteq> 0"
    proof
      assume "current_dir s = 0"
      with that rp show False by simp
    qed
    with cur fs_inv_tree [OF assms] obtain d where "is_dir s d"
      "parent (fs_nodes s ! current_dir s) = int d"
      unfolding fs_tree_def is_dir_def by blast
    then show ?thesis by simp
  qed
  have sub: "is_dir s i" if "find_node nm s = Some i" "node_type (fs_nodes s ! i) = FS_TYPE_DIR" for i
    using find_node_SomeD [OF that(1)] that(2) by (simp add: is_dir_def)
  show ?thesis
    using assms to_dir root up sub by (auto simp: fs_cd_def split: option.splits)
qed

section \<open>The calls that move data\<close>

lemma fd_okD:
  assumes "fs_shape s" "fd_ok fd s"
  defines "f \<equiv> fs_fd_table s ! nat fd"
  shows "0 \<le> fd" "nat fd < 16" "fd_in_use f" "nat (node_idx f) < 64" "unat (offset f) \<le> 4095"
    and "node_at s (node_idx f) = Some (fs_nodes s ! nat (node_idx f))"
proof -
  show fd: "0 \<le> fd" "nat fd < 16" "fd_in_use f"
    using assms(2) by (auto simp: fd_ok_def f_def)
  with assms(1) have "fd_wf f" by (simp add: fs_shape_def f_def)
  with fd(3) show "nat (node_idx f) < 64" "unat (offset f) \<le> 4095"
    and "node_at s (node_idx f) = Some (fs_nodes s ! nat (node_idx f))"
    using fs_shapeD(1) [OF assms(1)] by (auto simp: fd_wf_def node_at_def)
qed

text \<open>\<open>overwrite d off k buf\<close>: the first \<open>k\<close> bytes of \<open>buf\<close> stored at \<open>off\<close>.\<close>

definition overwrite :: "u8 list \<Rightarrow> nat \<Rightarrow> nat \<Rightarrow> u8 list \<Rightarrow> u8 list" where
  "overwrite d off k buf = take off d @ take k buf @ drop (off + k) d"

lemma length_overwrite [simp]:
  "k \<le> length buf \<Longrightarrow> off + k \<le> length d \<Longrightarrow> length (overwrite d off k buf) = length d"
  by (simp add: overwrite_def)

lemma memcpy_overwrite:
  "k \<le> length buf \<Longrightarrow> off + k \<le> length d \<Longrightarrow> memcpy d off buf 0 k = Some (overwrite d off k buf)"
  by (simp add: memcpy_closed overwrite_def)

lemma nth_overwrite:
  assumes "k \<le> length buf" "off + k \<le> length d" "i < length d"
  shows "overwrite d off k buf ! i = (if off \<le> i \<and> i < off + k then buf ! (i - off) else d ! i)"
  using assms by (auto simp: overwrite_def nth_append min_def)

definition write_file_len :: "u32 \<Rightarrow> nat" where
  "write_file_len len = min (unat len) 4095"

lemma fs_write_file_eq:
  assumes "fs_shape s" "write_file_len len \<le> length src"
  shows "fs_write_file nm src len s =
    (case find_node nm s of
       None \<Rightarrow> Some (s, Inl ENOENT)
     | Some idx \<Rightarrow>
         let n = fs_nodes s ! idx; k = write_file_len len in
         if node_type n \<noteq> FS_TYPE_FILE then Some (s, Inl EISDIR)
         else Some (set_node idx (n\<lparr>data := (overwrite (data n) 0 k src)[k := 0],
                      node_size := of_nat k\<rparr>) s, Inr k))"
proof (cases "find_node nm s")
  case (Some idx)
  define c :: u32 where "c = (if len \<ge> of_nat 4096 then of_nat 4096 - 1 else len)"
  have c: "unat c = write_file_len len"
    by (auto simp: c_def write_file_len_def word_le_nat_alt min_def)
  then have "c = of_nat (write_file_len len)" by (simp flip: c)
  moreover have "length (data (fs_nodes s ! idx)) = 4096"
    using fs_shapeD(6) [OF assms(1)] find_node_SomeD(1) [OF Some] by simp
  moreover have "write_file_len len \<le> 4095" by (simp add: write_file_len_def)
  ultimately show ?thesis
    unfolding fs_write_file_def Some option.case c_def [symmetric]
    using assms(2) by (simp add: Let_def memcpy_overwrite)
qed (simp add: fs_write_file_def)

lemma node_wf_data:
  "node_wf n \<Longrightarrow> length d = 4096 \<Longrightarrow> unat sz \<le> 4095 \<Longrightarrow> node_wf (n\<lparr>data := d, node_size := sz\<rparr>)"
  by (simp add: node_wf_def)

lemma set_data_inv:
  assumes "fs_inv s" "i < 64" "length d = 4096" "unat sz \<le> 4095"
  shows "fs_inv (set_node i ((fs_nodes s ! i)\<lparr>data := d, node_size := sz\<rparr>) s)"
proof (rule fs_invI)
  show "fs_shape (set_node i ((fs_nodes s ! i)\<lparr>data := d, node_size := sz\<rparr>) s)"
    using assms by (intro fs_shape_set_node node_wf_data node_wf_nth) simp_all
  show "fs_tree (set_node i ((fs_nodes s ! i)\<lparr>data := d, node_size := sz\<rparr>) s)"
    using assms by (simp add: fs_tree_set_node_meta node_meta_def)
qed

lemma set_fd_inv: "fs_inv s \<Longrightarrow> fd_wf f \<Longrightarrow> fs_inv (set_fd i f s)"
  by (intro fs_invI fs_shape_set_fd) simp_all

lemma fs_write_file_inv:
  assumes "fs_inv s" "write_file_len len \<le> length src"
  shows "\<exists>s' r. fs_write_file nm src len s = Some (s', r) \<and> fs_inv s'"
proof (cases "find_node nm s")
  case (Some idx)
  have k: "write_file_len len \<le> 4095" by (simp add: write_file_len_def)
  have i: "idx < 64" using find_node_SomeD(1) [OF Some] .
  then have "length (data (fs_nodes s ! idx)) = 4096" using assms(1) by (simp add: fs_shapeD)
  then have "fs_inv (set_node idx ((fs_nodes s ! idx)\<lparr>data :=
      (overwrite (data (fs_nodes s ! idx)) 0 (write_file_len len) src)[write_file_len len := 0],
      node_size := of_nat (write_file_len len)\<rparr>) s)"
    using assms i k by (intro set_data_inv) simp_all
  with Some assms show ?thesis by (simp add: fs_write_file_eq Let_def)
qed (use assms in \<open>simp add: fs_write_file_def\<close>)

lemma fs_close_inv:
  assumes "fs_inv s"
  shows "fs_inv (fst (fs_close fd s))"
  using assms by (auto simp: fs_close_def fd_wf_def intro: set_fd_inv)

text \<open>A read: \<open>read_len\<close> bytes, from the descriptor's offset on.\<close>

definition read_len :: "fs_fd \<Rightarrow> fs_node \<Rightarrow> u32 \<Rightarrow> nat" where
  "read_len f n len = min (unat len) (unat (node_size n) - unat (offset f))"

lemma fs_read_fd_eq:
  assumes "fs_shape s" "fd_ok fd s"
  defines "f \<equiv> fs_fd_table s ! nat fd"
  defines "n \<equiv> fs_nodes s ! nat (node_idx f)"
  assumes "flags f AND 3 \<noteq> O_WRONLY" "read_len f n len \<le> length buf"
  shows "fs_read_fd fd (Some buf) len s =
    (if unat (node_size n) \<le> unat (offset f) then Some (s, Some buf, Inr 0)
     else Some (set_fd (nat fd) (f\<lparr>offset := of_nat (unat (offset f) + read_len f n len)\<rparr>) s,
       Some (take (read_len f n len) (drop (unat (offset f)) (data n)) @ drop (read_len f n len) buf),
       Inr (read_len f n len)))"
proof (cases "unat (node_size n) \<le> unat (offset f)")
  case True
  with assms fd_okD(6) [OF assms(1,2)] show ?thesis
    by (simp add: fs_read_fd_def Let_def word_le_nat_alt)
next
  case False
  note ok = fd_okD [OF assms(1,2), folded f_def]
  define c where "c = (if len < node_size n - offset f then len else node_size n - offset f)"
  have "unat (node_size n - offset f) = unat (node_size n) - unat (offset f)"
    using False by (simp add: unat_sub word_le_nat_alt)
  then have c: "unat c = read_len f n len"
    by (auto simp: c_def read_len_def word_less_nat_alt min_def)
  then have off: "offset f + c = of_nat (unat (offset f) + read_len f n len)"
    by (simp flip: c)
  have "length (data n) = 4096" "unat (node_size n) \<le> 4095"
    using fs_shapeD [OF assms(1)] ok(4) by (simp_all add: n_def)
  with False have "unat (offset f) + read_len f n len \<le> length (data n)"
    by (simp add: read_len_def)
  with assms(6) c have "memcpy buf 0 (data n) (unat (offset f)) (unat c)
      = Some (take (read_len f n len) (drop (unat (offset f)) (data n)) @ drop (read_len f n len) buf)"
    by (simp add: memcpy_closed)
  with False assms(2,5) ok(6) off c show ?thesis
    by (simp add: fs_read_fd_def Let_def word_le_nat_alt f_def [symmetric] n_def [symmetric]
      c_def [symmetric])
qed

text \<open>A write: at the end of the file when the descriptor appends, else at its offset; as much
  as fits before the last byte, which is kept for the NUL.\<close>

definition write_off :: "fs_fd \<Rightarrow> fs_node \<Rightarrow> nat" where
  "write_off f n = unat (if flags f AND O_APPEND \<noteq> 0 then node_size n else offset f)"

definition write_len :: "fs_fd \<Rightarrow> fs_node \<Rightarrow> u32 \<Rightarrow> nat" where
  "write_len f n len = min (unat len) (4095 - write_off f n)"

definition written :: "fs_fd \<Rightarrow> fs_node \<Rightarrow> u32 \<Rightarrow> u8 list \<Rightarrow> fs_node" where
  "written f n len buf =
     (let k = write_len f n len; size = max (write_off f n + k) (unat (node_size n)) in
      n\<lparr>data := (overwrite (data n) (write_off f n) k buf)[size := 0], node_size := of_nat size\<rparr>)"

lemma write_bounds:
  assumes "fs_shape s" "fd_ok fd s"
  defines "f \<equiv> fs_fd_table s ! nat fd"
  defines "n \<equiv> fs_nodes s ! nat (node_idx f)"
  shows "write_off f n \<le> 4095" "write_off f n + write_len f n len \<le> 4095"
    "unat (node_size n) \<le> 4095" "length (data n) = 4096"
proof -
  note ok = fd_okD [OF assms(1,2), folded f_def]
  show n: "unat (node_size n) \<le> 4095" "length (data n) = 4096"
    using fs_shapeD [OF assms(1)] ok(4) by (simp_all add: n_def)
  with ok(5) show off: "write_off f n \<le> 4095" by (simp add: write_off_def)
  then show "write_off f n + write_len f n len \<le> 4095" by (simp add: write_len_def)
qed

lemma fs_write_fd_eq:
  assumes "fs_shape s" "fd_ok fd s"
  defines "f \<equiv> fs_fd_table s ! nat fd"
  defines "n \<equiv> fs_nodes s ! nat (node_idx f)"
  assumes "flags f AND 3 \<noteq> O_RDONLY" "write_len f n len \<le> length buf"
  shows "fs_write_fd fd (Some buf) len s =
    (if write_off f n = 4095
     then Some (set_fd (nat fd) (f\<lparr>offset := of_nat (write_off f n)\<rparr>) s, Inl ENOSPC)
     else Some (set_node (nat (node_idx f)) (written f n len buf)
        (set_fd (nat fd) (f\<lparr>offset := of_nat (write_off f n + write_len f n len)\<rparr>) s),
        Inr (write_len f n len)))"
proof -
  note ok = fd_okD [OF assms(1,2), folded f_def]
  note b = write_bounds [OF assms(1,2), folded f_def, folded n_def]
  define f1 where "f1 = (if flags f AND O_APPEND \<noteq> 0 then f\<lparr>offset := node_size n\<rparr> else f)"
  have f1: "unat (offset f1) = write_off f n" "f1\<lparr>offset := x\<rparr> = f\<lparr>offset := x\<rparr>" for x
    by (simp_all add: f1_def write_off_def)
  then have f1_self: "f1 = f\<lparr>offset := of_nat (write_off f n)\<rparr>"
    by (simp add: f1_def write_off_def)
  define space where "space = (of_nat 4096 - 1) - offset f1"
  define c where "c = (if len < space then len else space)"
  have cond: "offset f1 \<ge> of_nat 4096 - 1 \<longleftrightarrow> write_off f n = 4095"
    using b(1) f1(1) by (auto simp: word_le_nat_alt)
  have "unat space = 4095 - write_off f n"
    using b(1) f1(1) by (simp add: space_def unat_sub word_le_nat_alt)
  then have c: "unat c = write_len f n len"
    by (auto simp: c_def write_len_def word_less_nat_alt min_def)
  have new_off: "offset f1 + c = of_nat (write_off f n + write_len f n len)"
    by (simp flip: c f1(1))
  define sz where "sz = (if offset f1 + c > node_size n then offset f1 + c else node_size n)"
  have "unat (offset f1 + c) = write_off f n + write_len f n len"
    using b(2) [of len] unfolding new_off by (intro unat_of_nat_u32) linarith
  then have sz: "unat sz = max (write_off f n + write_len f n len) (unat (node_size n))"
    by (auto simp: sz_def word_less_nat_alt max_def)
  then have sz': "sz = of_nat (max (write_off f n + write_len f n len) (unat (node_size n)))"
    by (simp flip: sz)
  have cp: "memcpy (data n) (unat (offset f1)) buf 0 (unat c)
      = Some (overwrite (data n) (write_off f n) (write_len f n len) buf)"
    using b(2) [of len] b(4) assms(6) unfolding c f1(1) by (intro memcpy_overwrite) simp_all
  have pt: "put_at (overwrite (data n) (write_off f n) (write_len f n len) buf) (unat sz) 0
      = Some ((overwrite (data n) (write_off f n) (write_len f n len) buf)[unat sz := 0])"
    using b(2) [of len] b(3,4) assms(6) by (intro put_at_in) (simp add: sz)
  have "fs_write_fd fd (Some buf) len s =
    (if offset f1 \<ge> of_nat 4096 - 1 then Some (set_fd (nat fd) f1 s, Inl ENOSPC)
     else do { d \<leftarrow> memcpy (data n) (unat (offset f1)) buf 0 (unat c);
               d' \<leftarrow> put_at d (unat sz) 0;
               Some (set_node (nat (node_idx f)) (n\<lparr>data := d', node_size := sz\<rparr>)
                  (set_fd (nat fd) (f1\<lparr>offset := offset f1 + c\<rparr>) s), Inr (unat c)) })"
    unfolding fs_write_fd_def Let_def f_def [symmetric]
    using assms(2,5) ok(6)
    by (simp del: of_nat_numeral add: f1_def [symmetric] n_def [symmetric] sz_def c_def space_def)
  then show ?thesis
    unfolding cond cp Option.bind.simps unfolding pt Option.bind.simps
    unfolding written_def Let_def new_off c sz [symmetric]
    by (simp add: f1_self del: of_nat_add)
qed

lemma written_inv:
  assumes "fs_inv s" "i < 64" "n = fs_nodes s ! i"
    and "write_off f n + write_len f n len \<le> 4095" "write_len f n len \<le> length buf"
  shows "fs_inv (set_node i (written f n len buf) s)"
proof -
  have "length (data n) = 4096" "unat (node_size n) \<le> 4095"
    using assms(1-3) by (simp_all add: fs_shapeD)
  with assms show ?thesis
    unfolding written_def Let_def by (simp add: set_data_inv del: of_nat_add)
qed

lemma fs_write_fd_inv:
  assumes "fs_inv s" "\<forall>b. bufp = Some b \<longrightarrow> unat len \<le> length b"
  shows "\<exists>s' r. fs_write_fd fd bufp len s = Some (s', r) \<and> fs_inv s'"
proof (cases "fd_ok fd s \<and> bufp \<noteq> None \<and> flags (fs_fd_table s ! nat fd) AND 3 \<noteq> O_RDONLY")
  case False
  with assms(1) show ?thesis by (auto simp: fs_write_fd_def split: option.split)
next
  case True
  define f where "f = fs_fd_table s ! nat fd"
  define n where "n = fs_nodes s ! nat (node_idx f)"
  from True obtain buf where buf: "bufp = Some buf" by auto
  have shape: "fs_shape s" and ok: "fd_ok fd s" using assms True by simp_all
  note b = write_bounds [OF shape ok, folded f_def, folded n_def]
  note fd = fd_okD [OF shape ok, folded f_def]
  have len: "write_len f n len \<le> length buf"
    using assms(2) buf by (simp add: write_len_def)
  have fdw: "fs_inv (set_fd (nat fd) (f\<lparr>offset := of_nat x\<rparr>) s)" if "x \<le> 4095" for x
    using shape fd that by (intro set_fd_inv assms) (auto simp: fd_wf_def fs_shape_def f_def)
  have "fs_inv (set_node (nat (node_idx f)) (written f n len buf)
      (set_fd (nat fd) (f\<lparr>offset := of_nat (write_off f n + write_len f n len)\<rparr>) s))"
    using fd(4) b len by (intro written_inv fdw) (simp_all add: n_def)
  with fs_write_fd_eq [OF shape ok, folded f_def, folded n_def, of len buf] True len fdw [OF b(1)] buf
  show ?thesis by (auto simp: f_def)
qed

lemma fs_read_fd_inv:
  assumes "fs_inv s" "\<forall>b. bufp = Some b \<longrightarrow> unat len \<le> length b"
  shows "\<exists>s' b' r. fs_read_fd fd bufp len s = Some (s', b', r) \<and> fs_inv s'"
proof (cases "fd_ok fd s \<and> bufp \<noteq> None \<and> flags (fs_fd_table s ! nat fd) AND 3 \<noteq> O_WRONLY")
  case False
  with assms(1) show ?thesis by (auto simp: fs_read_fd_def split: option.split)
next
  case True
  define f where "f = fs_fd_table s ! nat fd"
  define n where "n = fs_nodes s ! nat (node_idx f)"
  from True obtain buf where buf: "bufp = Some buf" by auto
  have shape: "fs_shape s" and ok: "fd_ok fd s" using assms True by simp_all
  note fd = fd_okD [OF shape ok, folded f_def]
  have len: "read_len f n len \<le> length buf"
    using assms(2) buf by (simp add: read_len_def)
  have "unat (node_size n) \<le> 4095" using fs_shapeD(7) [OF shape fd(4)] by (simp add: n_def)
  then have bound: "unat (offset f) + read_len f n len \<le> 4095"
    if "\<not> unat (node_size n) \<le> unat (offset f)"
    using that by (simp add: read_len_def)
  have "fs_inv (set_fd (nat fd) (f\<lparr>offset := of_nat x\<rparr>) s)" if "x \<le> 4095" for x
    using shape fd that by (intro set_fd_inv assms) (auto simp: fd_wf_def fs_shape_def f_def)
  from fs_read_fd_eq [OF shape ok, folded f_def, folded n_def, OF _ len] True buf assms(1) this [OF bound]
  show ?thesis by (cases "unat (node_size n) \<le> unat (offset f)") (auto simp: f_def)
qed

lemma unat_word_of_int_u32: "0 \<le> x \<Longrightarrow> x < 4294967296 \<Longrightarrow> unat (word_of_int x :: u32) = nat x"
  by (metis int_nat_eq nat_int nat_less_numeral_power_cancel_iff of_int_of_nat_eq unat_of_nat_u32
    nat_less_iff of_nat_numeral)

lemma uint_le_of_unat: "unat (x :: u32) \<le> k \<Longrightarrow> uint x \<le> int k"
  using uint_nat [of x] by linarith

lemma fs_lseek_inv:
  assumes "fs_inv s" "- 2147483648 \<le> off" "off < 2147479553"
  shows "\<exists>s' r. fs_lseek fd off whence s = Some (s', r) \<and> fs_inv s'"
proof (cases "fd_ok fd s \<and> (whence = SEEK_SET \<or> whence = SEEK_CUR \<or> whence = SEEK_END)")
  case False
  with assms(1) fd_okD(6) [of s fd] show ?thesis by (auto simp: fs_lseek_def Let_def)
next
  case True
  define f where "f = fs_fd_table s ! nat fd"
  define n where "n = fs_nodes s ! nat (node_idx f)"
  have shape: "fs_shape s" and ok: "fd_ok fd s" using assms True by simp_all
  note fd = fd_okD [OF shape ok, folded f_def]
  have size: "unat (node_size n) \<le> 4095" using fs_shapeD(7) [OF shape fd(4)] by (simp add: n_def)
  define target where "target =
    (if whence = SEEK_SET then off else if whence = SEEK_CUR then uint (offset f) + off
     else uint (node_size n) + off)"
  have cints: "cint (sint (offset f) + off) = Some (uint (offset f) + off)"
    "cint (sint (node_size n) + off) = Some (uint (node_size n) + off)"
  proof -
    note b = uint_le_of_unat [OF fd(5)] uint_le_of_unat [OF size]
      uint_nonnegative [of "offset f"] uint_nonnegative [of "node_size n"]
    have "- 2147483648 \<le> uint (offset f) + off" "uint (offset f) + off < 2147483648"
      "- 2147483648 \<le> uint (node_size n) + off" "uint (node_size n) + off < 2147483648"
      using assms(2,3) b by linarith+
    with b show "cint (sint (offset f) + off) = Some (uint (offset f) + off)"
      "cint (sint (node_size n) + off) = Some (uint (node_size n) + off)"
      by (simp_all add: sint_small)
  qed
  have "fs_inv (set_fd (nat fd) (f\<lparr>offset := word_of_int x\<rparr>) s)" if "0 \<le> x" "x \<le> 4095" for x
  proof -
    have "unat (word_of_int x :: u32) = nat x"
      using that by (simp add: unat_word_of_int_u32)
    with that shape fd show ?thesis
      by (intro set_fd_inv assms) (auto simp: fd_wf_def fs_shape_def f_def)
  qed
  moreover have "fs_lseek fd off whence s =
    (if target < 0 \<or> target > 4095 then Some (s, Inl EINVAL)
     else Some (set_fd (nat fd) (f\<lparr>offset := word_of_int target\<rparr>) s, Inr (nat target)))"
    using True ok fd(6) cints
    by (auto simp: fs_lseek_def Let_def target_def f_def [symmetric] n_def [symmetric])
  ultimately show ?thesis using assms(1) by auto
qed

end
