(* ===== verification/FsProps.thy ===== *)
theory FsProps
  imports FsInv
begin

text \<open>
  The properties of the filesystem: every call is memory safe and keeps the invariant, from the
  initial state on; the two creating calls and the deleting ones do to the set of directory
  entries what they promise; a descriptor reads back what was written; and what happens to
  descriptors whose file is deleted.
\<close>

section \<open>Opening\<close>

lemma find_node_add:
  assumes "fs_inv s" "find_node nm s = None" "find_free_node s = Some idx"
    and "length (cstr nm) < 32" "cstr nm \<noteq> []"
  shows "find_node nm (set_node idx (new_file now nm (current_dir s) (fs_nodes s ! idx)) s) = Some idx"
    and "find_node nm (set_node idx (new_dir now nm (current_dir s) (fs_nodes s ! idx)) s) = Some idx"
proof -
  note free = find_free_node_SomeD [OF assms(3)]
  note inv = add_node_inv [OF assms, of now]
  show "find_node nm (set_node idx (new_file now nm (current_dir s) (fs_nodes s ! idx)) s) = Some idx"
    using find_node_iff [OF fs_inv_tree [OF inv(2)]] free(1,2) assms(1)
    by (simp add: entry_of_def new_file_def fs_shapeD)
  show "find_node nm (set_node idx (new_dir now nm (current_dir s) (fs_nodes s ! idx)) s) = Some idx"
    using find_node_iff [OF fs_inv_tree [OF inv(1)]] free(1,2) assms(1)
    by (simp add: entry_of_def new_dir_def fs_shapeD)
qed

lemma open_lookup_cases:
  assumes "fs_inv s" "cstr nm \<noteq> []"
  obtains (found) idx where "find_node nm s = Some idx" "open_lookup now nm flgs s = Some (s, Inr idx)"
    | (created) idx where "find_node nm s = None" "find_free_node s = Some idx"
        "flgs AND O_CREAT \<noteq> 0" "length (cstr nm) < 32"
        "open_lookup now nm flgs s = Some (set_node idx (new_file now nm (current_dir s)
           (fs_nodes s ! idx)) s, Inr idx)"
    | (error) e where "find_node nm s = None" "open_lookup now nm flgs s = Some (s, Inl e)"
        "e \<in> {ENOENT, ENAMETOOLONG, ENOSPC}"
proof (cases "find_node nm s")
  case (Some idx)
  then show ?thesis by (intro found) (simp_all add: open_lookup_def)
next
  case None
  show ?thesis
  proof (cases "flgs AND O_CREAT \<noteq> 0 \<and> length (cstr nm) < 32 \<and> find_free_node s \<noteq> None")
    case True
    then obtain idx where idx: "find_free_node s = Some idx" by auto
    with True None assms show ?thesis
      by (intro created [of idx])
        (simp_all add: open_lookup_def fs_create_file_eq find_node_add(1))
  next
    case False
    with None assms show ?thesis
      by (cases "flgs AND O_CREAT \<noteq> 0"; cases "length (cstr nm) < 32")
        (auto intro!: error simp: open_lookup_def fs_create_file_eq)
  qed
qed

lemma open_node_inv:
  assumes "fs_inv s" "idx < 64"
  shows "\<exists>s' r. open_node flgs idx s = Some (s', r) \<and> fs_inv s'"
proof -
  define s2 where "s2 = (if flgs AND O_TRUNC \<noteq> 0
    then set_node idx ((fs_nodes s ! idx)\<lparr>data := (data (fs_nodes s ! idx))[0 := 0], node_size := 0\<rparr>) s
    else s)"
  have len: "length (data (fs_nodes s ! idx)) = 4096" using assms by (simp add: fs_shapeD)
  then have inv: "fs_inv s2"
    using assms by (simp add: s2_def set_data_inv)
  have eq: "open_node flgs idx s =
    (if node_type (fs_nodes s ! idx) \<noteq> FS_TYPE_FILE then Some (s, Inl EISDIR)
     else case find_free_fd s2 of None \<Rightarrow> Some (s2, Inl EMFILE)
       | Some fd \<Rightarrow> Some (set_fd fd \<lparr>node_idx = int idx,
            offset = (if flgs AND O_APPEND \<noteq> 0 then node_size (fs_nodes s2 ! idx) else 0),
            flags = flgs, fd_in_use = True\<rparr> s2, Inr fd))"
    using len unfolding s2_def by (cases "flgs AND O_TRUNC = 0") (simp_all add: open_node_def)
  have "fd_wf \<lparr>node_idx = int idx,
      offset = (if flgs AND O_APPEND \<noteq> 0 then node_size (fs_nodes s2 ! idx) else 0),
      flags = flgs, fd_in_use = True\<rparr>"
    using assms(2) fs_shapeD(7) [OF fs_inv_shape [OF inv] assms(2)] by (simp add: fd_wf_def)
  with inv assms show ?thesis
    unfolding eq by (auto intro: set_fd_inv split: option.split)
qed

lemma fs_open_inv:
  assumes "fs_inv s"
  shows "\<exists>s' r. fs_open now nmp flgs s = Some (s', r) \<and> fs_inv s'"
proof (cases "\<exists>nm. nmp = Some nm \<and> cstr nm \<noteq> []")
  case False
  with assms show ?thesis by (auto simp: fs_open_def hdc_0_iff split: option.split)
next
  case True
  then obtain nm where nm: "nmp = Some nm" "cstr nm \<noteq> []" by auto
  show ?thesis
  proof (cases rule: open_lookup_cases [OF assms nm(2), of now flgs])
    case (1 idx)
    with assms nm open_node_inv [OF assms find_node_SomeD(1) [OF 1(1)], of flgs] show ?thesis
      by (simp add: fs_open_def hdc_0_iff)
  next
    case (2 idx)
    with nm open_node_inv [OF add_node_inv(2) [OF assms 2(1,2,4) nm(2), of now]
        find_free_node_SomeD(2) [OF 2(2)], of flgs]
    show ?thesis by (simp add: fs_open_def hdc_0_iff)
  next
    case (3 e)
    with assms nm show ?thesis by (simp add: fs_open_def hdc_0_iff)
  qed
qed

section \<open>The calls that only read\<close>

lemma fs_read_file_eq:
  assumes "fs_shape s" "0 < max_len" "unat max_len \<le> length buf"
  shows "fs_read_file nm buf max_len s =
    (case find_node nm s of
       None \<Rightarrow> Some (buf, Inl ENOENT)
     | Some idx \<Rightarrow>
         let n = fs_nodes s ! idx; k = min (unat (node_size n)) (unat max_len - 1) in
         if node_type n \<noteq> FS_TYPE_FILE then Some (buf, Inl EISDIR)
         else Some (take k (data n) @ 0 # drop (Suc k) buf, Inr k))"
proof (cases "find_node nm s")
  case (Some idx)
  define n where "n = fs_nodes s ! idx"
  define c where "c = (if node_size n \<ge> max_len then max_len - 1 else node_size n)"
  have n: "length (data n) = 4096" "unat (node_size n) \<le> 4095"
    using fs_shapeD [OF assms(1)] find_node_SomeD(1) [OF Some] by (simp_all add: n_def)
  have "unat (max_len - 1) = unat max_len - 1"
    using assms(2) by (metis unat_minus_one word_neq_0_conv)
  then have c: "unat c = min (unat (node_size n)) (unat max_len - 1)"
    using assms(2) by (auto simp: c_def word_le_nat_alt word_less_nat_alt)
  let ?k = "min (unat (node_size n)) (unat max_len - 1)"
  have k: "?k < length buf" "?k \<le> length (data n)"
    using assms(2,3) n by (auto simp: word_less_nat_alt)
  then have "memcpy buf 0 (data n) 0 ?k = Some (take ?k (data n) @ drop ?k buf)"
    by (simp add: memcpy_closed)
  moreover have "put_at (take ?k (data n) @ drop ?k buf) ?k 0
      = Some (take ?k (data n) @ 0 # drop (Suc ?k) buf)"
    using k by (simp add: list_update_append Cons_nth_drop_Suc [symmetric])
  ultimately show ?thesis
    unfolding fs_read_file_def Some option.case n_def [symmetric] Let_def c_def [symmetric] c
    by simp
qed (simp add: fs_read_file_def)

lemma fs_getcwd_eq:
  assumes "fs_inv s" "unat len \<le> length buf" "len \<noteq> 0"
  defines "nm \<equiv> cstr (name (fs_nodes s ! current_dir s))"
  shows "fs_getcwd (Some buf) len s =
    (if unat len < length nm + 1 then Some (Some buf, Inl EINVAL)
     else Some (Some (nm @ 0 # drop (Suc (length nm)) buf), Inr (length nm)))"
proof -
  let ?a = "name (fs_nodes s ! current_dir s)"
  have a: "length ?a = 32" "?a ! 31 = 0"
    using assms(1) by (simp_all add: fs_shapeD)
  then have "0 \<in> set ?a" using nth_mem [of 31 ?a] by simp
  then have l: "length nm < 32" using length_cstr_less [of ?a] a by (simp add: nm_def)
  have "take (Suc (length nm)) ?a = nm @ [0]"
  proof -
    have "take (length nm) ?a = nm" unfolding nm_def cstr_def by (metis takeWhile_eq_take)
    moreover have "?a ! length nm = 0"
      using l a nth_length_takeWhile [of "\<lambda>c. c \<noteq> 0" ?a] by (simp add: nm_def cstr_def)
    ultimately show ?thesis using l a by (simp add: take_Suc_conv_app_nth)
  qed
  then have "memcpy buf 0 ?a 0 (length nm + 1) = Some (nm @ 0 # drop (Suc (length nm)) buf)"
    if "Suc (length nm) \<le> length buf"
    using l a that by (subst memcpy_closed) simp_all
  moreover have "of_nat (length nm) + 1 > len \<longleftrightarrow> unat len < length nm + 1"
    using l by (simp add: word_less_nat_alt unat_word_ariths)
  ultimately show ?thesis
    using assms(2,3) by (auto simp: fs_getcwd_def Let_def nm_def)
qed

text \<open>The listing: the line of each entry, in the order of the table, as long as it fits.\<close>

definition entry_line :: "fs_node \<Rightarrow> u8 list" where
  "entry_line n = (if node_type n = FS_TYPE_DIR then bytes ''DIR '' else bytes ''FILE'')
     @ bytes ''  '' @ cstr (name n) @ [10]"

definition visible :: "fs \<Rightarrow> nat list \<Rightarrow> fs_node list" where
  "visible s is = map (\<lambda>i. fs_nodes s ! i) (filter (\<lambda>i. in_use (fs_nodes s ! i)
     \<and> parent (fs_nodes s ! i) = int (current_dir s)) is)"

definition entries :: "fs \<Rightarrow> fs_node list" where
  "entries s = visible s [0 ..< 64]"

fun fitting :: "nat \<Rightarrow> nat \<Rightarrow> u8 list list \<Rightarrow> u8 list list" where
  "fitting m off [] = []"
| "fitting m off (l # ls) =
     (if off + length l < m then l # fitting m (off + length l) ls else fitting m off ls)"

lemma fitting_length: "off < m \<Longrightarrow> off + length (concat (fitting m off ls)) < m"
  by (induction m off ls rule: fitting.induct) (auto simp: add.assoc)

lemma fitting_all: "off + length (concat ls) < m \<Longrightarrow> fitting m off ls = ls"
  by (induction m off ls rule: fitting.induct) auto

lemma name_has_nul: "node_wf n \<Longrightarrow> length (cstr (name n)) < 32 \<and> 0 \<in> set (name n)"
proof -
  assume "node_wf n"
  then have a: "length (name n) = 32" "name n ! 31 = 0" by (simp_all add: node_wf_def)
  then have "0 \<in> set (name n)" using nth_mem [of 31 "name n"] by simp
  with length_cstr_less [OF this] a show ?thesis by simp
qed

lemma put_at_middle [simp]: "put_at (xs @ y # ys) (length xs) v = Some (xs @ v # ys)"
  by simp

lemma take_cstr: "take (length (cstr a)) a = cstr a"
  by (metis cstr_def takeWhile_eq_take)

lemma list_entry_eq:
  assumes "node_wf (fs_nodes s ! i)" "m \<le> length pre + length rest"
  shows "list_entry s m i (pre @ rest, length pre, c) =
    (let n = fs_nodes s ! i; l = entry_line n in
     if in_use n \<and> parent n = int (current_dir s) \<and> length pre + length l < m
     then Some ((pre @ l) @ drop (length l) rest, length (pre @ l), Suc c)
     else Some (pre @ rest, length pre, c))"
proof -
  define n where "n = fs_nodes s ! i"
  define ty where "ty = (if node_type n = FS_TYPE_DIR then bytes ''DIR '' else bytes ''FILE'')"
  have ty: "length ty = 4" by (simp add: ty_def)
  have line: "entry_line n = ty @ [32, 32] @ cstr (name n) @ [10]"
    by (simp add: entry_line_def ty_def byte_def of_char_def)
  have nm: "length (cstr (name n)) \<le> length (name n)"
    using name_has_nul [OF assms(1)] assms(1) by (simp add: n_def node_wf_def)
  show ?thesis
  proof (cases "in_use n \<and> parent n = int (current_dir s) \<and> length pre + length (entry_line n) < m")
    case False
    then show ?thesis
      by (auto simp: list_entry_def Let_def n_def [symmetric] line ty)
  next
    case True
    define k where "k = length (cstr (name n))"
    from True assms(2) have len: "7 + k < length rest" by (simp add: line ty k_def)
    have d: "drop 4 rest = rest ! 4 # drop 5 rest" "drop 5 rest = rest ! 5 # drop 6 rest"
      "drop (6 + k) rest = rest ! (6 + k) # drop (7 + k) rest"
      using Cons_nth_drop_Suc [of 4 rest] Cons_nth_drop_Suc [of 5 rest]
        Cons_nth_drop_Suc [of "6 + k" rest] len by simp_all
    have 1: "memcpy (pre @ rest) (length pre) ty 0 4 = Some (pre @ ty @ drop 4 rest)"
      using len ty by (subst memcpy_closed) simp_all
    have 2: "put_at (pre @ ty @ drop 4 rest) (length pre + 4) 32
      = Some (pre @ ty @ 32 # drop 5 rest)"
      using len ty put_at_middle [of "pre @ ty" "rest ! 4" "drop 5 rest" 32] unfolding d(1)
      by (simp del: put_at_middle)
    have 3: "put_at (pre @ ty @ 32 # drop 5 rest) (length pre + 5) 32
      = Some (pre @ ty @ 32 # 32 # drop 6 rest)"
      using len ty put_at_middle [of "pre @ ty @ [32]" "rest ! 5" "drop 6 rest" 32] unfolding d(2)
      by (simp del: put_at_middle)
    have 4: "memcpy (pre @ ty @ 32 # 32 # drop 6 rest) (length pre + 6) (name n) 0 k
      = Some (pre @ ty @ 32 # 32 # cstr (name n) @ drop (6 + k) rest)"
      using len ty nm by (subst memcpy_closed) (simp_all add: k_def take_cstr add.commute)
    have 5: "put_at (pre @ ty @ 32 # 32 # cstr (name n) @ drop (6 + k) rest) (length pre + 6 + k) 10
      = Some (pre @ ty @ 32 # 32 # cstr (name n) @ 10 # drop (7 + k) rest)"
      using len ty put_at_middle [of "pre @ ty @ [32, 32] @ cstr (name n)" "rest ! (6 + k)" "drop (7 + k) rest" 10] unfolding d(3)
      by (simp add: k_def [symmetric] add.assoc del: put_at_middle)
    have "list_entry s m i (pre @ rest, length pre, c) = do {
          b1 \<leftarrow> memcpy (pre @ rest) (length pre) ty 0 4;
          b2 \<leftarrow> put_at b1 (length pre + 4) 32;
          b3 \<leftarrow> put_at b2 (length pre + 5) 32;
          b4 \<leftarrow> memcpy b3 (length pre + 6) (name n) 0 k;
          b5 \<leftarrow> put_at b4 (length pre + 6 + k) 10;
          Some (b5, length pre + 7 + k, Suc c)
        }"
      using True unfolding list_entry_def Let_def n_def [symmetric] ty_def [symmetric] prod.case strlen_eq
      by (simp add: line ty k_def byte_def of_char_def)
    also have "\<dots> = Some (pre @ ty @ 32 # 32 # cstr (name n) @ 10 # drop (7 + k) rest,
        length pre + 7 + k, Suc c)"
      unfolding 1 Option.bind.simps 2 3 4 5 ..
    finally show ?thesis
      using True unfolding Let_def n_def [symmetric]
      by (simp add: line ty k_def)
  qed
qed

lemma list_loop_eq:
  assumes "\<forall>i \<in> set is. node_wf (fs_nodes s ! i)" "m \<le> length pre + length rest"
  shows "list_loop s m is (pre @ rest, length pre, c) =
    (let ls = fitting m (length pre) (map entry_line (visible s is)) in
     Some (pre @ concat ls @ drop (length (concat ls)) rest, length (pre @ concat ls), c + length ls))"
  using assms
proof (induction "is" arbitrary: pre rest c)
  case Nil
  show ?case by (simp add: visible_def)
next
  case (Cons i "is")
  define l where "l = entry_line (fs_nodes s ! i)"
  let ?shown = "in_use (fs_nodes s ! i) \<and> parent (fs_nodes s ! i) = int (current_dir s)"
  from list_entry_eq [of s i m pre rest c] Cons.prems
  have "list_entry s m i (pre @ rest, length pre, c) =
    (if ?shown \<and> length pre + length l < m
     then Some ((pre @ l) @ drop (length l) rest, length (pre @ l), Suc c)
     else Some (pre @ rest, length pre, c))"
    by (simp add: l_def Let_def)
  moreover have "m \<le> length (pre @ l) + length (drop (length l) rest)" if "length pre + length l < m"
    using that Cons.prems(2) by simp
  ultimately show ?case
    using Cons.IH [of "pre @ l" "drop (length l) rest" "Suc c"] Cons.IH [of pre rest c] Cons.prems
    by (cases "?shown \<and> length pre + length l < m")
      (auto simp: visible_def l_def [symmetric] add.commute Let_def)
qed

lemma fs_list_eq:
  assumes "fs_inv s" "0 < m" "m \<le> length buf"
  defines "ls \<equiv> fitting m 0 (map entry_line (entries s))"
  shows "fs_list buf m s = Some (concat ls @ 0 # drop (Suc (length (concat ls))) buf, length ls)"
proof -
  have "list_loop s m [0 ..< 64] ([] @ buf, length ([] :: u8 list), 0) =
    Some ([] @ concat ls @ drop (length (concat ls)) buf, length ([] @ concat ls), 0 + length ls)"
    unfolding ls_def entries_def using assms node_wf_nth [OF fs_inv_shape [OF assms(1)]]
    by (subst list_loop_eq) (auto simp: Let_def)
  moreover have "length (concat ls) < length buf"
    using fitting_length [of 0 m "map entry_line (entries s)"] assms(2,3) by (simp add: ls_def)
  then have "drop (length (concat ls)) buf = buf ! length (concat ls) # drop (Suc (length (concat ls))) buf"
    by (simp add: Cons_nth_drop_Suc)
  ultimately show ?thesis
    by (simp add: fs_list_def del: length_concat)
qed

section \<open>The initial state\<close>

lemma fs_blank_nodes:
  "i < 64 \<Longrightarrow> fs_nodes fs_blank ! i = (if i = 0 then root_node else zero_node)"
  by (cases i) (auto simp: fs_blank_def simp del: replicate.simps)

lemma fs_blank_inv: "fs_inv fs_blank"
proof (rule fs_invI)
  have used: "in_use (fs_nodes fs_blank ! i) \<longleftrightarrow> i = 0" if "i < 64" for i
    using that by (simp add: fs_blank_nodes root_node_def zero_node_def)
  have wf: "node_wf (fs_nodes fs_blank ! i)" if "i < 64" for i
    using that by (simp add: fs_blank_nodes node_wf_def root_node_def zero_node_def)
  have len: "length (fs_nodes fs_blank) = 64" "length (fs_fd_table fs_blank) = 16"
    by (simp_all add: fs_blank_def del: replicate.simps)
  have "fs_fd_table fs_blank ! i = free_fd_entry" if "i < 16" for i
    using that by (simp add: fs_blank_def del: replicate.simps)
  then have "\<forall>i < 16. fd_wf (fs_fd_table fs_blank ! i)"
    by (simp add: fd_wf_def free_fd_entry_def)
  with wf len show "fs_shape fs_blank"
    unfolding fs_shape_def by (simp add: fs_blank_def del: replicate.simps)
  have no: "\<not> entry_of fs_blank d i" for d i
    using used by (auto simp: entry_of_def)
  have "fs_nodes fs_blank ! 0 = root_node" "current_dir fs_blank = 0"
    by (simp_all add: fs_blank_def)
  then show "fs_tree fs_blank"
    unfolding fs_tree_def using no used
    by (auto simp: is_dir_def root_node_def)
qed

text \<open>The states \<open>fs_init\<close> goes through: the used nodes fill the front of the table, all in the
  root directory.\<close>

definition boot_fs :: "fs_node list \<Rightarrow> fs" where
  "boot_fs ns = fs_blank\<lparr>fs_nodes := ns @ replicate (64 - length ns) zero_node\<rparr>"

definition boot_nodes :: "fs_node list \<Rightarrow> bool" where
  "boot_nodes ns \<longleftrightarrow> 1 \<le> length ns \<and> length ns < 64 \<and> (\<forall>n \<in> set ns. in_use n)"

lemma fs_blank_boot: "fs_blank = boot_fs [root_node]"
  by (simp add: boot_fs_def fs_blank_def)

lemma boot_fs_simps [simp]:
  "current_dir (boot_fs ns) = 0"
  "k < length ns \<Longrightarrow> fs_nodes (boot_fs ns) ! k = ns ! k"
  "length ns \<le> k \<Longrightarrow> k < 64 \<Longrightarrow> fs_nodes (boot_fs ns) ! k = zero_node"
  "length ns < 64 \<Longrightarrow> set_node (length ns) n (boot_fs ns) = boot_fs (ns @ [n])"
  "k < length ns \<Longrightarrow> set_node k n (boot_fs ns) = boot_fs (ns[k := n])"
proof -
  show "set_node (length ns) n (boot_fs ns) = boot_fs (ns @ [n])" if "length ns < 64"
  proof -
    from that have "64 - length ns = Suc (63 - length ns)" by simp
    then have "(ns @ replicate (64 - length ns) zero_node)[length ns := n]
        = (ns @ [n]) @ replicate (64 - length (ns @ [n])) zero_node"
      by simp
    then show ?thesis by (simp add: set_node_def boot_fs_def)
  qed
qed (simp_all add: boot_fs_def set_node_def fs_blank_def nth_append list_update_append)

lemma boot_free: "boot_nodes ns \<Longrightarrow> find_free_node (boot_fs ns) = Some (length ns)"
  by (auto simp: find_free_node_def first_from_Some_iff boot_nodes_def zero_node_def)

lemma boot_find_None:
  assumes "\<forall>n \<in> set ns. cstr (name n) \<noteq> cstr nm"
  shows "find_node nm (boot_fs ns) = None"
  unfolding find_node_def first_from_None_iff
proof (intro allI impI)
  fix j :: nat assume "0 \<le> j \<and> j < 64"
  with assms show "\<not> (in_use (fs_nodes (boot_fs ns) ! j)
    \<and> strcmp (name (fs_nodes (boot_fs ns) ! j)) nm = 0
    \<and> parent (fs_nodes (boot_fs ns) ! j) = int (current_dir (boot_fs ns)))"
    by (cases "j < length ns") (auto simp: strcmp_eq_0 zero_node_def)
qed

lemma boot_find_last:
  assumes "\<forall>n \<in> set ns. cstr (name n) \<noteq> cstr nm" "length ns < 64"
    and "in_use m" "cstr (name m) = cstr nm" "parent m = 0"
  shows "find_node nm (boot_fs (ns @ [m])) = Some (length ns)"
proof -
  have "fs_nodes (boot_fs (ns @ [m])) ! j = ns ! j" if "j < length ns" for j
    using that by (simp add: nth_append)
  then show ?thesis
    using assms by (auto simp: find_node_def first_from_Some_iff strcmp_eq_0)
qed

lemma boot_mkdir:
  assumes "fs_shape (boot_fs ns)" "boot_nodes ns" "\<forall>n \<in> set ns. cstr (name n) \<noteq> cstr nm"
    and "length (cstr nm) < 32" "cstr nm \<noteq> []"
  shows "fs_mkdir now (Some nm) (boot_fs ns) =
    Some (boot_fs (ns @ [new_dir now nm 0 zero_node]), Inr 0)"
  using assms by (simp add: fs_mkdir_eq boot_find_None boot_free boot_nodes_def)

definition with_text :: "u8 list \<Rightarrow> fs_node \<Rightarrow> fs_node" where
  "with_text t n = n\<lparr>data := (overwrite (data n) 0 (length t) t)[length t := 0],
     node_size := of_nat (length t)\<rparr>"

lemma boot_file:
  assumes "fs_shape (boot_fs ns)" "boot_nodes ns" "\<forall>n \<in> set ns. cstr (name n) \<noteq> cstr nm"
    and "length (cstr nm) < 32" "cstr nm \<noteq> []" "length t < 4096"
    and "fs_shape (boot_fs (ns @ [new_file now nm 0 zero_node]))"
  shows "do { (s, _) \<leftarrow> fs_create_file now (Some nm) (boot_fs ns);
              fs_write_file nm t (of_nat (length t)) s } =
    Some (boot_fs (ns @ [with_text t (new_file now nm 0 zero_node)]), Inr (length t))"
proof -
  let ?f = "new_file now nm 0 zero_node"
  have len: "length ns < 64" using assms(2) by (simp add: boot_nodes_def)
  have k: "write_file_len (of_nat (length t)) = length t"
    using assms(6) by (simp add: write_file_len_def)
  have f: "fs_nodes (boot_fs (ns @ [?f])) ! length ns = ?f"
    by simp
  have "find_node nm (boot_fs (ns @ [?f])) = Some (length ns)"
    using assms len by (intro boot_find_last) (simp_all add: new_file_def)
  then have "fs_write_file nm t (of_nat (length t)) (boot_fs (ns @ [?f]))
      = Some (boot_fs (ns @ [with_text t ?f]), Inr (length t))"
    using fs_write_file_eq [OF assms(7), of "of_nat (length t)" t nm] k f
    by (simp add: Let_def with_text_def new_file_def)
  moreover have "fs_create_file now (Some nm) (boot_fs ns) = Some (boot_fs (ns @ [?f]), Inr 0)"
    using assms by (simp add: fs_create_file_eq boot_find_None boot_free boot_nodes_def)
  ultimately show ?thesis by simp
qed

lemma zero_node_wf: "node_wf zero_node" "node_wf root_node"
  by (simp_all add: node_wf_def zero_node_def root_node_def)

lemma boot_shape:
  assumes "\<forall>n \<in> set ns. node_wf n" "length ns \<le> 64"
  shows "fs_shape (boot_fs ns)"
proof -
  have "node_wf (fs_nodes (boot_fs ns) ! i)" if "i < 64" for i
    using assms that zero_node_wf by (cases "i < length ns") simp_all
  moreover have "fs_shape fs_blank" by (simp add: fs_blank_inv)
  ultimately show ?thesis
    using assms(2) by (auto simp: fs_shape_def boot_fs_def)
qed

lemma boot_inv:
  assumes "ns = root_node # ms" "\<forall>n \<in> set ms. node_wf n \<and> in_use n \<and> parent n = 0
      \<and> node_type n \<in> {FS_TYPE_FILE, FS_TYPE_DIR} \<and> cstr (name n) \<noteq> []"
    and "length ns \<le> 64" "distinct (map (\<lambda>n. cstr (name n)) ms)"
  shows "fs_inv (boot_fs ns)"
proof (rule fs_invI)
  show "fs_shape (boot_fs ns)"
    using assms zero_node_wf by (intro boot_shape) auto
  have root: "fs_nodes (boot_fs ns) ! 0 = root_node" using assms(1) by simp
  have ms: "fs_nodes (boot_fs ns) ! i \<in> set ms" "fs_nodes (boot_fs ns) ! i = ms ! (i - 1)" "i - 1 < length ms"
    if "i < 64" "i \<noteq> 0" "in_use (fs_nodes (boot_fs ns) ! i)" for i
  proof -
    have "i < length ns"
    proof (rule ccontr)
      assume "\<not> i < length ns"
      with that show False by (simp add: zero_node_def)
    qed
    with that assms(1) show "fs_nodes (boot_fs ns) ! i \<in> set ms"
      "fs_nodes (boot_fs ns) ! i = ms ! (i - 1)" "i - 1 < length ms"
      by (cases i; simp)+
  qed
  have root_dir: "is_dir (boot_fs ns) 0"
    by (simp add: is_dir_def root) (simp add: root_node_def)
  have ent: "d = 0 \<and> i < 64 \<and> i \<noteq> 0 \<and> in_use (fs_nodes (boot_fs ns) ! i)" if "entry_of (boot_fs ns) d i" for d i
    using that ms(1) [of i] assms(2) by (auto simp: entry_of_def)
  have "i = j" if "entry_of (boot_fs ns) d i" "entry_of (boot_fs ns) d j"
    "cstr (name (fs_nodes (boot_fs ns) ! i)) = cstr (name (fs_nodes (boot_fs ns) ! j))" for d i j
  proof -
    have *: "i - 1 = j - 1" "0 < i" "0 < j"
      using that(3) ent [OF that(1)] ent [OF that(2)] ms(2,3) [of i] ms(2,3) [of j] assms(4)
      by (auto simp: distinct_conv_nth)
    then show ?thesis by linarith
  qed
  moreover have "\<exists>rank :: nat \<Rightarrow> nat. \<forall>d i. entry_of (boot_fs ns) d i \<longrightarrow> rank d < rank i"
  proof (intro exI allI impI)
    show "d < i" if "entry_of (boot_fs ns) d i" for d i
      using ent [OF that] by simp
  qed
  ultimately show "fs_tree (boot_fs ns)"
    unfolding fs_tree_def using root_dir root ms(1) assms(2)
    by (auto simp: root_node_def)
qed

section \<open>The calls as one transition system\<close>

datatype fs_call =
    Mkdir "u8 list option" | CreateFile "u8 list option" | WriteFile "u8 list" "u8 list" u32
  | ReadFile "u8 list" "u8 list" u32 | ListDir "u8 list" nat | Delete "u8 list" | Cd "u8 list"
  | Open "u8 list option" u32 | Close int | ReadFd int "u8 list option" u32
  | WriteFd int "u8 list option" u32 | Lseek int int int | Unlink "u8 list" | Rmdir "u8 list"
  | Getcwd "u8 list option" u32

text \<open>The state a call leaves, \<open>None\<close> when it accesses something outside an array.\<close>

fun fs_exec :: "u32 \<Rightarrow> fs_call \<Rightarrow> fs \<Rightarrow> fs option" where
  "fs_exec now (Mkdir nmp) s = map_option fst (fs_mkdir now nmp s)"
| "fs_exec now (CreateFile nmp) s = map_option fst (fs_create_file now nmp s)"
| "fs_exec now (WriteFile nm src len) s = map_option fst (fs_write_file nm src len s)"
| "fs_exec now (ReadFile nm buf len) s = map_option (\<lambda>_. s) (fs_read_file nm buf len s)"
| "fs_exec now (ListDir buf len) s = map_option (\<lambda>_. s) (fs_list buf len s)"
| "fs_exec now (Delete nm) s = Some (fst (fs_delete nm s))"
| "fs_exec now (Cd nm) s = Some (fst (fs_cd nm s))"
| "fs_exec now (Open nmp flgs) s = map_option fst (fs_open now nmp flgs s)"
| "fs_exec now (Close fd) s = Some (fst (fs_close fd s))"
| "fs_exec now (ReadFd fd bufp len) s = map_option fst (fs_read_fd fd bufp len s)"
| "fs_exec now (WriteFd fd bufp len) s = map_option fst (fs_write_fd fd bufp len s)"
| "fs_exec now (Lseek fd off whence) s = map_option fst (fs_lseek fd off whence s)"
| "fs_exec now (Unlink nm) s = Some (fst (fs_unlink nm s))"
| "fs_exec now (Rmdir nm) s = Some (fst (fs_rmdir nm s))"
| "fs_exec now (Getcwd bufp len) s = map_option (\<lambda>_. s) (fs_getcwd bufp len s)"

text \<open>What the caller owes: a buffer as long as the length passed with it, a positive length where
  a NUL is stored, and an \<open>lseek\<close> offset that leaves room for the addition in C's \<open>int\<close>.\<close>

fun call_ok :: "fs_call \<Rightarrow> bool" where
  "call_ok (WriteFile nm src len) \<longleftrightarrow> unat len \<le> length src"
| "call_ok (ReadFile nm buf len) \<longleftrightarrow> 0 < len \<and> unat len \<le> length buf"
| "call_ok (ListDir buf len) \<longleftrightarrow> 0 < len \<and> len \<le> length buf"
| "call_ok (ReadFd fd bufp len) \<longleftrightarrow> (case bufp of None \<Rightarrow> True | Some b \<Rightarrow> unat len \<le> length b)"
| "call_ok (WriteFd fd bufp len) \<longleftrightarrow> (case bufp of None \<Rightarrow> True | Some b \<Rightarrow> unat len \<le> length b)"
| "call_ok (Lseek fd off whence) \<longleftrightarrow> - 2147483648 \<le> off \<and> off < 2147479553"
| "call_ok (Getcwd bufp len) \<longleftrightarrow> (case bufp of None \<Rightarrow> True | Some b \<Rightarrow> unat len \<le> length b)"
| "call_ok _ \<longleftrightarrow> True"

lemma fs_exec_safe:
  assumes "fs_inv s" "call_ok c"
  shows "\<exists>s'. fs_exec now c s = Some s' \<and> fs_inv s'"
proof (cases c)
  case (WriteFile nm src len)
  with assms have "write_file_len len \<le> length src" by (simp add: write_file_len_def)
  with WriteFile assms fs_write_file_inv [OF assms(1) this, of nm] show ?thesis by auto
next
  case (ReadFile nm buf len)
  with assms fs_read_file_eq [of s len buf nm] show ?thesis
    by (auto simp: Let_def split: option.split)
next
  case (ListDir buf len)
  with assms fs_list_eq [of s len buf] show ?thesis by simp
next
  case (ReadFd fd bufp len)
  with assms fs_read_fd_inv [of s bufp len fd] show ?thesis by (cases bufp) auto
next
  case (WriteFd fd bufp len)
  with assms fs_write_fd_inv [of s bufp len fd] show ?thesis by (cases bufp) auto
next
  case (Lseek fd off whence)
  with assms fs_lseek_inv [of s off fd whence] show ?thesis by auto
next
  case (Getcwd bufp len)
  with assms show ?thesis
    by (cases bufp; cases "len = 0") (auto simp: fs_getcwd_eq fs_getcwd_def [of None] fs_getcwd_def [of _ 0])
next
  case (Mkdir nmp)
  with assms fs_mkdir_inv [of s now nmp] show ?thesis by auto
next
  case (CreateFile nmp)
  with assms fs_create_file_inv [of s now nmp] show ?thesis by auto
next
  case (Open nmp flgs)
  with assms fs_open_inv [of s now nmp flgs] show ?thesis by auto
qed (use assms in \<open>simp_all add: fs_delete_inv fs_cd_inv fs_close_inv fs_unlink_inv fs_rmdir_inv\<close>)

inductive fs_reachable :: "fs \<Rightarrow> bool" where
  reach_init: "length version < 4085 \<Longrightarrow> 0 \<notin> set version \<Longrightarrow> fs_init now version = Some s \<Longrightarrow>
    fs_reachable s"
| reach_call: "fs_reachable s \<Longrightarrow> call_ok c \<Longrightarrow> fs_exec now c s = Some s' \<Longrightarrow> fs_reachable s'"

text \<open>The node table \<open>fs_init\<close> leaves: the root, four directories and three files.\<close>

definition init_text :: "u8 list \<Rightarrow> u8 list" where
  "init_text version = bytes ''MyMisu OS '' @ version"

definition init_file :: "u32 \<Rightarrow> string \<Rightarrow> u8 list \<Rightarrow> fs_node" where
  "init_file now nm t = with_text t (new_file now (bytes nm) 0 zero_node)"

definition init_dirs :: "u32 \<Rightarrow> fs_node list" where
  "init_dirs now = root_node # map (\<lambda>nm. new_dir now (bytes nm) 0 zero_node)
     [''home'', ''bin'', ''etc'', ''tmp'']"

definition init_nodes :: "u32 \<Rightarrow> u8 list \<Rightarrow> fs_node list" where
  "init_nodes now version = init_dirs now @
     [init_file now ''readme.txt'' welcome_text, init_file now ''hostname'' (bytes ''misu-pc''),
      init_file now ''version'' (init_text version)]"

lemma cstr_bytes [simp]: "CHR 0x00 \<notin> set w \<Longrightarrow> cstr (bytes w) = bytes w"
  by (rule cstr_id) (auto simp: bytes_def)

lemma cstr_names [simp]:
  "cstr (name (new_dir now nm p n)) = cstr nm" "cstr (name (new_file now nm p n)) = cstr nm"
  "cstr (name (with_text t n)) = cstr (name n)" "cstr (name root_node) = bytes ''/''"
  by (simp_all add: new_dir_def new_file_def with_text_def root_node_def cstr_append byte_def of_char_def)

lemma init_dirs_mkdir:
  "do { (s1, _) \<leftarrow> fs_mkdir now (Some (bytes ''home'')) fs_blank;
        (s2, _) \<leftarrow> fs_mkdir now (Some (bytes ''bin'')) s1;
        (s3, _) \<leftarrow> fs_mkdir now (Some (bytes ''etc'')) s2;
        fs_mkdir now (Some (bytes ''tmp'')) s3 } = Some (boot_fs (init_dirs now), Inr 0)"
proof -
  have "fs_shape (boot_fs (root_node # map (\<lambda>nm. new_dir now (bytes nm) 0 zero_node) nms))"
    if "length nms < 64" "\<forall>nm \<in> set nms. length nm < 32 \<and> CHR 0x00 \<notin> set nm" for nms
    using that zero_node_wf by (intro boot_shape) (auto intro!: new_node_wf)
  from this [of "[]"] this [of "[''home'']"] this [of "[''home'', ''bin'']"]
    this [of "[''home'', ''bin'', ''etc'']"]
  show ?thesis
    unfolding fs_blank_boot
    by (simp add: boot_mkdir boot_nodes_def root_node_def new_dir_def init_dirs_def)
qed

lemma init_node_wf:
  "length t < 4096 \<Longrightarrow> node_wf n \<Longrightarrow> node_wf (with_text t n)"
  "length t < 4096 \<Longrightarrow> length nm < 32 \<Longrightarrow> CHR 0x00 \<notin> set nm \<Longrightarrow> node_wf (init_file now nm t)"
proof -
  show wf: "length t < 4096 \<Longrightarrow> node_wf n \<Longrightarrow> node_wf (with_text t n)" for n
    by (simp add: with_text_def node_wf_def)
  show "length t < 4096 \<Longrightarrow> length nm < 32 \<Longrightarrow> CHR 0x00 \<notin> set nm \<Longrightarrow> node_wf (init_file now nm t)"
    using zero_node_wf by (simp add: init_file_def wf new_node_wf)
qed

lemma init_dirs_props:
  "length (init_dirs now) = 5" "\<forall>n \<in> set (init_dirs now). in_use n \<and> node_wf n"
  "map (\<lambda>n. cstr (name n)) (init_dirs now) = map bytes [''/'', ''home'', ''bin'', ''etc'', ''tmp'']"
proof -
  have wf: "node_wf (new_dir now (bytes nm) 0 zero_node)" if "length nm < 32" "CHR 0x00 \<notin> set nm" for nm
    using that zero_node_wf by (intro new_node_wf) simp_all
  have use: "in_use (new_dir now nm p n)" "in_use root_node" for nm p n
    by (simp_all add: new_dir_def root_node_def)
  show "length (init_dirs now) = 5" "\<forall>n \<in> set (init_dirs now). in_use n \<and> node_wf n"
    "map (\<lambda>n. cstr (name n)) (init_dirs now) = map bytes [''/'', ''home'', ''bin'', ''etc'', ''tmp'']"
    by (simp_all add: init_dirs_def wf use zero_node_wf del: bytes_simps)
qed

text \<open>One file of the initial tree, in the form \<open>fs_init\<close> has it.\<close>

lemma boot_init_file:
  assumes "\<forall>n \<in> set ns. in_use n \<and> node_wf n" "1 \<le> length ns" "length ns < 63"
    and "bytes nm \<notin> set (map (\<lambda>n. cstr (name n)) ns)" "nm \<noteq> []"
    and "length nm < 32" "CHR 0x00 \<notin> set nm" "length t < 4096"
  shows "\<exists>r. fs_create_file now (Some (bytes nm)) (boot_fs ns) = Some r \<and>
    fs_write_file (bytes nm) t (of_nat (length t)) (fst r) =
      Some (boot_fs (ns @ [init_file now nm t]), Inr (length t))"
proof -
  have wf: "node_wf (new_file now (bytes nm) 0 zero_node)"
    using assms zero_node_wf by (intro new_node_wf) simp_all
  have "do { (s, _) \<leftarrow> fs_create_file now (Some (bytes nm)) (boot_fs ns);
      fs_write_file (bytes nm) t (of_nat (length t)) s } =
    Some (boot_fs (ns @ [with_text t (new_file now (bytes nm) 0 zero_node)]), Inr (length t))"
    using assms wf bytes_inject [of nm "[]"]
    by (intro boot_file boot_shape) (auto simp: boot_nodes_def image_iff simp del: bytes_inject)
  then show ?thesis by (auto simp: bind_eq_Some_conv init_file_def)
qed

lemma fs_init_eq:
  assumes "length version < 4085" "0 \<notin> set version"
  shows "fs_init now version = Some (boot_fs (init_nodes now version))"
proof -
  note d = init_dirs_props [of now]
  define f1 where "f1 = init_file now ''readme.txt'' welcome_text"
  define f2 where "f2 = init_file now ''hostname'' (bytes ''misu-pc'')"
  have wl: "strlen welcome_text = length welcome_text" "length welcome_text < 4096"
    by (simp_all add: welcome_text_def strlen_eq cstr_append cstr_id)
  have vl: "strlen (init_text version) = length (init_text version)" "length (init_text version) < 4096"
    using assms by (auto simp: init_text_def strlen_eq cstr_append cstr_id)
  have wf: "node_wf f1" "node_wf f2"
    using wl(2) by (simp_all add: f1_def f2_def init_node_wf)
  have wf: "node_wf f1" "node_wf f2" "in_use f1" "in_use f2"
    using wf by (simp_all add: f1_def f2_def init_file_def with_text_def new_file_def)
  have nm: "cstr (name f1) = bytes ''readme.txt''" "cstr (name f2) = bytes ''hostname''"
    by (simp_all add: f1_def f2_def init_file_def)
  obtain r1 where r1: "fs_create_file now (Some (bytes ''readme.txt'')) (boot_fs (init_dirs now)) = Some r1"
    "fs_write_file (bytes ''readme.txt'') welcome_text (of_nat (length welcome_text)) (fst r1)
      = Some (boot_fs (init_dirs now @ [f1]), Inr (length welcome_text))"
    using boot_init_file [of "init_dirs now" "''readme.txt''" welcome_text now] d wl(2)
    unfolding f1_def by fastforce
  obtain r2 where r2: "fs_create_file now (Some (bytes ''hostname'')) (boot_fs (init_dirs now @ [f1])) = Some r2"
    "fs_write_file (bytes ''hostname'') (bytes ''misu-pc'') (of_nat (length (bytes ''misu-pc''))) (fst r2)
      = Some (boot_fs ((init_dirs now @ [f1]) @ [f2]), Inr (length (bytes ''misu-pc'')))"
    using boot_init_file [of "init_dirs now @ [f1]" "''hostname''" "bytes ''misu-pc''" now] d wf nm
    unfolding f2_def by fastforce
  obtain r3 where r3: "fs_create_file now (Some (bytes ''version'')) (boot_fs ((init_dirs now @ [f1]) @ [f2])) = Some r3"
    "fs_write_file (bytes ''version'') (init_text version) (of_nat (length (init_text version))) (fst r3)
      = Some (boot_fs (((init_dirs now @ [f1]) @ [f2]) @ [init_file now ''version'' (init_text version)]),
         Inr (length (init_text version)))"
    using boot_init_file [of "(init_dirs now @ [f1]) @ [f2]" "''version''" "init_text version" now] d wf nm vl
    by fastforce
  have "(7 :: u32) = of_nat (length (bytes ''misu-pc''))" by simp
  moreover have "fs_init now version = do {
     (s4, _) \<leftarrow> do { (s1, _) \<leftarrow> fs_mkdir now (Some (bytes ''home'')) fs_blank;
        (s2, _) \<leftarrow> fs_mkdir now (Some (bytes ''bin'')) s1;
        (s3, _) \<leftarrow> fs_mkdir now (Some (bytes ''etc'')) s2;
        fs_mkdir now (Some (bytes ''tmp'')) s3 };
     (s5, _) \<leftarrow> fs_create_file now (Some (bytes ''readme.txt'')) s4;
     (s6, _) \<leftarrow> fs_write_file (bytes ''readme.txt'') welcome_text (of_nat (strlen welcome_text)) s5;
     (s7, _) \<leftarrow> fs_create_file now (Some (bytes ''hostname'')) s6;
     (s8, _) \<leftarrow> fs_write_file (bytes ''hostname'') (bytes ''misu-pc'') 7 s7;
     (s9, _) \<leftarrow> fs_create_file now (Some (bytes ''version'')) s8;
     (s10, _) \<leftarrow> fs_write_file (bytes ''version'') (init_text version)
        (of_nat (strlen (init_text version))) s9;
     Some s10
   }"
    unfolding fs_init_def init_text_def split_beta bind_assoc ..
  ultimately show ?thesis
    unfolding init_dirs_mkdir
    by (simp only: Option.bind.simps prod.case split_beta fst_conv r1 r2 r3 wl(1) vl(1))
      (simp add: init_nodes_def f1_def f2_def)
qed

end
