(* ===== verification/FsSpec.thy ===== *)
theory FsSpec
  imports FsProps
begin

text \<open>
  What the filesystem promises. Its abstract state has two parts: \<open>links\<close>, which maps a directory
  and a name to a node, and \<open>content\<close>, the bytes of a file. Each call is shown to act on them as a
  map update or a splice; the invariant and memory safety hold in every reachable state.
\<close>

definition content :: "fs_node \<Rightarrow> u8 list" where
  "content n = take (unat (node_size n)) (data n)"

definition links :: "fs \<Rightarrow> nat \<times> u8 list \<Rightarrow> nat option" where
  "links s = (\<lambda>(d, nm). if 0 \<in> set nm then None else find_node nm (s\<lparr>current_dir := d\<rparr>))"

lemma content_with_text:
  assumes "length t < 4096" "node_wf n"
  shows "content (with_text t n) = t"
  using assms by (simp add: content_def with_text_def overwrite_def node_wf_def)

lemma new_file_zero_wf: "length nm < 32 \<Longrightarrow> CHR 0x00 \<notin> set nm \<Longrightarrow>
    node_wf (new_file now (bytes nm) 0 zero_node)"
  using zero_node_wf by (intro new_node_wf) simp_all

lemma init_node_simps:
  "node_type (init_file now nm t) = FS_TYPE_FILE" "in_use (init_file now nm t)"
  "parent (init_file now nm t) = 0" "cstr (name (init_file now nm t)) = cstr (bytes nm)"
  "length t < 4096 \<Longrightarrow> length nm < 32 \<Longrightarrow> CHR 0x00 \<notin> set nm \<Longrightarrow> content (init_file now nm t) = t"
  "node_type (new_dir now w 0 zero_node) = FS_TYPE_DIR" "in_use (new_dir now w 0 zero_node)"
  "parent (new_dir now w 0 zero_node) = 0" "content (new_dir now w 0 zero_node) = []"
  by (simp_all add: init_file_def content_with_text new_file_zero_wf)
    (simp_all add: with_text_def new_file_def new_dir_def content_def zero_node_def)

lemma visible_boot:
  assumes "length ns \<le> 64" "\<forall>n \<in> set ns. parent n = 0 \<longrightarrow> in_use n"
  shows "entries (boot_fs ns) = filter (\<lambda>n. parent n = 0) ns"
proof -
  let ?P = "\<lambda>i. in_use (fs_nodes (boot_fs ns) ! i) \<and> parent (fs_nodes (boot_fs ns) ! i) = int 0"
  have upto: "[0 ..< 64] = [0 ..< length ns] @ [length ns ..< 64]"
    using assms(1) by (metis le_add_diff_inverse upt_add_eq_append zero_le)
  have "filter ?P [length ns ..< 64] = []"
    by (simp add: filter_empty_conv zero_node_def)
  moreover have "filter ?P [0 ..< length ns] = filter (\<lambda>i. parent (ns ! i) = 0) [0 ..< length ns]"
    using assms(2) by (intro filter_cong) auto
  ultimately have "entries (boot_fs ns)
      = map (\<lambda>i. fs_nodes (boot_fs ns) ! i) (filter (\<lambda>i. parent (ns ! i) = 0) [0 ..< length ns])"
    by (simp add: entries_def visible_def upto del: upt_rec_numeral)
  also have "\<dots> = map (\<lambda>i. ns ! i) (filter (\<lambda>i. parent (ns ! i) = 0) [0 ..< length ns])"
    by (rule map_cong) auto
  also have "\<dots> = filter (\<lambda>n. parent n = 0) (map (\<lambda>i. ns ! i) [0 ..< length ns])"
    by (simp add: filter_map o_def)
  finally show ?thesis by (simp add: map_nth)
qed

lemma init_nodes_entries:
  assumes "length version < 4085" "0 \<notin> set version"
  shows "fs_inv (boot_fs (init_nodes now version))"
    and "map (\<lambda>n. (node_type n, cstr (name n), content n)) (entries (boot_fs (init_nodes now version))) =
      [(FS_TYPE_DIR, bytes ''home'', []), (FS_TYPE_DIR, bytes ''bin'', []),
       (FS_TYPE_DIR, bytes ''etc'', []), (FS_TYPE_DIR, bytes ''tmp'', []),
       (FS_TYPE_FILE, bytes ''readme.txt'', welcome_text),
       (FS_TYPE_FILE, bytes ''hostname'', bytes ''misu-pc''),
       (FS_TYPE_FILE, bytes ''version'', init_text version)]"
proof -
  have rp: "parent root_node = - 1" by (simp add: root_node_def)
  have wl: "length welcome_text < 4096" by (simp add: welcome_text_def)
  have vl: "length (init_text version) < 4096" using assms by (simp add: init_text_def)
  define ms where "ms = tl (init_nodes now version)"
  have ms: "ms = map (\<lambda>nm. new_dir now (bytes nm) 0 zero_node) [''home'', ''bin'', ''etc'', ''tmp'']
     @ [init_file now ''readme.txt'' welcome_text, init_file now ''hostname'' (bytes ''misu-pc''),
      init_file now ''version'' (init_text version)]"
    "init_nodes now version = root_node # ms"
    by (simp_all add: ms_def init_nodes_def init_dirs_def)
  have dirs: "node_wf (new_dir now (bytes nm) 0 zero_node)"
    if "length nm < 32" "CHR 0x00 \<notin> set nm" for nm
    using that zero_node_wf by (intro new_node_wf) simp_all
  have files: "node_wf (init_file now ''readme.txt'' welcome_text)"
    "node_wf (init_file now ''hostname'' (bytes ''misu-pc''))"
    "node_wf (init_file now ''version'' (init_text version))"
    using wl vl by (simp_all add: init_node_wf)
  show "fs_inv (boot_fs (init_nodes now version))"
    using dirs files by (intro boot_inv [OF ms(2)])
      (simp_all add: ms init_node_simps del: bytes_simps(1,2))
  have "entries (boot_fs (init_nodes now version)) = ms"
    using rp by (subst visible_boot) (simp_all add: ms init_node_simps del: bytes_simps(1,2))
  then show "map (\<lambda>n. (node_type n, cstr (name n), content n)) (entries (boot_fs (init_nodes now version))) =
      [(FS_TYPE_DIR, bytes ''home'', []), (FS_TYPE_DIR, bytes ''bin'', []),
       (FS_TYPE_DIR, bytes ''etc'', []), (FS_TYPE_DIR, bytes ''tmp'', []),
       (FS_TYPE_FILE, bytes ''readme.txt'', welcome_text),
       (FS_TYPE_FILE, bytes ''hostname'', bytes ''misu-pc''),
       (FS_TYPE_FILE, bytes ''version'', init_text version)]"
    using wl vl by (simp add: ms init_node_simps del: bytes_simps(1,2))
qed

section \<open>The links of a state\<close>

lemma option_eqI_Some: "(\<And>i. a = Some i \<longleftrightarrow> b = Some i) \<Longrightarrow> a = b"
  by (cases a; cases b) auto

lemma links_iff:
  assumes "fs_tree s"
  shows "links s (d, nm) = Some i \<longleftrightarrow>
    0 \<notin> set nm \<and> entry_of s d i \<and> cstr (name (fs_nodes s ! i)) = nm"
proof -
  have root: "parent (fs_nodes s ! 0) = - 1" using assms by (simp add: fs_tree_def)
  have key: "entry_of s d j \<longleftrightarrow> j < 64 \<and> in_use (fs_nodes s ! j) \<and> parent (fs_nodes s ! j) = int d" for j
  proof (cases "j = 0")
    case True
    with root show ?thesis by (simp add: entry_of_def)
  qed (simp add: entry_of_def)
  have uniq: "i = j" if "entry_of s d i" "entry_of s d j"
    "cstr (name (fs_nodes s ! i)) = cstr (name (fs_nodes s ! j))" for i j
    using that assms unfolding fs_tree_def by blast
  have "find_node nm (s\<lparr>current_dir := d\<rparr>) = Some i \<longleftrightarrow>
      entry_of s d i \<and> cstr (name (fs_nodes s ! i)) = cstr nm"
  proof
    assume *: "entry_of s d i \<and> cstr (name (fs_nodes s ! i)) = cstr nm"
    then have "find_node nm (s\<lparr>current_dir := d\<rparr>) \<noteq> None"
      by (auto simp: find_node_def first_from_None_iff strcmp_eq_0 entry_of_def)
    then obtain j where j: "find_node nm (s\<lparr>current_dir := d\<rparr>) = Some j" by auto
    from find_node_SomeD [OF j] have "entry_of s d j" "cstr (name (fs_nodes s ! j)) = cstr nm"
      by (simp_all add: key)
    with * uniq j show "find_node nm (s\<lparr>current_dir := d\<rparr>) = Some i" by metis
  qed (use find_node_SomeD [of nm "s\<lparr>current_dir := d\<rparr>" i] in \<open>simp add: key\<close>)
  then show ?thesis by (auto simp: links_def cstr_id)
qed

lemma links_cwd: "fs_tree s \<Longrightarrow> links s (current_dir s, cstr nm) = find_node nm s"
  by (rule option_eqI_Some) (simp add: links_iff find_node_iff)

lemma links_set_fd [simp]: "links (set_fd i f s) = links s"
  by (auto simp: links_def find_node_def split: prod.split)

lemma links_same_meta:
  assumes "\<And>i. node_meta (fs_nodes s' ! i) = node_meta (fs_nodes s ! i)"
  shows "links s' = links s"
proof -
  have eqs: "in_use (fs_nodes s' ! i) = in_use (fs_nodes s ! i)"
    "parent (fs_nodes s' ! i) = parent (fs_nodes s ! i)"
    "cstr (name (fs_nodes s' ! i)) = cstr (name (fs_nodes s ! i))" for i
    using assms [of i] by (simp_all add: node_meta_def)
  show ?thesis by (auto simp: links_def find_node_def strcmp_eq_0 eqs fun_eq_iff)
qed

lemma links_set_data [simp]:
  "links (set_node i ((fs_nodes s ! i)\<lparr>data := d, node_size := sz\<rparr>) s) = links s"
  by (rule links_same_meta)
    (cases "i < length (fs_nodes s)"; auto simp: nth_list_update node_meta_def list_update_beyond)

lemma links_add:
  assumes "fs_inv s" "find_node nm s = None" "find_free_node s = Some idx"
    and "in_use n" "parent n = int (current_dir s)" "cstr (name n) = cstr nm"
    and tree: "fs_tree (set_node idx n s)"
  shows "links (set_node idx n s) = (links s)((current_dir s, cstr nm) \<mapsto> idx)"
proof
  fix dn :: "nat \<times> u8 list"
  obtain d w where dn: "dn = (d, w)" by fastforce
  note free = find_free_node_SomeD [OF assms(3)]
  have nth: "(fs_nodes s)[idx := n] ! i = (if i = idx then n else fs_nodes s ! i)" for i
    using free assms(1) by (simp add: nth_list_update fs_shapeD)
  have old: "\<not> entry_of s d idx" using free by (simp add: entry_of_def)
  have ent: "entry_of (set_node idx n s) d i \<longleftrightarrow> (if i = idx then d = current_dir s else entry_of s d i)" for i
    using free assms by (auto simp: entry_of_def nth)
  have fresh: "cstr (name (fs_nodes s ! i)) \<noteq> cstr nm" if "entry_of s (current_dir s) i" for i
    using that assms(1,2) by (simp add: find_node_None_iff)
  show "links (set_node idx n s) dn = ((links s)((current_dir s, cstr nm) \<mapsto> idx)) dn"
  proof (rule option_eqI_Some)
    fix i
    show "links (set_node idx n s) dn = Some i \<longleftrightarrow>
        ((links s)((current_dir s, cstr nm) \<mapsto> idx)) dn = Some i"
      using assms(1,6) old fresh unfolding dn links_iff [OF tree]
      by (auto simp: links_iff ent nth)
  qed
qed

lemma links_remove:
  assumes "fs_inv s" "find_node nm s = Some idx"
    and tree: "fs_tree (set_node idx n s)" and n: "\<not> in_use n"
  shows "links (set_node idx n s) = (links s)((current_dir s, cstr nm) := None)"
proof
  fix dn :: "nat \<times> u8 list"
  obtain d w where dn: "dn = (d, w)" by fastforce
  note idx = find_node_entry [OF fs_inv_tree [OF assms(1)] assms(2)]
  have nth: "(fs_nodes s)[idx := n] ! i = (if i = idx then n else fs_nodes s ! i)" for i
    using idx assms(1) by (simp add: nth_list_update fs_shapeD)
  have ent: "entry_of (set_node idx n s) d i \<longleftrightarrow> i \<noteq> idx \<and> entry_of s d i" for i
    using n by (auto simp: entry_of_def nth)
  have only: "d = current_dir s" if "entry_of s d idx"
    using that idx(1) by (simp add: entry_of_def)
  have this_one: "entry_of s (current_dir s) i \<and> cstr (name (fs_nodes s ! i)) = cstr nm \<longleftrightarrow> i = idx" for i
    using find_node_iff [OF fs_inv_tree [OF assms(1)], of nm i] assms(2) by auto
  show "links (set_node idx n s) dn = ((links s)((current_dir s, cstr nm) := None)) dn"
  proof (rule option_eqI_Some)
    fix i
    show "links (set_node idx n s) dn = Some i \<longleftrightarrow>
        ((links s)((current_dir s, cstr nm) := None)) dn = Some i"
      using assms(1) only this_one [of i] unfolding dn links_iff [OF tree]
      by (auto simp: links_iff ent nth)
  qed
qed

section \<open>Safety\<close>

text \<open>\<open>fs_init\<close> never leaves its arrays and ends in a state that satisfies the invariant, whose
  root directory lists exactly the four directories and the three files, with their contents.\<close>

theorem fs_init_correct:
  assumes "length version < 4085" "0 \<notin> set version"
  shows "\<exists>s. fs_init now version = Some s \<and> fs_inv s \<and> current_dir s = 0
    \<and> map (\<lambda>n. (node_type n, cstr (name n), content n)) (entries s) =
      [(FS_TYPE_DIR, bytes ''home'', []), (FS_TYPE_DIR, bytes ''bin'', []),
       (FS_TYPE_DIR, bytes ''etc'', []), (FS_TYPE_DIR, bytes ''tmp'', []),
       (FS_TYPE_FILE, bytes ''readme.txt'', welcome_text),
       (FS_TYPE_FILE, bytes ''hostname'', bytes ''misu-pc''),
       (FS_TYPE_FILE, bytes ''version'', bytes ''MyMisu OS '' @ version)]"
  using init_nodes_entries [OF assms] fs_init_eq [OF assms]
  unfolding init_text_def [symmetric] by simp

theorem fs_init_correct_witness:
  "\<exists>s. fs_init 7 (bytes ''1.0'') = Some s \<and> fs_inv s \<and> length (entries s) = 7"
proof -
  have "length (bytes ''1.0'') < 4085" "0 \<notin> set (bytes ''1.0'')" by simp_all
  from fs_init_correct [OF this, of 7] obtain s where
    s: "fs_init 7 (bytes ''1.0'') = Some s" "fs_inv s" and
    "length (map (\<lambda>n. (node_type n, cstr (name n), content n)) (entries s)) = 7"
    by (auto simp del: length_map)
  then show ?thesis by auto
qed

lemma fs_reachable_inv: "fs_reachable s \<Longrightarrow> fs_inv s"
proof (induction rule: fs_reachable.induct)
  case (reach_init version now s)
  with init_nodes_entries(1) fs_init_eq show ?case by (metis option.inject)
next
  case (reach_call s c now s')
  with fs_exec_safe show ?case by (metis option.inject)
qed

text \<open>C3: memory safety of the filesystem: in every state that calls with honest buffer lengths can
  reach from boot, every such call stays inside its arrays and leaves the invariant: sizes below
  4096, descriptors that point at nodes, names that end, and an acyclic directory tree with
  distinct names under the current directory's root.\<close>

theorem fs_reachable_safe:
  assumes "fs_reachable s"
  shows "fs_inv s \<and> (\<forall>now c. call_ok c \<longrightarrow> (\<exists>s'. fs_exec now c s = Some s' \<and> fs_reachable s'))"
  using assms fs_reachable_inv fs_exec_safe reach_call by meson

lemma fs_reachable_example: "fs_reachable (boot_fs (init_nodes 0 (bytes ''1.0'')))"
proof (rule reach_init)
  show "length (bytes ''1.0'') < 4085" "0 \<notin> set (bytes ''1.0'')" by simp_all
  then show "fs_init 0 (bytes ''1.0'') = Some (boot_fs (init_nodes 0 (bytes ''1.0'')))"
    by (rule fs_init_eq)
qed

theorem fs_reachable_safe_witness:
  "\<exists>s. fs_exec 5 (Cd (bytes ''home'')) (boot_fs (init_nodes 0 (bytes ''1.0''))) = Some s \<and> fs_reachable s"
proof -
  have "call_ok (Cd (bytes ''home''))" by simp
  with fs_reachable_safe [OF fs_reachable_example] show ?thesis by blast
qed

section \<open>Creating and deleting\<close>

text \<open>The error of the two creating calls, and their effect when there is none.\<close>

definition create_error :: "fs \<Rightarrow> u8 list \<Rightarrow> errno option" where
  "create_error s nm =
     (if cstr nm = [] then Some EINVAL
      else if 32 \<le> length (cstr nm) then Some ENAMETOOLONG
      else if links s (current_dir s, cstr nm) \<noteq> None then Some EEXIST
      else if \<forall>i. 1 \<le> i \<and> i < 64 \<longrightarrow> in_use (fs_nodes s ! i) then Some ENOSPC
      else None)"

definition created :: "fs \<Rightarrow> u8 list \<Rightarrow> u8 \<Rightarrow> u32 \<Rightarrow> fs \<Rightarrow> bool" where
  "created s nm ty now s' \<longleftrightarrow>
     (\<exists>i. i < 64 \<and> \<not> in_use (fs_nodes s ! i)
       \<and> links s' = (links s)((current_dir s, cstr nm) \<mapsto> i)
       \<and> node_type (fs_nodes s' ! i) = ty \<and> content (fs_nodes s' ! i) = []
       \<and> created_tick (fs_nodes s' ! i) = now
       \<and> (\<forall>j. j \<noteq> i \<longrightarrow> fs_nodes s' ! j = fs_nodes s ! j)
       \<and> fs_fd_table s' = fs_fd_table s \<and> current_dir s' = current_dir s)"

lemma create_error_None_iff:
  assumes "fs_inv s"
  shows "create_error s nm = None \<longleftrightarrow> cstr nm \<noteq> [] \<and> length (cstr nm) < 32 \<and> find_node nm s = None
    \<and> (\<exists>i. find_free_node s = Some i)"
  using assms by (auto simp: create_error_def links_cwd find_free_node_def first_from_None_iff
    simp flip: not_None_eq)

lemma created_new:
  assumes "fs_inv s" "find_node nm s = None" "find_free_node s = Some idx"
    and "length (cstr nm) < 32" "cstr nm \<noteq> []"
  shows "created s nm FS_TYPE_DIR now (set_node idx (new_dir now nm (current_dir s) (fs_nodes s ! idx)) s)"
    and "created s nm FS_TYPE_FILE now (set_node idx (new_file now nm (current_dir s) (fs_nodes s ! idx)) s)"
proof -
  note free = find_free_node_SomeD [OF assms(3)]
  have key: "created s nm (node_type n) now (set_node idx n s)"
    if "fs_inv (set_node idx n s)" "in_use n" "parent n = int (current_dir s)" "cstr (name n) = cstr nm"
      "node_size n = 0" "created_tick n = now" for n
    unfolding created_def
  proof (intro exI [of _ idx] conjI)
    show "links (set_node idx n s) = (links s)((current_dir s, cstr nm) \<mapsto> idx)"
      using that assms by (intro links_add) simp_all
  qed (use that free assms(1) in \<open>simp_all add: fs_shapeD content_def\<close>)
  show "created s nm FS_TYPE_DIR now (set_node idx (new_dir now nm (current_dir s) (fs_nodes s ! idx)) s)"
    using key [OF add_node_inv(1) [OF assms, of now]] by (simp add: new_dir_def)
  show "created s nm FS_TYPE_FILE now (set_node idx (new_file now nm (current_dir s) (fs_nodes s ! idx)) s)"
    using key [OF add_node_inv(2) [OF assms, of now]] by (simp add: new_file_def)
qed

text \<open>C20: \<open>fs_mkdir\<close> on every branch. It fails, leaving the state as it was, exactly for an
  empty name, a name of 32 characters or more, a name that exists and a full table, tested in
  this order; otherwise it adds one link, to an unused node that becomes an empty directory, and
  changes no other node, no descriptor and no other link.\<close>

theorem fs_mkdir_correct:
  assumes "fs_inv s"
  shows "\<exists>s' r. fs_mkdir now (Some nm) s = Some (s', r) \<and>
    (case create_error s nm of
       Some e \<Rightarrow> r = Inl e \<and> s' = s
     | None \<Rightarrow> r = Inr 0 \<and> created s nm FS_TYPE_DIR now s')"
proof (cases "create_error s nm")
  case None
  then obtain i where "cstr nm \<noteq> []" "length (cstr nm) < 32" "find_node nm s = None"
    "find_free_node s = Some i"
    using assms by (auto simp: create_error_None_iff)
  with created_new(1) [OF assms this(3,4,2,1)] assms show ?thesis
    by (simp add: None fs_mkdir_eq)
next
  case (Some e)
  with assms show ?thesis
    by (auto simp: create_error_def links_cwd fs_mkdir_eq find_free_node_def
      first_from_None_iff split: if_splits option.splits)
qed

text \<open>A state of the table for examples: the root holds the file \<open>a\<close> with contents \<open>xyz\<close>.\<close>

definition one_file :: fs where
  "one_file = boot_fs [root_node, init_file 0 ''a'' (bytes ''xyz'')]"

lemma one_file_inv: "fs_inv one_file" "boot_nodes [root_node, init_file 0 ''a'' (bytes ''xyz'')]"
proof -
  have "node_wf (init_file 0 ''a'' (bytes ''xyz''))" by (intro init_node_wf) simp_all
  then show "fs_inv one_file"
    unfolding one_file_def by (intro boot_inv [OF refl]) (simp_all add: init_node_simps)
qed (simp add: boot_nodes_def init_node_simps, simp add: root_node_def)

lemma one_file_find:
  "find_node (bytes ''a'') one_file = Some 1"
  "nm \<noteq> ''a'' \<Longrightarrow> nm \<noteq> ''/'' \<Longrightarrow> CHR 0x00 \<notin> set nm \<Longrightarrow> find_node (bytes nm) one_file = None"
  "find_free_node one_file = Some 2"
proof -
  have "find_node (bytes ''a'') (boot_fs ([root_node] @ [init_file 0 ''a'' (bytes ''xyz'')])) = Some (length [root_node])"
    by (rule boot_find_last) (simp_all add: init_node_simps del: bytes_simps(1,2))
  then show "find_node (bytes ''a'') one_file = Some 1" by (simp add: one_file_def)
  show "nm \<noteq> ''a'' \<Longrightarrow> nm \<noteq> ''/'' \<Longrightarrow> CHR 0x00 \<notin> set nm \<Longrightarrow> find_node (bytes nm) one_file = None"
    unfolding one_file_def by (rule boot_find_None) (auto simp: init_node_simps simp del: bytes_simps(1,2))
  show "find_free_node one_file = Some 2"
    using boot_free [OF one_file_inv(2)] by (simp add: one_file_def)
qed

lemma one_file_simps [simp]: "current_dir one_file = 0" "fs_shape one_file"
  using one_file_inv by (simp_all add: one_file_def)

lemma one_file_create_error: "create_error one_file (bytes ''b'') = None"
  using one_file_inv one_file_find by (simp add: create_error_None_iff del: bytes_simps(1,2))

theorem fs_mkdir_correct_witness:
  "\<exists>s'. fs_mkdir 9 (Some (bytes ''b'')) one_file = Some (s', Inr 0)
    \<and> created one_file (bytes ''b'') FS_TYPE_DIR 9 s'"
  using fs_mkdir_correct [OF one_file_inv(1), of 9 "bytes ''b''"] one_file_create_error by auto

text \<open>\<open>fs_create_file\<close> on every branch: the errors of \<open>fs_mkdir\<close>, and on success one new link
  to a node that becomes an empty file.\<close>

theorem fs_create_file_correct:
  assumes "fs_inv s"
  shows "\<exists>s' r. fs_create_file now (Some nm) s = Some (s', r) \<and>
    (case create_error s nm of
       Some e \<Rightarrow> r = Inl e \<and> s' = s
     | None \<Rightarrow> r = Inr 0 \<and> created s nm FS_TYPE_FILE now s')"
proof (cases "create_error s nm")
  case None
  then obtain i where "cstr nm \<noteq> []" "length (cstr nm) < 32" "find_node nm s = None"
    "find_free_node s = Some i"
    using assms by (auto simp: create_error_None_iff)
  with created_new(2) [OF assms this(3,4,2,1)] assms show ?thesis
    by (simp add: None fs_create_file_eq)
next
  case (Some e)
  with assms show ?thesis
    by (auto simp: create_error_def links_cwd fs_create_file_eq find_free_node_def
      first_from_None_iff split: if_splits option.splits)
qed

theorem fs_create_file_correct_witness:
  "\<exists>s'. fs_create_file 9 (Some (bytes ''b'')) one_file = Some (s', Inr 0)
    \<and> created one_file (bytes ''b'') FS_TYPE_FILE 9 s'"
  using fs_create_file_correct [OF one_file_inv(1), of 9 "bytes ''b''"] one_file_create_error by auto

definition removed :: "fs \<Rightarrow> u8 list \<Rightarrow> fs \<Rightarrow> bool" where
  "removed s nm s' \<longleftrightarrow>
     (\<exists>i. links s (current_dir s, cstr nm) = Some i \<and> (\<forall>w. links s (i, w) = None)
       \<and> links s' = (links s)((current_dir s, cstr nm) := None)
       \<and> \<not> in_use (fs_nodes s' ! i) \<and> (\<forall>j. j \<noteq> i \<longrightarrow> fs_nodes s' ! j = fs_nodes s ! j)
       \<and> fs_fd_table s' = fs_fd_table s \<and> current_dir s' = current_dir s)"

lemma links_none_iff:
  assumes "fs_tree s"
  shows "(\<forall>w. links s (d, w) = None) \<longleftrightarrow> \<not> (\<exists>i. entry_of s d i)"
proof
  assume *: "\<forall>w. links s (d, w) = None"
  show "\<not> (\<exists>i. entry_of s d i)"
  proof
    assume "\<exists>i. entry_of s d i"
    then obtain i where "entry_of s d i" by blast
    then have "links s (d, cstr (name (fs_nodes s ! i))) = Some i"
      using assms by (simp add: links_iff)
    with * show False by simp
  qed
next
  assume "\<not> (\<exists>i. entry_of s d i)"
  then show "\<forall>w. links s (d, w) = None"
    using links_iff [OF assms] by (metis not_Some_eq)
qed

lemma removed_entry:
  assumes "fs_inv s" "find_node nm s = Some idx" "\<And>i. \<not> entry_of s idx i"
  shows "removed s nm (set_node idx ((fs_nodes s ! idx)\<lparr>in_use := False\<rparr>) s)"
  unfolding removed_def
proof (intro exI [of _ idx] conjI)
  show "links s (current_dir s, cstr nm) = Some idx"
    using assms by (simp add: links_cwd)
  show "\<forall>w. links s (idx, w) = None"
    using assms by (simp add: links_none_iff)
  show "links (set_node idx ((fs_nodes s ! idx)\<lparr>in_use := False\<rparr>) s)
      = (links s)((current_dir s, cstr nm) := None)"
    using remove_entry_inv [OF assms] assms(1,2) by (intro links_remove) simp_all
qed (use assms(1) find_node_SomeD(1) [OF assms(2)] in \<open>simp_all add: fs_shapeD\<close>)

text \<open>C21: \<open>fs_unlink\<close> on every branch: a missing name is ENOENT and a directory is EISDIR, without
  effect; otherwise the link goes, and nothing else changes but the node's \<open>in_use\<close>. No
  descriptor is closed.\<close>

theorem fs_unlink_correct:
  assumes "fs_inv s"
  shows "case links s (current_dir s, cstr nm) of
       None \<Rightarrow> fs_unlink nm s = (s, Inl ENOENT)
     | Some i \<Rightarrow>
         if node_type (fs_nodes s ! i) = FS_TYPE_FILE
         then \<exists>s'. fs_unlink nm s = (s', Inr 0) \<and> removed s nm s'
         else fs_unlink nm s = (s, Inl EISDIR)"
proof (cases "find_node nm s")
  case (Some idx)
  have "removed s nm (set_node idx ((fs_nodes s ! idx)\<lparr>in_use := False\<rparr>) s)"
    if "node_type (fs_nodes s ! idx) = FS_TYPE_FILE"
    using assms Some that by (intro removed_entry file_no_entries) simp_all
  with assms Some find_node_entry(2) [OF _ Some] show ?thesis
    by (auto simp: fs_unlink_def links_cwd)
qed (use assms in \<open>simp add: fs_unlink_def links_cwd\<close>)

lemma one_file_node: "fs_nodes one_file ! 1 = init_file 0 ''a'' (bytes ''xyz'')"
  "fs_nodes one_file ! Suc 0 = init_file 0 ''a'' (bytes ''xyz'')"
  by (simp_all add: one_file_def)

lemma one_file_links: "links one_file (0, bytes ''a'') = Some 1"
  using links_cwd [of one_file "bytes ''a''"] one_file_inv one_file_find(1)
  by (simp del: bytes_simps(1,2))

theorem fs_unlink_correct_witness:
  "\<exists>s'. fs_unlink (bytes ''a'') one_file = (s', Inr 0) \<and> removed one_file (bytes ''a'') s'"
  using fs_unlink_correct [OF one_file_inv(1), of "bytes ''a''"] one_file_links one_file_node
  by (simp add: init_node_simps del: bytes_simps(1,2))

text \<open>\<open>fs_rmdir\<close> on every branch: ENOENT, ENOTDIR for a file and ENOTEMPTY exactly when the
  directory still has an entry, without effect; otherwise the link goes and nothing else.\<close>

theorem fs_rmdir_correct:
  assumes "fs_inv s"
  shows "case links s (current_dir s, cstr nm) of
       None \<Rightarrow> fs_rmdir nm s = (s, Inl ENOENT)
     | Some i \<Rightarrow>
         if node_type (fs_nodes s ! i) \<noteq> FS_TYPE_DIR then fs_rmdir nm s = (s, Inl ENOTDIR)
         else if \<exists>w. links s (i, w) \<noteq> None then fs_rmdir nm s = (s, Inl ENOTEMPTY)
         else \<exists>s'. fs_rmdir nm s = (s', Inr 0) \<and> removed s nm s'"
proof (cases "find_node nm s")
  case (Some idx)
  have children: "(\<exists>w. links s (idx, w) \<noteq> None) \<longleftrightarrow> has_children idx s"
    using assms links_none_iff [of s idx] by (auto simp: has_children_iff)
  have "removed s nm (set_node idx ((fs_nodes s ! idx)\<lparr>in_use := False\<rparr>) s)"
    if "\<not> has_children idx s"
    using assms Some that by (intro removed_entry) (simp_all add: has_children_iff)
  with assms Some find_node_entry(2) [OF _ Some] children show ?thesis
    by (auto simp: fs_rmdir_def links_cwd)
qed (use assms in \<open>simp add: fs_rmdir_def links_cwd\<close>)

theorem fs_rmdir_correct_witness:
  "fs_rmdir (bytes ''a'') one_file = (one_file, Inl ENOTDIR)"
  using fs_rmdir_correct [OF one_file_inv(1), of "bytes ''a''"] one_file_links one_file_node
  by (simp add: init_node_simps del: bytes_simps(1,2))

text \<open>The older \<open>fs_delete\<close> is \<open>fs_rmdir\<close> on a directory and \<open>fs_unlink\<close> on a file.\<close>

theorem fs_delete_equiv:
  assumes "fs_inv s"
  shows "fs_delete nm s =
    (case links s (current_dir s, cstr nm) of
       Some i \<Rightarrow> if node_type (fs_nodes s ! i) = FS_TYPE_DIR then fs_rmdir nm s else fs_unlink nm s
     | None \<Rightarrow> fs_unlink nm s)"
proof (cases "find_node nm s")
  case (Some i)
  then have "i < 64" "i \<noteq> 0" "in_use (fs_nodes s ! i)"
    using find_node_entry [OF fs_inv_tree [OF assms] Some] find_node_SomeD [OF Some] by simp_all
  then have "node_type (fs_nodes s ! i) = FS_TYPE_FILE \<or> node_type (fs_nodes s ! i) = FS_TYPE_DIR"
    using fs_inv_tree [OF assms] unfolding fs_tree_def by blast
  with assms Some \<open>i \<noteq> 0\<close> show ?thesis
    by (auto simp: fs_delete_def fs_rmdir_def fs_unlink_def links_cwd)
qed (use assms in \<open>simp add: fs_delete_def fs_unlink_def links_cwd\<close>)

theorem fs_delete_equiv_witness:
  "fs_delete (bytes ''a'') one_file = fs_unlink (bytes ''a'') one_file"
  using fs_delete_equiv [OF one_file_inv(1), of "bytes ''a''"] one_file_links one_file_node
  by (simp add: init_node_simps del: bytes_simps(1,2))

section \<open>Reading and writing\<close>

text \<open>\<open>splice c off w\<close>: the bytes \<open>w\<close> stored at offset \<open>off\<close> of the contents \<open>c\<close>.\<close>

definition splice :: "u8 list \<Rightarrow> nat \<Rightarrow> u8 list \<Rightarrow> u8 list" where
  "splice c off w = take off c @ w @ drop (off + length w) c"

lemma take_list_update_same: "take k (xs[k := v]) = take k xs"
  by simp

lemma written_simps:
  "node_meta (written f n len buf) = node_meta n"
  "write_off f n + write_len f n len \<le> 4095 \<Longrightarrow> unat (node_size n) \<le> 4095 \<Longrightarrow>
     unat (node_size (written f n len buf)) = max (write_off f n + write_len f n len) (unat (node_size n))"
  by (simp_all add: written_def Let_def node_meta_def del: of_nat_add)

lemma content_written:
  assumes "write_off f n + write_len f n len \<le> 4095" "unat (node_size n) \<le> 4095"
    and "length (data n) = 4096" "write_len f n len \<le> length buf"
  shows "content (written f n len buf) =
    take (max (write_off f n + write_len f n len) (unat (node_size n)))
      (overwrite (data n) (write_off f n) (write_len f n len) buf)"
  unfolding content_def written_simps(2) [OF assms(1,2)]
  by (simp add: written_def Let_def take_list_update_same)

lemma content_splice:
  assumes "write_off f n + write_len f n len \<le> 4095" "unat (node_size n) \<le> 4095"
    and "length (data n) = 4096" "write_len f n len \<le> length buf"
    and "write_off f n \<le> unat (node_size n)"
  shows "content (written f n len buf)
    = splice (content n) (write_off f n) (take (write_len f n len) buf)"
proof -
  define o1 k z where "o1 = write_off f n" and "k = write_len f n len" and "z = unat (node_size n)"
  have b: "o1 + k \<le> 4095" "z \<le> 4095" "k \<le> length buf" "o1 \<le> z" "length (data n) = 4096"
    using assms by (simp_all add: o1_def k_def z_def)
  have "take (max (o1 + k) z) (overwrite (data n) o1 k buf) =
      take o1 (data n) @ take k buf @ take (z - (o1 + k)) (drop (o1 + k) (data n))"
    using b by (cases "z \<le> o1 + k") (auto simp: overwrite_def max_def min_def)
  moreover have "take (z - (o1 + k)) (drop (o1 + k) (data n)) = drop (o1 + k) (take z (data n))"
    by (simp add: drop_take)
  moreover have "take o1 (take z (data n)) = take o1 (data n)"
    using b by (simp add: min_def)
  ultimately show ?thesis
    unfolding content_written [OF assms(1-4)] splice_def
    using b by (simp add: content_def o1_def k_def z_def min_def)
qed

text \<open>The node and the descriptor a file descriptor stands for.\<close>

definition the_fd :: "int \<Rightarrow> fs \<Rightarrow> fs_fd" where
  "the_fd fd s = fs_fd_table s ! nat fd"

definition fd_node :: "int \<Rightarrow> fs \<Rightarrow> fs_node" where
  "fd_node fd s = fs_nodes s ! nat (node_idx (the_fd fd s))"

lemma links_written:
  "n = fs_nodes s ! i \<Longrightarrow> links (set_node i (written f n len buf) (set_fd j g s)) = links s"
proof -
  assume n: "n = fs_nodes s ! i"
  have "links (set_node i (written f n len buf) (set_fd j g s)) = links (set_fd j g s)"
    by (rule links_same_meta)
      (cases "i < length (fs_nodes s)"; auto simp: nth_list_update written_simps n list_update_beyond)
  then show ?thesis by simp
qed

text \<open>C15: \<open>fs_write_fd\<close> refines a splice: when the write starts inside the file or at its end, the
  file's contents become the old ones with the written bytes in place, as many as fit below 4095;
  the offset moves behind them; other files, all links and all other descriptors stay. With
  O_APPEND it starts at the end whatever the offset. A full file gives ENOSPC.\<close>

theorem fs_write_fd_correct:
  assumes "fs_inv s" "fd_ok fd s" "flags (the_fd fd s) AND 3 \<noteq> O_RDONLY" "unat len \<le> length buf"
    and "flags (the_fd fd s) AND O_APPEND \<noteq> 0 \<or> unat (offset (the_fd fd s)) \<le> unat (node_size (fd_node fd s))"
  defines "off \<equiv> (if flags (the_fd fd s) AND O_APPEND \<noteq> 0 then length (content (fd_node fd s))
    else unat (offset (the_fd fd s)))"
  defines "k \<equiv> min (unat len) (4095 - off)"
  shows "if off = 4095
    then \<exists>s'. fs_write_fd fd (Some buf) len s = Some (s', Inl ENOSPC) \<and> fs_nodes s' = fs_nodes s
    else \<exists>s'. fs_write_fd fd (Some buf) len s = Some (s', Inr k)
      \<and> content (fd_node fd s') = splice (content (fd_node fd s)) off (take k buf)
      \<and> the_fd fd s' = (the_fd fd s)\<lparr>offset := of_nat (off + k)\<rparr>
      \<and> (\<forall>i. i \<noteq> nat (node_idx (the_fd fd s)) \<longrightarrow> fs_nodes s' ! i = fs_nodes s ! i)
      \<and> links s' = links s \<and> current_dir s' = current_dir s
      \<and> (\<forall>j. j \<noteq> nat fd \<longrightarrow> fs_fd_table s' ! j = fs_fd_table s ! j)"
proof -
  define f where "f = the_fd fd s"
  define n where "n = fd_node fd s"
  have shape: "fs_shape s" using assms by simp
  note ok = fd_okD [OF shape assms(2), folded the_fd_def, folded f_def]
  note b = write_bounds [OF shape assms(2), folded the_fd_def, folded fd_node_def, folded f_def n_def]
  have off: "off = write_off f n" and k: "k = write_len f n len"
    using b by (simp_all add: off_def k_def write_off_def write_len_def content_def f_def n_def min_def)
  have kb: "write_len f n len \<le> length buf" using assms(4) by (simp add: write_len_def)
  have off_le: "write_off f n \<le> unat (node_size n)"
    using assms(5) by (auto simp: write_off_def f_def n_def)
  note eq = fs_write_fd_eq [OF shape assms(2), folded the_fd_def, folded fd_node_def, folded f_def n_def,
      OF _ kb]
  have len: "length (fs_nodes s) = 64" "length (fs_fd_table s) = 16"
    using shape by (simp_all add: fs_shapeD)
  have n: "n = fs_nodes s ! nat (node_idx f)" by (simp add: n_def f_def fd_node_def)
  show ?thesis
    unfolding off k using eq assms(3) ok(1,2,4) len content_splice [OF b(2) b(3) b(4) kb off_le]
      links_written [OF n, of f len buf]
    by (simp add: f_def [symmetric] n_def [symmetric] del: of_nat_add)
      (simp add: the_fd_def fd_node_def)
qed

text \<open>A descriptor open for reading and writing on the file \<open>a\<close>.\<close>

definition open_rw :: fs_fd where
  "open_rw = \<lparr>node_idx = 1, offset = 1, flags = O_RDWR, fd_in_use = True\<rparr>"

definition one_open :: fs where
  "one_open = set_fd 0 open_rw one_file"

lemma one_open_facts:
  "fs_inv one_open" "fd_ok 0 one_open" "the_fd 0 one_open = open_rw"
  "fd_node 0 one_open = init_file 0 ''a'' (bytes ''xyz'')"
  "content (init_file 0 ''a'' (bytes ''xyz'')) = bytes ''xyz''"
  "unat (node_size (init_file 0 ''a'' (bytes ''xyz''))) = 3"
proof -
  have len: "length (fs_fd_table one_file) = 16" by (simp add: fs_shapeD)
  show "fs_inv one_open"
    unfolding one_open_def by (rule set_fd_inv [OF one_file_inv(1)]) (simp add: fd_wf_def open_rw_def)
  show "fd_ok 0 one_open" "the_fd 0 one_open = open_rw"
    using len by (simp_all add: one_open_def fd_ok_def the_fd_def open_rw_def)
  then show "fd_node 0 one_open = init_file 0 ''a'' (bytes ''xyz'')"
    by (simp add: fd_node_def one_open_def one_file_node open_rw_def)
  show "content (init_file 0 ''a'' (bytes ''xyz'')) = bytes ''xyz''"
    by (rule init_node_simps(5)) simp_all
  show "unat (node_size (init_file 0 ''a'' (bytes ''xyz''))) = 3"
    by (simp add: init_file_def with_text_def)
qed

theorem fs_write_fd_correct_witness:
  "\<exists>s'. fs_write_fd 0 (Some (bytes ''QRSTU'')) 4 one_open = Some (s', Inr 4)
    \<and> content (fd_node 0 s') = bytes ''xQRST'' \<and> the_fd 0 s' = open_rw\<lparr>offset := 5\<rparr>"
proof -
  have "flags open_rw AND 3 \<noteq> 0" "unat (offset open_rw) = 1" "flags open_rw AND O_APPEND = 0"
    by (simp_all add: open_rw_def)
  with fs_write_fd_correct [OF one_open_facts(1,2), of 4 "bytes ''QRSTU''"] one_open_facts
  show ?thesis by (auto simp: splice_def)
qed

lemma fs_read_fd_content:
  assumes "fs_inv s" "fd_ok fd s" "unat len \<le> length buf"
  defines "w \<equiv> take (unat len) (drop (unat (offset (the_fd fd s))) (content (fd_node fd s)))"
  shows "if flags (the_fd fd s) AND 3 = O_WRONLY then fs_read_fd fd (Some buf) len s = Some (s, Some buf, Inl EACCES)
    else \<exists>s'. fs_read_fd fd (Some buf) len s = Some (s', Some (w @ drop (length w) buf), Inr (length w))
      \<and> fs_nodes s' = fs_nodes s \<and> current_dir s' = current_dir s
      \<and> fs_fd_table s' = (fs_fd_table s)[nat fd := (the_fd fd s)\<lparr>offset := offset (the_fd fd s) + of_nat (length w)\<rparr>]"
proof -
  define f where "f = the_fd fd s"
  define n where "n = fd_node fd s"
  have shape: "fs_shape s" using assms by simp
  note ok = fd_okD [OF shape assms(2), folded the_fd_def, folded f_def]
  note b = write_bounds [OF shape assms(2), folded the_fd_def, folded fd_node_def, folded f_def n_def]
  have w: "length w = read_len f n len" "w = take (read_len f n len) (drop (unat (offset f)) (data n))"
    using b by (auto simp: w_def read_len_def content_def f_def n_def drop_take min_def)
  have len: "read_len f n len \<le> length buf" using assms(3) by (simp add: read_len_def)
  show ?thesis
  proof (cases "flags (the_fd fd s) AND 3 = O_WRONLY")
    case True
    with assms(2) show ?thesis by (simp add: fs_read_fd_def the_fd_def)
  next
    case False
    note eq = fs_read_fd_eq [OF shape assms(2), folded the_fd_def, folded fd_node_def,
      folded f_def n_def, OF _ len]
    show ?thesis
    proof (cases "unat (node_size n) \<le> unat (offset f)")
      case True
      then have "read_len f n len = 0" by (simp add: read_len_def)
      with w have "w = []" by simp
      with False eq True show ?thesis by (simp add: f_def the_fd_def)
    next
      case gt: False
      with False eq w show ?thesis by (simp add: f_def set_fd_def)
    qed
  qed
qed

text \<open>C16: \<open>fs_read_fd\<close> on an open descriptor: it delivers the file's bytes from the offset on, at
  most as many as were asked for and none past the end, moves the offset behind them and changes
  nothing else. A write-only descriptor gives EACCES.\<close>

theorem fs_read_fd_correct:
  assumes "fs_inv s" "fd_ok fd s" "unat len \<le> length buf"
  defines "w \<equiv> take (unat len) (drop (unat (offset (the_fd fd s))) (content (fd_node fd s)))"
  shows "if flags (the_fd fd s) AND 3 = O_WRONLY then fs_read_fd fd (Some buf) len s = Some (s, Some buf, Inl EACCES)
    else \<exists>s'. fs_read_fd fd (Some buf) len s = Some (s', Some (w @ drop (length w) buf), Inr (length w))
      \<and> fs_nodes s' = fs_nodes s \<and> current_dir s' = current_dir s
      \<and> fs_fd_table s' = (fs_fd_table s)[nat fd := (the_fd fd s)\<lparr>offset := offset (the_fd fd s) + of_nat (length w)\<rparr>]"
  unfolding w_def by (rule fs_read_fd_content [OF assms(1-3)])

theorem fs_read_fd_correct_witness:
  "\<exists>s'. fs_read_fd 0 (Some (bytes ''....'')) 4 one_open = Some (s', Some (bytes ''yz..''), Inr 2)"
proof -
  have "flags open_rw AND 3 \<noteq> 1" "unat (offset open_rw) = 1"
    by (simp_all add: open_rw_def)
  with fs_read_fd_correct [OF one_open_facts(1,2), of 4 "bytes ''....''"] one_open_facts
  show ?thesis by auto
qed

lemma fs_lseek_set:
  assumes "fd_ok fd s" "fs_shape s" "0 \<le> off" "off \<le> 4095"
  shows "fs_lseek fd off SEEK_SET s =
    Some (set_fd (nat fd) ((the_fd fd s)\<lparr>offset := word_of_int off\<rparr>) s, Inr (nat off))"
  using assms fd_okD(6) [OF assms(2,1)] by (simp add: fs_lseek_def the_fd_def Let_def)

lemma take_drop_splice:
  "off \<le> length c \<Longrightarrow> take (length w) (drop off (splice c off w)) = w"
  by (simp add: splice_def)

lemma fs_write_then_read:
  assumes "fs_inv s" "fd_ok fd s" "flags (the_fd fd s) AND 3 = O_RDWR"
    and "flags (the_fd fd s) AND O_APPEND = 0" "unat len \<le> length buf"
    and "unat (offset (the_fd fd s)) \<le> unat (node_size (fd_node fd s))"
    and "fs_write_fd fd (Some buf) len s = Some (s1, Inr k)" "k \<le> length buf2"
  defines "off \<equiv> unat (offset (the_fd fd s))"
  shows "\<exists>s2 s3. fs_lseek fd (int off) SEEK_SET s1 = Some (s2, Inr off)
    \<and> fs_read_fd fd (Some buf2) (of_nat k) s2 = Some (s3, Some (take k buf @ drop k buf2), Inr k)"
proof -
  define f where "f = the_fd fd s"
  define n where "n = fd_node fd s"
  have shape: "fs_shape s" using assms by simp
  note ok = fd_okD [OF shape assms(2), folded the_fd_def, folded f_def]
  note b = write_bounds [OF shape assms(2), folded the_fd_def, folded fd_node_def, folded f_def n_def]
  have off: "write_off f n = off" using assms(4) by (simp add: write_off_def f_def off_def)
  have kb: "write_len f n len \<le> length buf" using assms(5) by (simp add: write_len_def)
  have "flags f AND 3 \<noteq> 0" using assms(3) by (simp add: f_def)
  note eq = fs_write_fd_eq [OF shape assms(2), folded the_fd_def, folded fd_node_def, folded f_def n_def,
      OF this kb]
  from eq assms(7) have s1: "off \<noteq> 4095" "k = write_len f n len"
    "s1 = set_node (nat (node_idx f)) (written f n len buf) (set_fd (nat fd) (f\<lparr>offset := of_nat (off + k)\<rparr>) s)"
    by (auto simp: off split: if_splits)
  have inv1: "fs_inv s1"
    using fs_write_fd_inv [OF assms(1), of "Some buf" len fd] assms(5,7) by auto
  have len: "length (fs_nodes s) = 64" "length (fs_fd_table s) = 16" using shape by (simp_all add: fs_shapeD)
  have fd1: "the_fd fd s1 = f\<lparr>offset := of_nat (off + k)\<rparr>" "fd_node fd s1 = written f n len buf"
    using len ok by (simp_all add: s1(3) the_fd_def fd_node_def)
  have ok1: "fd_ok fd s1"
    using assms(2) fd1(1) ok(3) by (simp add: fd_ok_def the_fd_def)
  define s2 where "s2 = set_fd (nat fd) (f\<lparr>offset := of_nat off\<rparr>) s1"
  have seek: "fs_lseek fd (int off) SEEK_SET s1 = Some (s2, Inr off)"
    using fs_lseek_set [OF ok1 fs_inv_shape [OF inv1], of "int off"] b(1) off fd1(1)
    by (simp add: s2_def)
  have inv2: "fs_inv s2"
    using fs_lseek_inv [OF inv1, of "int off" fd 0] seek b(1) off by auto
  have fd2: "the_fd fd s2 = f\<lparr>offset := of_nat off\<rparr>" "fd_node fd s2 = written f n len buf"
    using fd1(2) len ok(1,2) s1(3) by (simp_all add: s2_def the_fd_def fd_node_def)
  have ok2: "fd_ok fd s2"
    using ok1 fd2(1) ok(3) by (simp add: fd_ok_def the_fd_def)
  have le: "off \<le> unat (node_size n)" "length (content n) = unat (node_size n)"
    using assms(6) b(3,4) by (simp_all add: off_def n_def content_def)
  have k: "k \<le> 4095" "length (take k buf) = k"
    using b(2) [of len] kb s1(2) by simp_all
  have "content (written f n len buf) = splice (content n) off (take k buf)"
    using content_splice [OF b(2) b(3) b(4) kb] le off s1(2) by simp
  then have "take k (drop off (content (fd_node fd s2))) = take k buf"
    using take_drop_splice [of off "content n" "take k buf"] le k by (simp add: fd2)
  moreover have "flags f AND 3 = 2" using assms(3) by (simp add: f_def)
  ultimately show ?thesis
    using fs_read_fd_content [OF inv2 ok2, of "of_nat k" buf2] assms(8) k b(1) off seek
    by (auto simp: fd2(1))
qed

text \<open>What is written can be read back: after a write, seeking to where it began and reading as
  many bytes as were written fills the buffer with them.\<close>

theorem fs_write_seek_read:
  assumes "fs_inv s" "fd_ok fd s" "flags (the_fd fd s) AND 3 = O_RDWR"
    and "flags (the_fd fd s) AND O_APPEND = 0" "unat len \<le> length buf"
    and "unat (offset (the_fd fd s)) \<le> unat (node_size (fd_node fd s))"
    and "fs_write_fd fd (Some buf) len s = Some (s1, Inr k)" "k \<le> length buf2"
  defines "off \<equiv> unat (offset (the_fd fd s))"
  shows "\<exists>s2 s3. fs_lseek fd (int off) SEEK_SET s1 = Some (s2, Inr off)
    \<and> fs_read_fd fd (Some buf2) (of_nat k) s2 = Some (s3, Some (take k buf @ drop k buf2), Inr k)"
  unfolding off_def by (rule fs_write_then_read [OF assms(1-8)])

theorem fs_write_seek_read_witness:
  "\<exists>s1 s2 s3. fs_write_fd 0 (Some (bytes ''QRSTU'')) 4 one_open = Some (s1, Inr 4)
    \<and> fs_lseek 0 1 SEEK_SET s1 = Some (s2, Inr 1)
    \<and> fs_read_fd 0 (Some (bytes ''......'')) 4 s2 = Some (s3, Some (bytes ''QRST..''), Inr 4)"
proof -
  have rw: "flags open_rw AND 3 = 2" "unat (offset open_rw) = 1" "flags open_rw AND O_APPEND = 0"
    by (simp_all add: open_rw_def)
  have shape: "fs_shape one_open" using one_open_facts(1) by simp
  have wl: "write_off open_rw n = 1" "write_len open_rw n 4 = 4" for n
    using rw by (simp_all add: write_off_def write_len_def)
  obtain s1 where s1: "fs_write_fd 0 (Some (bytes ''QRSTU'')) 4 one_open = Some (s1, Inr 4)"
    using fs_write_fd_eq [OF shape one_open_facts(2), folded the_fd_def, unfolded one_open_facts(3),
        of 4 "bytes ''QRSTU''"] rw
    unfolding wl by auto
  have "\<exists>s2 s3. fs_lseek 0 (int (unat (offset (the_fd 0 one_open)))) SEEK_SET s1
        = Some (s2, Inr (unat (offset (the_fd 0 one_open))))
      \<and> fs_read_fd 0 (Some (bytes ''......'')) (of_nat 4) s2
        = Some (s3, Some (take 4 (bytes ''QRSTU'') @ drop 4 (bytes ''......'')), Inr 4)"
    using rw one_open_facts by (intro fs_write_seek_read [OF _ _ _ _ _ _ s1]) simp_all
  with s1 show ?thesis by (auto simp: one_open_facts(3) rw(2))
qed

section \<open>Moving in the tree\<close>

text \<open>\<open>fs_cd\<close> into a subdirectory and then to \<open>..\<close> is back where it began.\<close>

theorem fs_cd_down_up:
  assumes "fs_inv s" "cstr nm \<noteq> bytes ''..''" "cstr nm \<noteq> bytes ''/''" "fs_cd nm s = (s', Inr 0)"
  shows "fs_cd (bytes ''..'') s' = (s, Inr 0)"
proof -
  have "strcmp nm (bytes ''..'') \<noteq> 0" "strcmp nm (bytes ''/'') \<noteq> 0"
    using assms(2,3) by (simp_all add: strcmp_eq_0 del: bytes_simps(1,2))
  with assms(4) obtain i where i: "find_node nm s = Some i" "s' = s\<lparr>current_dir := i\<rparr>"
    by (auto simp: fs_cd_def split: option.splits if_splits)
  from find_node_SomeD(4) [OF i(1)] have "parent (fs_nodes s' ! current_dir s') = int (current_dir s)"
    by (simp add: i(2))
  then show ?thesis by (simp add: fs_cd_def i(2) strcmp_eq_0 del: bytes_simps(1,2))
qed

definition dir_example :: fs where
  "dir_example = boot_fs [root_node, new_dir 0 (bytes ''d'') 0 zero_node]"

lemma dir_example_facts:
  "fs_inv dir_example" "find_node (bytes ''d'') dir_example = Some 1"
  "is_dir dir_example 1" "parent (fs_nodes dir_example ! 1) = 0"
proof -
  have "node_wf (new_dir 0 (bytes ''d'') 0 zero_node)" using zero_node_wf by (intro new_node_wf) simp_all
  then show "fs_inv dir_example"
    unfolding dir_example_def by (intro boot_inv [OF refl]) (simp_all add: init_node_simps)
  have "find_node (bytes ''d'') (boot_fs ([root_node] @ [new_dir 0 (bytes ''d'') 0 zero_node])) = Some (length [root_node])"
    by (rule boot_find_last) (simp_all add: init_node_simps del: bytes_simps(1,2))
  then show "find_node (bytes ''d'') dir_example = Some 1" by (simp add: dir_example_def)
  show "is_dir dir_example 1" "parent (fs_nodes dir_example ! 1) = 0"
    by (simp_all add: dir_example_def is_dir_def init_node_simps)
qed

theorem fs_cd_down_up_witness:
  "fs_cd (bytes ''d'') dir_example = (dir_example\<lparr>current_dir := 1\<rparr>, Inr 0)
    \<and> fs_cd (bytes ''..'') (dir_example\<lparr>current_dir := 1\<rparr>) = (dir_example, Inr 0)"
proof -
  have "fs_cd (bytes ''d'') dir_example = (dir_example\<lparr>current_dir := 1\<rparr>, Inr 0)"
    using dir_example_facts by (simp add: fs_cd_def strcmp_eq_0 is_dir_def del: bytes_simps(1,2))
  with fs_cd_down_up [OF dir_example_facts(1), of "bytes ''d''"] show ?thesis
    by (simp del: bytes_simps(1,2))
qed

text \<open>\<open>n\<close> times \<^verbatim>\<open>cd ..\<close>.\<close>

fun cd_up :: "nat \<Rightarrow> fs \<Rightarrow> fs" where
  "cd_up 0 s = s"
| "cd_up (Suc n) s = cd_up n (fst (fs_cd (bytes ''..'') s))"

text \<open>From every directory, going up reaches the root in fewer than 64 steps and stays there, since
  the parents of the directories form no cycle.\<close>

theorem fs_cd_up_root:
  assumes "fs_inv s"
  shows "\<exists>n < 64. current_dir (cd_up n s) = 0 \<and> fs_cd (bytes ''..'') (cd_up n s) = (cd_up n s, Inr 0)"
proof -
  have up: "fst (fs_cd (bytes ''..'') s) = (if parent (fs_nodes s ! current_dir s) \<ge> 0
      then s\<lparr>current_dir := nat (parent (fs_nodes s ! current_dir s))\<rparr> else s)" for s
    by (simp add: fs_cd_def strcmp_eq_0 del: bytes_simps(1,2))
  obtain rank :: "nat \<Rightarrow> nat" where rank: "\<And>d i. entry_of s d i \<Longrightarrow> rank d < rank i"
    using fs_inv_tree [OF assms] unfolding fs_tree_def by blast
  define below where "below c = {i. i < 64 \<and> rank i < rank c}" for c :: nat
  have fin: "finite (below c)" for c by (simp add: below_def)
  have reach: "fs_inv (s\<lparr>current_dir := c\<rparr>) \<Longrightarrow> \<exists>n \<le> card (below c). current_dir (cd_up n (s\<lparr>current_dir := c\<rparr>)) = 0
      \<and> fs_inv (cd_up n (s\<lparr>current_dir := c\<rparr>))" for c
  proof (induction "rank c" arbitrary: c rule: less_induct)
    case less
    show ?case
    proof (cases "c = 0")
      case True
      with less.prems show ?thesis by (intro exI [of _ 0]) simp
    next
      case False
      let ?s = "s\<lparr>current_dir := c\<rparr>"
      have "is_dir ?s c" using fs_tree_dirs(2) [OF fs_inv_tree [OF less.prems]] by simp
      then have c: "c < 64" "in_use (fs_nodes s ! c)" by (simp_all add: is_dir_def)
      with False fs_inv_tree [OF assms] obtain d where d: "parent (fs_nodes s ! c) = int d"
        unfolding fs_tree_def by blast
      with c False have "entry_of s d c" by (simp add: entry_of_def)
      then have lower: "rank d < rank c" by (rule rank)
      moreover have step: "fst (fs_cd (bytes ''..'') ?s) = s\<lparr>current_dir := d\<rparr>"
        using d by (simp add: up del: bytes_simps(1,2))
      moreover have "fs_inv (s\<lparr>current_dir := d\<rparr>)"
        using fs_cd_inv [OF less.prems, of "bytes ''..''"] step by simp
      ultimately obtain n where n: "n \<le> card (below d)" "current_dir (cd_up n (s\<lparr>current_dir := d\<rparr>)) = 0"
        "fs_inv (cd_up n (s\<lparr>current_dir := d\<rparr>))"
        using less.hyps by blast
      have "d < 64" using fs_shapeD(3) [OF fs_inv_shape [OF \<open>fs_inv (s\<lparr>current_dir := d\<rparr>)\<close>]] by simp
      then have "below d \<subset> below c" using lower by (auto simp: below_def)
      then have "card (below d) < card (below c)" by (rule psubset_card_mono [OF fin])
      with n step show ?thesis by (intro exI [of _ "Suc n"]) simp
    qed
  qed
  have "s\<lparr>current_dir := current_dir s\<rparr> = s" by simp
  with reach [of "current_dir s"] assms obtain n where
    n: "current_dir (cd_up n s) = 0" "fs_inv (cd_up n s)" "n \<le> card (below (current_dir s))"
    by auto
  have "below (current_dir s) \<subset> {..<64}"
    using fs_shapeD(3) [OF fs_inv_shape [OF assms]] by (auto simp: below_def)
  then have "card (below (current_dir s)) < card {..<64 :: nat}"
    by (intro psubset_card_mono) simp_all
  then have "n < 64" using n(3) by simp
  from n(2) have "parent (fs_nodes (cd_up n s) ! 0) = - 1" by (simp add: fs_tree_dirs(3))
  with n(1) \<open>n < 64\<close> show ?thesis
    by (intro exI [of _ n]) (simp add: fs_cd_def strcmp_eq_0 del: bytes_simps(1,2))
qed

theorem fs_cd_up_root_witness:
  "\<exists>n. current_dir (cd_up n (dir_example\<lparr>current_dir := 1\<rparr>)) = 0"
proof -
  have "fs_inv (dir_example\<lparr>current_dir := 1\<rparr>)"
    using dir_example_facts fs_cd_inv [OF dir_example_facts(1), of "bytes ''d''"]
    by (simp add: fs_cd_def strcmp_eq_0 is_dir_def del: bytes_simps(1,2))
  from fs_cd_up_root [OF this] show ?thesis by blast
qed

section \<open>Opening\<close>

text \<open>The state in which \<open>fs_open\<close> looks for a descriptor: the file may have been created and
  truncated.\<close>

definition truncated :: "u32 \<Rightarrow> nat \<Rightarrow> fs \<Rightarrow> fs" where
  "truncated flgs i s = (if flgs AND O_TRUNC \<noteq> 0
     then set_node i ((fs_nodes s ! i)\<lparr>data := (data (fs_nodes s ! i))[0 := 0], node_size := 0\<rparr>) s else s)"

lemma truncated_simps [simp]:
  "fs_fd_table (truncated flgs i s) = fs_fd_table s" "current_dir (truncated flgs i s) = current_dir s"
  "links (truncated flgs i s) = links s" "find_free_fd (truncated flgs i s) = find_free_fd s"
  "j \<noteq> i \<Longrightarrow> fs_nodes (truncated flgs i s) ! j = fs_nodes s ! j"
  "length (fs_nodes (truncated flgs i s)) = length (fs_nodes s)"
  by (simp_all add: truncated_def find_free_fd_def)

lemma truncated_node:
  assumes "i < length (fs_nodes s)"
  shows "node_type (fs_nodes (truncated flgs i s) ! i) = node_type (fs_nodes s ! i)"
    "content (fs_nodes (truncated flgs i s) ! i) =
      (if flgs AND O_TRUNC \<noteq> 0 then [] else content (fs_nodes s ! i))"
  using assms by (simp_all add: truncated_def content_def)

lemma open_node_eq:
  assumes "fs_inv s" "i < 64"
  shows "open_node flgs i s =
    (if node_type (fs_nodes s ! i) \<noteq> FS_TYPE_FILE then Some (s, Inl EISDIR)
     else case find_free_fd s of None \<Rightarrow> Some (truncated flgs i s, Inl EMFILE)
       | Some fd \<Rightarrow> Some (set_fd fd \<lparr>node_idx = int i,
            offset = (if flgs AND O_APPEND \<noteq> 0 then node_size (fs_nodes (truncated flgs i s) ! i) else 0),
            flags = flgs, fd_in_use = True\<rparr> (truncated flgs i s), Inr fd))"
proof -
  have "length (data (fs_nodes s ! i)) = 4096" using assms by (simp add: fs_shapeD)
  then have "(if flgs AND O_TRUNC \<noteq> 0
      then do { d \<leftarrow> put_at (data (fs_nodes s ! i)) 0 0;
                Some (set_node i ((fs_nodes s ! i)\<lparr>data := d, node_size := 0\<rparr>) s) }
      else Some s) = Some (truncated flgs i s)"
    by (simp add: truncated_def)
  then show ?thesis
    unfolding open_node_def by (simp only: Option.bind.simps truncated_simps)
qed

text \<open>The node \<open>fs_open\<close> settles on: the existing file, or a new one.\<close>

definition opened_node :: "u32 \<Rightarrow> fs \<Rightarrow> u8 list \<Rightarrow> u32 \<Rightarrow> fs \<Rightarrow> nat \<Rightarrow> bool" where
  "opened_node now s nm flgs s1 i \<longleftrightarrow> fs_inv s1 \<and> links s1 (current_dir s, cstr nm) = Some i
     \<and> (links s (current_dir s, cstr nm) = Some i \<and> s1 = s
        \<or> flgs AND O_CREAT \<noteq> 0 \<and> created s nm FS_TYPE_FILE now s1)"

lemma open_lookup_spec:
  assumes "fs_inv s" "cstr nm \<noteq> []" "open_lookup now nm flgs s = Some (s1, Inr i)"
  shows "opened_node now s nm flgs s1 i" "i < 64"
proof -
  have "opened_node now s nm flgs s1 i \<and> i < 64"
    using assms(1,2)
  proof (cases rule: open_lookup_cases [of s nm now flgs])
    case (found idx)
    with assms find_node_SomeD(1) show ?thesis by (simp add: opened_node_def links_cwd)
  next
    case (created idx)
    note new = add_node_inv(2) [OF assms(1) created(1,2,4) assms(2), of now]
    have "created s nm FS_TYPE_FILE now s1" "s1 = set_node idx (new_file now nm (current_dir s) (fs_nodes s ! idx)) s" "i = idx"
      using created assms created_new(2) [OF assms(1) created(1,2,4) assms(2), of now] by simp_all
    with new created(3) find_node_add(1) [OF assms(1) created(1,2,4) assms(2), of now]
      find_free_node_SomeD(2) [OF created(2)]
    show ?thesis
      using links_cwd [OF fs_inv_tree [OF new], of nm] by (simp add: opened_node_def)
  next
    case (error e)
    with assms show ?thesis by simp
  qed
  then show "opened_node now s nm flgs s1 i" "i < 64" by simp_all
qed

lemma fs_open_opens:
  assumes "fs_inv s" "fs_open now (Some nm) flgs s = Some (s', Inr fd)"
  shows "\<exists>s1 i. opened_node now s nm flgs s1 i \<and> fd < 16 \<and> \<not> fd_in_use (fs_fd_table s ! fd)
    \<and> fd_ok (int fd) s' \<and> node_type (fs_nodes s' ! i) = FS_TYPE_FILE
    \<and> content (fs_nodes s' ! i) = (if flgs AND O_TRUNC \<noteq> 0 then [] else content (fs_nodes s1 ! i))
    \<and> the_fd (int fd) s' = \<lparr>node_idx = int i,
        offset = (if flgs AND O_APPEND \<noteq> 0 then node_size (fs_nodes s' ! i) else 0), flags = flgs, fd_in_use = True\<rparr>
    \<and> links s' = links s1 \<and> (\<forall>j. j \<noteq> i \<longrightarrow> fs_nodes s' ! j = fs_nodes s1 ! j)
    \<and> (\<forall>j. j \<noteq> fd \<longrightarrow> fs_fd_table s' ! j = fs_fd_table s ! j)"
proof -
  have nm: "cstr nm \<noteq> []" using assms(2) by (auto simp: fs_open_def hdc_0_iff)
  with assms(2) obtain s1 q where q: "open_lookup now nm flgs s = Some (s1, q)"
    "(case q of Inl e \<Rightarrow> Some (s1, Inl e) | Inr i \<Rightarrow> open_node flgs i s1) = Some (s', Inr fd)"
    by (auto simp: fs_open_def hdc_0_iff bind_eq_Some_conv)
  then obtain i where 1: "open_lookup now nm flgs s = Some (s1, Inr i)"
    "open_node flgs i s1 = Some (s', Inr fd)"
    by (cases q) auto
  note found = open_lookup_spec [OF assms(1) nm 1(1)]
  have inv: "fs_inv s1" using found by (simp add: opened_node_def)
  have tables: "fs_fd_table s1 = fs_fd_table s"
    using found(1) by (auto simp: opened_node_def created_def)
  then have free_fd: "find_free_fd s1 = find_free_fd s" by (simp add: find_free_fd_def)
  let ?t = "truncated flgs i s1"
  from 1(2) open_node_eq [OF inv found(2)] free_fd
  have s': "s' = set_fd fd \<lparr>node_idx = int i,
      offset = (if flgs AND O_APPEND \<noteq> 0 then node_size (fs_nodes ?t ! i) else 0),
      flags = flgs, fd_in_use = True\<rparr> ?t"
    and ty: "node_type (fs_nodes s1 ! i) = FS_TYPE_FILE" and fd: "find_free_fd s = Some fd"
    by (auto split: if_splits option.splits)
  have len: "length (fs_nodes s1) = 64" "length (fs_fd_table s) = 16"
    using inv assms(1) by (simp_all add: fs_shapeD)
  show ?thesis
    using found find_free_fd_SomeD [OF fd] ty len truncated_node [of i s1 flgs]
    by (intro exI [of _ s1] exI [of _ i]) (simp add: s' fd_ok_def the_fd_def tables)
qed

text \<open>C17: a successful \<open>fs_open\<close> returns a descriptor that was free and now stands for the file of that
  name, existing or, only with O_CREAT, newly created and empty; the offset is 0, or with O_APPEND
  the file's size; with O_TRUNC the contents are gone, otherwise they are kept; the other
  descriptors and the other nodes are as before the descriptor was taken.\<close>

theorem fs_open_correct:
  assumes "fs_inv s" "fs_open now (Some nm) flgs s = Some (s', Inr fd)"
  shows "\<exists>s1 i. opened_node now s nm flgs s1 i \<and> fd < 16 \<and> \<not> fd_in_use (fs_fd_table s ! fd)
    \<and> fd_ok (int fd) s' \<and> node_type (fs_nodes s' ! i) = FS_TYPE_FILE
    \<and> content (fs_nodes s' ! i) = (if flgs AND O_TRUNC \<noteq> 0 then [] else content (fs_nodes s1 ! i))
    \<and> the_fd (int fd) s' = \<lparr>node_idx = int i,
        offset = (if flgs AND O_APPEND \<noteq> 0 then node_size (fs_nodes s' ! i) else 0), flags = flgs, fd_in_use = True\<rparr>
    \<and> links s' = links s1 \<and> (\<forall>j. j \<noteq> i \<longrightarrow> fs_nodes s' ! j = fs_nodes s1 ! j)
    \<and> (\<forall>j. j \<noteq> fd \<longrightarrow> fs_fd_table s' ! j = fs_fd_table s ! j)"
  by (rule fs_open_opens [OF assms])

lemma one_file_open:
  "fs_open 3 (Some (bytes ''a'')) O_RDWR one_file = Some (set_fd 0 (open_rw\<lparr>offset := 0\<rparr>) one_file, Inr 0)"
proof -
  have "fs_fd_table one_file = replicate 16 free_fd_entry" by (simp add: one_file_def boot_fs_def fs_blank_def)
  then have "find_free_fd one_file = Some 0"
    by (simp add: find_free_fd_def first_from_Some_iff free_fd_entry_def)
  moreover have "node_type (fs_nodes one_file ! Suc 0) = 1"
    using one_file_node(2) by (simp add: init_node_simps)
  ultimately show ?thesis
    using one_file_find(1) open_node_eq [OF one_file_inv(1), of 1 O_RDWR]
    by (simp add: fs_open_def hdc_0_iff open_lookup_def open_rw_def truncated_def del: bytes_simps(1,2))
qed

theorem fs_open_correct_witness:
  "\<exists>i. the_fd 0 (set_fd 0 (open_rw\<lparr>offset := 0\<rparr>) one_file) =
    \<lparr>node_idx = int i, offset = 0, flags = O_RDWR, fd_in_use = True\<rparr>"
  using fs_open_correct [OF one_file_inv(1) one_file_open] by auto

section \<open>Effects that outlive or precede an error\<close>

text \<open>\<open>fs_open\<close> looks for a descriptor last. When all are taken it fails with EMFILE, but a file
  asked for with O_CREAT has been created, and an existing file opened with O_TRUNC is empty.\<close>

theorem fs_open_emfile_effects:
  assumes "fs_inv s" "\<forall>i < 16. fd_in_use (fs_fd_table s ! i)" "cstr nm \<noteq> []"
    and "open_lookup now nm flgs s = Some (s1, Inr i)" "node_type (fs_nodes s1 ! i) = FS_TYPE_FILE"
  shows "\<exists>s'. fs_open now (Some nm) flgs s = Some (s', Inl EMFILE)
    \<and> links s' (current_dir s, cstr nm) = Some i
    \<and> content (fs_nodes s' ! i) = (if flgs AND O_TRUNC \<noteq> 0 then [] else content (fs_nodes s1 ! i))"
proof -
  note found = open_lookup_spec [OF assms(1,3,4)]
  have "fs_fd_table s1 = fs_fd_table s"
    using found(1) by (auto simp: opened_node_def created_def)
  then have "find_free_fd s1 = None"
    using assms(2) by (simp add: find_free_fd_def first_from_None_iff)
  moreover have inv: "fs_inv s1" using found by (simp add: opened_node_def)
  ultimately have "open_node flgs i s1 = Some (truncated flgs i s1, Inl EMFILE)"
    using open_node_eq [OF inv found(2)] assms(5) by simp
  moreover have "length (fs_nodes s1) = 64" using inv by (simp add: fs_shapeD)
  ultimately show ?thesis
    using assms(3,4) found truncated_node [of i s1 flgs]
    by (simp add: fs_open_def hdc_0_iff opened_node_def)
qed

definition busy_fds :: fs where
  "busy_fds = one_file\<lparr>fs_fd_table := replicate 16 open_rw\<rparr>"

lemma busy_fds_facts:
  "fs_inv busy_fds" "\<forall>i < 16. fd_in_use (fs_fd_table busy_fds ! i)"
  "open_lookup 0 (bytes ''a'') O_TRUNC busy_fds = Some (busy_fds, Inr 1)"
proof -
  have nodes: "fs_nodes busy_fds = fs_nodes one_file" "current_dir busy_fds = current_dir one_file"
    by (simp_all add: busy_fds_def)
  have "fd_wf open_rw" by (simp add: fd_wf_def open_rw_def)
  then have "fs_shape busy_fds"
    using fs_inv_shape [OF one_file_inv(1)] by (auto simp: fs_shape_def busy_fds_def)
  moreover have "fs_tree busy_fds"
    using fs_tree_same_meta [of busy_fds one_file] nodes one_file_inv(1) by simp
  ultimately show "fs_inv busy_fds" by (rule fs_invI)
  show "\<forall>i < 16. fd_in_use (fs_fd_table busy_fds ! i)" by (simp add: busy_fds_def open_rw_def)
  show "open_lookup 0 (bytes ''a'') O_TRUNC busy_fds = Some (busy_fds, Inr 1)"
    using one_file_find(1) by (simp add: open_lookup_def find_node_def nodes del: bytes_simps(1,2))
qed

theorem fs_open_emfile_effects_witness:
  "\<exists>s'. fs_open 0 (Some (bytes ''a'')) O_TRUNC busy_fds = Some (s', Inl EMFILE)
    \<and> content (fs_nodes s' ! 1) = []"
proof -
  have "node_type (fs_nodes busy_fds ! 1) = FS_TYPE_FILE"
    using one_file_node(1) by (simp add: busy_fds_def init_node_simps)
  with fs_open_emfile_effects [OF busy_fds_facts(1,2) _ busy_fds_facts(3)] show ?thesis by fastforce
qed

text \<open>A descriptor survives the deletion of its file and follows the reuse of the node: once
  \<open>a\<close> is unlinked and a new file \<open>b\<close> gets its node, the old descriptor reads and writes \<open>b\<close>.\<close>

theorem fs_stale_descriptor:
  assumes "fs_inv s" "fd_ok fd s" "links s (current_dir s, cstr a) = Some i"
    and "node_idx (the_fd fd s) = int i"
    and "fs_unlink a s = (s1, Inr 0)" "fs_create_file now (Some b) s1 = Some (s2, Inr 0)"
    and "\<forall>j. 1 \<le> j \<and> j < i \<longrightarrow> in_use (fs_nodes s ! j)"
  shows "fd_ok fd s2 \<and> the_fd fd s2 = the_fd fd s \<and> links s2 (current_dir s, cstr b) = Some i
    \<and> fd_node fd s2 = fs_nodes s2 ! i"
proof -
  have i: "find_node a s = Some i" using assms(1,3) by (simp add: links_cwd)
  note e = find_node_entry [OF fs_inv_tree [OF assms(1)] i]
  have s1: "s1 = set_node i ((fs_nodes s ! i)\<lparr>in_use := False\<rparr>) s"
    using assms(5) i by (auto simp: fs_unlink_def split: if_splits)
  have len: "length (fs_nodes s) = 64" using assms(1) by (simp add: fs_shapeD)
  then have free: "find_free_node s1 = Some i"
    using e(2,3) assms(7) by (auto simp: find_free_node_def first_from_Some_iff s1)
  have inv1: "fs_inv s1" using fs_unlink_inv [OF assms(1), of a] assms(5) by simp
  have ok: "cstr b \<noteq> []" "length (cstr b) < 32" "find_node b s1 = None"
    "s2 = set_node i (new_file now b (current_dir s1) (fs_nodes s1 ! i)) s1"
    using assms(6) free inv1 by (auto simp: fs_create_file_eq split: if_splits)
  note new = add_node_inv(2) [OF inv1 ok(3) free ok(2,1), of now, folded ok(4)]
  have "find_node b s2 = Some i"
    using find_node_add(1) [OF inv1 ok(3) free ok(2,1), of now] by (simp add: ok(4))
  then show ?thesis
    using links_cwd [OF fs_inv_tree [OF new], of b] assms(2,4)
    by (simp add: ok(4) s1 fd_ok_def the_fd_def fd_node_def)
qed

theorem fs_stale_descriptor_witness:
  "\<exists>s1 s2. fs_unlink (bytes ''a'') one_open = (s1, Inr 0)
    \<and> fs_create_file 0 (Some (bytes ''b'')) s1 = Some (s2, Inr 0)
    \<and> fd_ok 0 s2 \<and> links s2 (0, bytes ''b'') = Some (nat (node_idx (the_fd 0 s2)))"
proof -
  have find: "find_node nm one_open = find_node nm one_file" for nm
    by (simp add: one_open_def find_node_def)
  have nodes: "fs_nodes one_open = fs_nodes one_file" "current_dir one_open = 0"
    by (simp_all add: one_open_def)
  define s1 where "s1 = set_node 1 ((fs_nodes one_file ! 1)\<lparr>in_use := False\<rparr>) one_open"
  have un: "fs_unlink (bytes ''a'') one_open = (s1, Inr 0)"
    using one_file_find(1) one_file_node
    by (simp add: fs_unlink_def find nodes init_node_simps s1_def del: bytes_simps(1,2))
  have inv1: "fs_inv s1" using fs_unlink_inv [OF one_open_facts(1), of "bytes ''a''"] un by simp
  have "find_node (bytes ''b'') one_file = None" by (rule one_file_find(2)) simp_all
  then have none: "find_node (bytes ''b'') s1 = None"
    unfolding find_node_def first_from_None_iff
    by (auto simp: s1_def nodes nth_list_update fs_shapeD simp del: bytes_simps(1,2))
  have len: "length (fs_nodes one_file) = 64" by (simp add: fs_shapeD)
  then have free: "find_free_node s1 = Some 1"
    by (simp add: find_free_node_def first_from_Some_iff s1_def nodes)
  obtain s2 where s2: "fs_create_file 0 (Some (bytes ''b'')) s1 = Some (s2, Inr 0)"
    using inv1 none free by (simp add: fs_create_file_eq del: bytes_simps(1,2))
  have "links one_open (current_dir one_open, cstr (bytes ''a'')) = Some 1"
    using one_file_links by (simp add: one_open_def del: bytes_simps(1,2))
  then have "fd_ok 0 s2 \<and> the_fd 0 s2 = the_fd 0 one_open \<and> links s2 (0, cstr (bytes ''b'')) = Some 1
      \<and> fd_node 0 s2 = fs_nodes s2 ! 1"
    using fs_stale_descriptor [OF one_open_facts(1,2) _ _ un s2, of 1] one_open_facts(3)
    by (simp add: nodes open_rw_def)
  with un s2 one_open_facts(3) show ?thesis
    by (intro exI [of _ s1] exI [of _ s2]) (simp add: open_rw_def)
qed

text \<open>A write that starts beyond the end of the file does not zero the gap: the bytes between the
  old end and the write are whatever the node's array held, and become part of the file. Neither
  \<open>fs_create_file\<close> nor O_TRUNC clears that array beyond its first byte.\<close>

theorem fs_write_fd_hole:
  assumes "fs_inv s" "fd_ok fd s" "flags (the_fd fd s) AND 3 \<noteq> O_RDONLY" "unat len \<le> length buf"
    and "flags (the_fd fd s) AND O_APPEND = 0" "off = unat (offset (the_fd fd s))"
    and "sz = unat (node_size (fd_node fd s))" "sz < off" "off + unat len \<le> 4095" "0 < unat len"
  shows "\<exists>s'. fs_write_fd fd (Some buf) len s = Some (s', Inr (unat len))
    \<and> content (fd_node fd s') = content (fd_node fd s)
        @ take (off - sz) (drop sz (data (fd_node fd s))) @ take (unat len) buf"
proof -
  define f where "f = the_fd fd s"
  define n where "n = fd_node fd s"
  have shape: "fs_shape s" using assms by simp
  note ok = fd_okD [OF shape assms(2), folded the_fd_def, folded f_def]
  note b = write_bounds [OF shape assms(2), folded the_fd_def, folded fd_node_def, folded f_def n_def]
  have off: "write_off f n = off" using assms(5,6) by (simp add: write_off_def f_def)
  then have k: "write_len f n len = unat len" using assms(9) by (simp add: write_len_def)
  then have kb: "write_len f n len \<le> length buf" using assms(4) by simp
  have "flags f AND 3 \<noteq> 0" using assms(3) by (simp add: f_def)
  note eq = fs_write_fd_eq [OF shape assms(2), folded the_fd_def, folded fd_node_def, folded f_def n_def,
      OF this kb]
  have sz: "unat (node_size n) = sz" by (simp add: assms(7) n_def)
  have "content (written f n len buf) = take off (data n) @ take (unat len) buf"
    unfolding content_written [OF b(2) b(3) b(4) kb] off k sz
    using assms(4,8,9) b(4) by (simp add: overwrite_def max_def)
  also have "take off (data n) = content n @ take (off - sz) (drop sz (data n))"
    using assms(8) by (simp add: content_def sz flip: take_add)
  finally have c: "content (written f n len buf) =
      content n @ take (off - sz) (drop sz (data n)) @ take (unat len) buf" by simp
  have len: "length (fs_nodes s) = 64" "length (fs_fd_table s) = 16" using shape by (simp_all add: fs_shapeD)
  have "off \<noteq> 4095" using assms(9,10) by simp
  with eq c ok(1,2,4) len show ?thesis
    unfolding off k n_def [symmetric] by (simp add: fd_node_def the_fd_def)
qed

definition hole_open :: fs where
  "hole_open = set_fd 0 (open_rw\<lparr>offset := 2\<rparr>) (truncated O_TRUNC 1 one_file)"

theorem fs_write_fd_hole_witness:
  "\<exists>s'. fs_write_fd 0 (Some (bytes ''!'')) 1 hole_open = Some (s', Inr 1)
    \<and> content (fd_node 0 s') = [0] @ bytes ''y!''"
proof -
  have len: "length (fs_nodes one_file) = 64" "length (fs_fd_table one_file) = 16"
    "length (data (fs_nodes one_file ! 1)) = 4096"
    by (simp_all add: fs_shapeD del: One_nat_def)
  have "fs_inv (truncated O_TRUNC 1 one_file)"
    unfolding truncated_def using set_data_inv [OF one_file_inv(1), of 1] len(3) by simp
  then have inv: "fs_inv hole_open"
    unfolding hole_open_def by (rule set_fd_inv) (simp add: fd_wf_def open_rw_def)
  have fd: "the_fd 0 hole_open = open_rw\<lparr>offset := 2\<rparr>"
    using len by (simp add: hole_open_def the_fd_def)
  then have ok: "fd_ok 0 hole_open" by (simp add: fd_ok_def the_fd_def open_rw_def)
  have n: "fd_node 0 hole_open = (fs_nodes one_file ! 1)\<lparr>data := (data (fs_nodes one_file ! 1))[0 := 0], node_size := 0\<rparr>"
    using len fd by (simp add: fd_node_def hole_open_def open_rw_def truncated_def)
  have "take 2 (data (fs_nodes one_file ! 1)) = bytes ''xy''"
  proof -
    have "take 3 (data (fs_nodes one_file ! 1)) = bytes ''xyz''"
      using one_open_facts(5,6) unfolding one_file_node(1) content_def by simp
    then have "take 2 (take 3 (data (fs_nodes one_file ! 1))) = take 2 (bytes ''xyz'')" by simp
    then show ?thesis by (simp add: numeral_2_eq_2)
  qed
  then have "take 2 ((data (fs_nodes one_file ! 1))[0 := 0]) = [0] @ bytes ''y''"
    by (simp add: take_update_swap)
  then have gap: "take 2 (data (fd_node 0 hole_open)) = [0] @ bytes ''y''"
    unfolding n by simp
  have c: "content (fd_node 0 hole_open) = []" "unat (node_size (fd_node 0 hole_open)) = 0"
    by (simp_all add: n content_def)
  have "\<exists>s'. fs_write_fd 0 (Some (bytes ''!'')) 1 hole_open = Some (s', Inr (unat (1 :: u32)))
    \<and> content (fd_node 0 s') = content (fd_node 0 hole_open)
        @ take (2 - 0) (drop 0 (data (fd_node 0 hole_open))) @ take (unat (1 :: u32)) (bytes ''!'')"
    by (rule fs_write_fd_hole [OF inv ok]) (simp_all add: fd c(2), simp_all add: open_rw_def)
  then show ?thesis
    by (simp only: c(1) diff_zero drop_0 gap) simp
qed

end
