(* ===== verification/Interfaces.thy ===== *)
theory Interfaces
  imports Prelude
begin

text \<open>
  The contracts between components. Each locale fixes the operations a client calls and
  assumes the laws their provider promises; the client's lemmas are proved here once, and the
  provider's theory interprets the locale on its own definitions.

  \<^item> \<open>page_source\<close>: the page allocator, as the process table uses it for kernel stacks
    (provider \<^verbatim>\<open>src/pmm.c\<close>, client \<^verbatim>\<open>src/process.c\<close>).
  \<^item> \<open>bounded_fifo\<close>: the keyboard buffer, filled by the interrupt handler and drained by
    every reader (provider \<^verbatim>\<open>src/keyboard.c\<close>, client \<open>sys_read\<close>).
\<close>

section \<open>Page allocation\<close>

locale page_source =
  fixes alloc :: "'s \<Rightarrow> 's \<times> u32"
    and free :: "u32 \<Rightarrow> 's \<Rightarrow> 's"
    and owned :: "'s \<Rightarrow> u32 set"
    and inv :: "'s \<Rightarrow> bool"
  assumes alloc_new: "inv s \<Longrightarrow> alloc s = (s', a) \<Longrightarrow> a \<noteq> 0 \<Longrightarrow>
      a \<notin> owned s \<and> owned s' = insert a (owned s) \<and> inv s'"
    and alloc_none: "inv s \<Longrightarrow> alloc s = (s', 0) \<Longrightarrow> s' = s"
    and free_owned: "inv s \<Longrightarrow> a \<in> owned s \<Longrightarrow>
      owned (free a s) = owned s - {a} \<and> inv (free a s)"
begin

text \<open>
  A client holds pages in the cells of a table (0: no page). Its cells are sound when the
  pages they hold are distinct and owned.
\<close>

definition cells_ok :: "'s \<Rightarrow> u32 list \<Rightarrow> bool" where
  "cells_ok s cs \<longleftrightarrow> inv s
     \<and> (\<forall>i < length cs. cs ! i \<noteq> 0 \<longrightarrow> cs ! i \<in> owned s)
     \<and> (\<forall>i < length cs. \<forall>j < length cs. i \<noteq> j \<longrightarrow> cs ! i \<noteq> 0 \<longrightarrow> cs ! i \<noteq> cs ! j)"

lemma cells_alloc:
  assumes "cells_ok s cs" "alloc s = (s', a)" "a \<noteq> 0" "i < length cs"
  shows "cells_ok s' (cs[i := a])"
proof -
  from assms alloc_new have new: "a \<notin> owned s" "owned s' = insert a (owned s)" "inv s'"
    by (auto simp: cells_ok_def)
  with assms show ?thesis
    by (auto simp: cells_ok_def nth_list_update)
qed

lemma cells_alloc_none: "cells_ok s cs \<Longrightarrow> alloc s = (s', 0) \<Longrightarrow> s' = s"
  by (auto simp: cells_ok_def dest: alloc_none)

lemma cells_clear: "cells_ok s cs \<Longrightarrow> cells_ok s (cs[i := 0])"
  by (cases "i < length cs") (auto simp: cells_ok_def nth_list_update)

lemma cells_free:
  assumes "cells_ok s cs" "i < length cs" "cs ! i \<noteq> 0"
  shows "cells_ok (free (cs ! i) s) (cs[i := 0])"
proof -
  from assms free_owned have "owned (free (cs ! i) s) = owned s - {cs ! i}" "inv (free (cs ! i) s)"
    by (auto simp: cells_ok_def)
  with assms show ?thesis
    by (auto simp: cells_ok_def nth_list_update)
qed

end

section \<open>A bounded first-in first-out buffer\<close>

text \<open>\<open>n\<close> elements taken out one after the other.\<close>

fun pops :: "('q \<Rightarrow> ('q \<times> 'a) option) \<Rightarrow> nat \<Rightarrow> 'q \<Rightarrow> ('q \<times> 'a list) option" where
  "pops pop 0 q = Some (q, [])"
| "pops pop (Suc n) q =
     (case pop q of None \<Rightarrow> None
      | Some (q', x) \<Rightarrow> (case pops pop n q' of None \<Rightarrow> None | Some (q'', xs) \<Rightarrow> Some (q'', x # xs)))"

locale bounded_fifo =
  fixes push :: "'a \<Rightarrow> 'q \<Rightarrow> 'q"
    and pop :: "'q \<Rightarrow> ('q \<times> 'a) option"
    and contents :: "'q \<Rightarrow> 'a list"
    and capacity :: nat
    and inv :: "'q \<Rightarrow> bool"
  assumes push_inv: "inv q \<Longrightarrow> inv (push x q)"
    and push_contents: "inv q \<Longrightarrow>
      contents (push x q) = (if length (contents q) < capacity then contents q @ [x] else contents q)"
    and pop_none: "inv q \<Longrightarrow> pop q = None \<longleftrightarrow> contents q = []"
    and pop_some: "inv q \<Longrightarrow> pop q = Some (q', x) \<Longrightarrow> contents q = x # contents q' \<and> inv q'"
begin

lemma push_all_inv: "inv q \<Longrightarrow> inv (fold push xs q)"
  by (induction xs arbitrary: q) (auto intro: push_inv)

lemma push_all_contents:
  "inv q \<Longrightarrow> length (contents q) \<le> capacity \<Longrightarrow>
     contents (fold push xs q) = take capacity (contents q @ xs)"
proof (induction xs arbitrary: q)
  case (Cons x xs)
  show ?case
  proof (cases "length (contents q) < capacity")
    case True
    with Cons show ?thesis by (simp add: push_contents push_inv take_Cons')
  next
    case False
    with Cons show ?thesis by (simp add: push_contents push_inv)
  qed
qed simp

lemma pops_contents:
  "inv q \<Longrightarrow> n \<le> length (contents q) \<Longrightarrow>
     \<exists>q'. pops pop n q = Some (q', take n (contents q)) \<and> inv q' \<and> contents q' = drop n (contents q)"
proof (induction n arbitrary: q)
  case (Suc n)
  from Suc.prems have "pop q \<noteq> None" by (auto simp: pop_none)
  then obtain q' x where pop: "pop q = Some (q', x)" by auto
  from pop_some [OF Suc.prems(1) pop] have q': "contents q = x # contents q'" "inv q'" by auto
  with Suc obtain q'' where "pops pop n q' = Some (q'', take n (contents q'))" "inv q''"
    "contents q'' = drop n (contents q')" by fastforce
  with pop q' show ?case by simp
qed simp

text \<open>What the buffer is for: it hands back, in order, what was put into it.\<close>

lemma fifo_roundtrip:
  assumes "inv q" "contents q = []" "length xs \<le> capacity"
  shows "\<exists>q'. pops pop (length xs) (fold push xs q) = Some (q', xs) \<and> contents q' = []"
proof -
  have "contents (fold push xs q) = xs"
    using assms push_all_contents [of q xs] by simp
  with pops_contents [OF push_all_inv [OF assms(1)], of "length xs" xs]
  show ?thesis by auto
qed

end

end
