(* ===== verification/Pmm.thy ===== *)
theory Pmm
  imports Interfaces
begin

text \<open>
  The physical memory manager \<^verbatim>\<open>src/pmm.c\<close>: one bit per 4 KB page for the first 128 MB, set
  when the page is in use. The state \<open>pmm\<close> holds the file's three static variables. The
  multiboot memory map is read from the machine's memory \<open>mem\<close>, which the boot loader filled;
  \<open>kernel_end\<close> is the address of the linker's symbol \<^verbatim>\<open>_kernel_end\<close>. The two loops of
  \<open>pmm_init\<close> whose end depends on those values are partial functions (\<open>None\<close>: the loop
  never ends).
\<close>

section \<open>Definitions\<close>

record pmm =
  bitmap :: "u8 list"
  total_pages :: u32
  used_pages :: u32

definition pmm_set_bit :: "u32 \<Rightarrow> pmm \<Rightarrow> pmm" where
  "pmm_set_bit page p =
     p\<lparr>bitmap := (bitmap p)[unat (page div 8) :=
         bitmap p ! unat (page div 8) OR push_bit (unat (page mod 8)) 1]\<rparr>"

definition pmm_clear_bit :: "u32 \<Rightarrow> pmm \<Rightarrow> pmm" where
  "pmm_clear_bit page p =
     p\<lparr>bitmap := (bitmap p)[unat (page div 8) :=
         bitmap p ! unat (page div 8) AND NOT (push_bit (unat (page mod 8)) 1)]\<rparr>"

definition pmm_test_bit :: "u32 \<Rightarrow> pmm \<Rightarrow> bool" where
  "pmm_test_bit page p \<longleftrightarrow>
     bitmap p ! unat (page div 8) AND push_bit (unat (page mod 8)) 1 \<noteq> 0"

subsection \<open>Initialisation\<close>

text \<open>The multiboot structures of \<^verbatim>\<open>src/multiboot.h\<close>, packed and little-endian.\<close>

record multiboot_info =
  mbi_flags :: u32
  mbi_mem_lower :: u32
  mbi_mem_upper :: u32
  mbi_mmap_length :: u32
  mbi_mmap_addr :: u32

record mmap_entry =
  me_size :: u32
  me_addr :: u64
  me_len :: u64
  me_type :: u32

definition le32 :: "(u32 \<Rightarrow> u8) \<Rightarrow> u32 \<Rightarrow> u32" where
  "le32 mem a = ucast (mem a) OR push_bit 8 (ucast (mem (a + 1)))
     OR push_bit 16 (ucast (mem (a + 2))) OR push_bit 24 (ucast (mem (a + 3)))"

definition le64 :: "(u32 \<Rightarrow> u8) \<Rightarrow> u32 \<Rightarrow> u64" where
  "le64 mem a = ucast (le32 mem a) OR push_bit 32 (ucast (le32 mem (a + 4)))"

definition read_entry :: "(u32 \<Rightarrow> u8) \<Rightarrow> u32 \<Rightarrow> mmap_entry" where
  "read_entry mem a =
     \<lparr>me_size = le32 mem a, me_addr = le64 mem (a + 4), me_len = le64 mem (a + 12),
      me_type = le32 mem (a + 20)\<rparr>"

definition free_step :: "u32 \<Rightarrow> pmm \<Rightarrow> pmm" where
  "free_step addr p =
     (let page = addr div 4096 in
      if page < 32768 \<and> page > 0
      then (pmm_clear_bit page p)\<lparr>used_pages := used_pages p - 1\<rparr> else p)"

partial_function (option) free_range :: "u32 \<Rightarrow> u32 \<Rightarrow> pmm \<Rightarrow> pmm option" where
  "free_range addr end_addr p =
     (if addr < end_addr then free_range (addr + 4096) end_addr (free_step addr p) else Some p)"

definition region_start :: "mmap_entry \<Rightarrow> u32" where
  "region_start e = (ucast (me_addr e) + 4096 - 1) AND NOT 4095"

definition region_end :: "mmap_entry \<Rightarrow> u32" where
  "region_end e = (ucast (me_addr e) + ucast (me_len e)) AND NOT 4095"

definition free_region :: "mmap_entry \<Rightarrow> pmm \<Rightarrow> pmm option" where
  "free_region e p =
     (if me_type e = 1 then free_range (region_start e) (region_end e) p else Some p)"

partial_function (option) mmap_walk :: "(u32 \<Rightarrow> u8) \<Rightarrow> u32 \<Rightarrow> u32 \<Rightarrow> pmm \<Rightarrow> pmm option" where
  "mmap_walk mem entry mmap_end p =
     (if entry < mmap_end
      then do { p' \<leftarrow> free_region (read_entry mem entry) p;
                mmap_walk mem (entry + me_size (read_entry mem entry) + 4) mmap_end p' }
      else Some p)"

definition reserve_page :: "nat \<Rightarrow> pmm \<Rightarrow> pmm" where
  "reserve_page i p =
     (if \<not> pmm_test_bit (of_nat i) p
      then (pmm_set_bit (of_nat i) p)\<lparr>used_pages := used_pages p + 1\<rparr> else p)"

definition pmm_init :: "(u32 \<Rightarrow> u8) \<Rightarrow> u32 \<Rightarrow> multiboot_info \<Rightarrow> pmm option" where
  "pmm_init mem kernel_end mbi =
     (let total_kb = mbi_mem_lower mbi + mbi_mem_upper mbi + 1024;
          total = total_kb div 4;
          p0 = \<lparr>bitmap = replicate 4096 0xFF,
                total_pages = (if total > 32768 then 32768 else total),
                used_pages = 32768\<rparr>;
          kernel_end_page = kernel_end div 4096 + 1
      in do {
        p1 \<leftarrow> (if mbi_flags mbi AND push_bit 6 1 \<noteq> 0
              then mmap_walk mem (mbi_mmap_addr mbi) (mbi_mmap_addr mbi + mbi_mmap_length mbi) p0
              else Some p0);
        Some (fold reserve_page [256 ..< min (Suc (unat kernel_end_page)) 32768]
               (fold reserve_page [0 ..< 256] p1))
      })"

subsection \<open>Allocation, release, statistics\<close>

function scan_free :: "u8 list \<Rightarrow> nat \<Rightarrow> u32 option" where
  "scan_free bm i =
     (if i < 4096
      then if bm ! i \<noteq> 0xFF
           then (case first_from (\<lambda>k. bm ! i AND push_bit k 1 = 0) 0 8 of
                   Some k \<Rightarrow> Some (of_nat i * 8 + of_nat k)
                 | None \<Rightarrow> scan_free bm (Suc i))
           else scan_free bm (Suc i)
      else None)"
  by pat_completeness auto
termination
  by (relation "measure (\<lambda>(bm, i). 4096 - i)") auto

declare scan_free.simps [simp del]

definition pmm_alloc_page :: "pmm \<Rightarrow> pmm \<times> u32" where
  "pmm_alloc_page p =
     (case scan_free (bitmap p) 0 of
        Some page \<Rightarrow> ((pmm_set_bit page p)\<lparr>used_pages := used_pages p + 1\<rparr>, page * 4096)
      | None \<Rightarrow> (p, 0))"

definition pmm_free_page :: "u32 \<Rightarrow> pmm \<Rightarrow> pmm" where
  "pmm_free_page addr p =
     (let page = addr div 4096 in
      if page < 32768 \<and> pmm_test_bit page p
      then (pmm_clear_bit page p)\<lparr>used_pages := used_pages p - 1\<rparr> else p)"

definition pmm_get_total_pages :: "pmm \<Rightarrow> u32" where
  "pmm_get_total_pages p = total_pages p"

definition pmm_get_used_pages :: "pmm \<Rightarrow> u32" where
  "pmm_get_used_pages p = used_pages p"

definition pmm_get_free_pages :: "pmm \<Rightarrow> u32" where
  "pmm_get_free_pages p =
     (if total_pages p > used_pages p then total_pages p - used_pages p else 0)"

definition pmm_get_total_memory_kb :: "pmm \<Rightarrow> u32" where
  "pmm_get_total_memory_kb p = total_pages p * 4"

section \<open>The bitmap as a set of pages\<close>

definition page_used :: "pmm \<Rightarrow> nat \<Rightarrow> bool" where
  "page_used p n \<longleftrightarrow> bit (bitmap p ! (n div 8)) (n mod 8)"

definition used_set :: "pmm \<Rightarrow> nat set" where
  "used_set p = {n. n < 32768 \<and> page_used p n}"

text \<open>The invariant: the bitmap has its size and the counter counts its set bits.\<close>

definition pmm_wf :: "pmm \<Rightarrow> bool" where
  "pmm_wf p \<longleftrightarrow> length (bitmap p) = 4096 \<and> unat (used_pages p) = card (used_set p)"

lemma and_bit_mask_eq_0: "(w :: u8) AND push_bit k 1 = 0 \<longleftrightarrow> \<not> bit w k"
  by (simp add: and_exp_eq_0_iff_not_bit)

lemma unat_div8: "unat ((x :: u32) div 8) = unat x div 8"
  by (simp add: unat_div)

lemma unat_mod8: "unat ((x :: u32) mod 8) = unat x mod 8"
  by (simp add: unat_mod)

lemma same_byte_bit: "(n :: nat) div 8 = m div 8 \<Longrightarrow> n mod 8 = m mod 8 \<Longrightarrow> n = m"
  by (metis div_mult_mod_eq)

lemma length_bitmap [simp]:
  "length (bitmap (pmm_set_bit page p)) = length (bitmap p)"
  "length (bitmap (pmm_clear_bit page p)) = length (bitmap p)"
  by (simp_all add: pmm_set_bit_def pmm_clear_bit_def)

lemma pmm_bit_frame [simp]:
  "used_pages (pmm_set_bit page p) = used_pages p"
  "total_pages (pmm_set_bit page p) = total_pages p"
  "used_pages (pmm_clear_bit page p) = used_pages p"
  "total_pages (pmm_clear_bit page p) = total_pages p"
  by (simp_all add: pmm_set_bit_def pmm_clear_bit_def)

lemma page_used_update [simp]:
  "page_used (p\<lparr>used_pages := u\<rparr>) n = page_used p n"
  "page_used (p\<lparr>total_pages := u\<rparr>) n = page_used p n"
  "used_set (p\<lparr>used_pages := u\<rparr>) = used_set p"
  by (simp_all add: page_used_def used_set_def)

lemma pmm_test_bit_eq: "pmm_test_bit page p \<longleftrightarrow> page_used p (unat page)"
  by (simp add: pmm_test_bit_def page_used_def unat_div8 unat_mod8 and_exp_eq_0_iff_not_bit)

lemma page_used_set_bit:
  assumes "length (bitmap p) = 4096" "unat page < 32768" "n < 32768"
  shows "page_used (pmm_set_bit page p) n \<longleftrightarrow> n = unat page \<or> page_used p n"
proof (cases "n div 8 = unat page div 8")
  case True
  with assms same_byte_bit [of n "unat page"] show ?thesis
    by (auto simp: page_used_def pmm_set_bit_def unat_div8 unat_mod8 bit_simps)
next
  case False
  with assms show ?thesis
    by (auto simp: page_used_def pmm_set_bit_def unat_div8 unat_mod8)
qed

lemma page_used_clear_bit:
  assumes "length (bitmap p) = 4096" "unat page < 32768" "n < 32768"
  shows "page_used (pmm_clear_bit page p) n \<longleftrightarrow> n \<noteq> unat page \<and> page_used p n"
proof (cases "n div 8 = unat page div 8")
  case True
  with assms same_byte_bit [of n "unat page"] show ?thesis
    by (auto simp: page_used_def pmm_clear_bit_def unat_div8 unat_mod8 bit_simps)
next
  case False
  with assms show ?thesis
    by (auto simp: page_used_def pmm_clear_bit_def unat_div8 unat_mod8)
qed

lemma used_set_set_bit:
  "length (bitmap p) = 4096 \<Longrightarrow> unat page < 32768 \<Longrightarrow>
     used_set (pmm_set_bit page p) = insert (unat page) (used_set p)"
  by (auto simp: used_set_def page_used_set_bit)

lemma used_set_clear_bit:
  "length (bitmap p) = 4096 \<Longrightarrow> unat page < 32768 \<Longrightarrow>
     used_set (pmm_clear_bit page p) = used_set p - {unat page}"
  by (auto simp: used_set_def page_used_clear_bit)

lemma finite_used_set [simp]: "finite (used_set p)"
  by (simp add: used_set_def)

lemma card_used_set: "card (used_set p) \<le> 32768"
proof -
  have "card (used_set p) \<le> card {..< 32768 :: nat}"
    by (rule card_mono) (auto simp: used_set_def)
  then show ?thesis by simp
qed

section \<open>Allocation and release\<close>

lemma byte_full_iff: "(w :: u8) = 0xFF \<longleftrightarrow> (\<forall>k < 8. bit w k)"
proof
  assume "\<forall>k < 8. bit w k"
  then have "w = - 1"
    by (intro bit_word_eqI) (simp add: bit_simps)
  then show "w = 0xFF" by simp
next
  assume "w = 0xFF"
  then have "w = - 1" by simp
  then show "\<forall>k < 8. bit w k" by (simp add: bit_simps)
qed

lemma unat_page_index:
  "i < 4096 \<Longrightarrow> k < 8 \<Longrightarrow> unat (of_nat i * 8 + of_nat k :: u32) = i * 8 + k"
proof -
  assume "i < 4096" "k < 8"
  moreover have "(of_nat i * 8 + of_nat k :: u32) = of_nat (i * 8 + k)" by simp
  ultimately show ?thesis
    by (simp del: of_nat_add of_nat_mult)
qed

lemma scan_free_Some:
  assumes "scan_free bm i = Some page"
  shows "unat page < 32768 \<and> \<not> bit (bm ! (unat page div 8)) (unat page mod 8)
    \<and> (\<forall>n. i * 8 \<le> n \<and> n < unat page \<longrightarrow> bit (bm ! (n div 8)) (n mod 8))"
  using assms
proof (induction bm i rule: scan_free.induct)
  case (1 bm i)
  consider (no) "\<not> i < 4096" | (skip) "i < 4096" "bm ! i = 0xFF"
    | (hit) k where "i < 4096" "first_from (\<lambda>k. bm ! i AND push_bit k 1 = 0) 0 8 = Some k"
    | (miss) "i < 4096" "first_from (\<lambda>k. bm ! i AND push_bit k 1 = 0) 0 8 = None" "bm ! i \<noteq> 0xFF"
    by (cases "first_from (\<lambda>k. bm ! i AND push_bit k 1 = 0) 0 8") auto
  then show ?case
  proof cases
    case no
    with 1 show ?thesis by (simp add: scan_free.simps [of bm i])
  next
    case skip
    with 1 have IH: "unat page < 32768" "\<not> bit (bm ! (unat page div 8)) (unat page mod 8)"
      "\<forall>n. Suc i * 8 \<le> n \<and> n < unat page \<longrightarrow> bit (bm ! (n div 8)) (n mod 8)"
      by (simp_all add: scan_free.simps [of bm i])
    have "bit (bm ! (n div 8)) (n mod 8)" if "i * 8 \<le> n" "n < Suc i * 8" for n
    proof -
      from that have "n div 8 = i" by simp
      with skip show ?thesis by (simp add: byte_full_iff)
    qed
    with IH show ?thesis by (meson not_less)
  next
    case (hit k)
    from first_from_SomeD [OF hit(2)]
    have k: "k < 8" "\<not> bit (bm ! i) k" "\<forall>j < k. bit (bm ! i) j"
      by (auto simp: and_bit_mask_eq_0 simp del: push_bit_of_1)
    then have "bm ! i \<noteq> 0xFF" by (auto simp: byte_full_iff)
    with 1 hit have "page = of_nat i * 8 + of_nat k"
      by (simp add: scan_free.simps [of bm i])
    with hit k have page: "unat page = i * 8 + k" by (simp add: unat_page_index)
    have "bit (bm ! (n div 8)) (n mod 8)" if "i * 8 \<le> n" "n < i * 8 + k" for n
    proof -
      from that k(1) have "n div 8 = i" by simp
      moreover from this that have "n mod 8 < k" by (metis add_less_cancel_left div_mult_mod_eq)
      ultimately show ?thesis using k by simp
    qed
    with page hit k show ?thesis by simp
  next
    case miss
    then have "\<forall>j < 8. bit (bm ! i) j"
      by (auto simp: first_from_None_iff and_bit_mask_eq_0 simp del: push_bit_of_1)
    with miss show ?thesis by (simp add: byte_full_iff)
  qed
qed

lemma scan_free_None:
  assumes "scan_free bm i = None"
  shows "\<forall>n. i * 8 \<le> n \<and> n < 32768 \<longrightarrow> bit (bm ! (n div 8)) (n mod 8)"
  using assms
proof (induction bm i rule: scan_free.induct)
  case (1 bm i)
  show ?case
  proof (cases "i < 4096")
    case True
    with 1(3) have full: "bm ! i = 0xFF \<or> (\<forall>j < 8. bit (bm ! i) j)"
      by (auto simp: scan_free.simps [of bm i] first_from_None_iff and_bit_mask_eq_0
        simp del: push_bit_of_1 split: if_splits option.splits)
    with 1 True have IH: "\<forall>n. Suc i * 8 \<le> n \<and> n < 32768 \<longrightarrow> bit (bm ! (n div 8)) (n mod 8)"
      by (auto simp: scan_free.simps [of bm i] byte_full_iff split: if_splits option.splits)
    have "bit (bm ! (n div 8)) (n mod 8)" if "i * 8 \<le> n" "n < Suc i * 8" for n
    proof -
      from that have "n div 8 = i" by simp
      with full show ?thesis by (auto simp: byte_full_iff)
    qed
    with IH show ?thesis by (meson not_less)
  next
    case False
    then show ?thesis by (auto simp del: div_less mod_less)
  qed
qed

lemma pmm_wf_length [simp]: "pmm_wf p \<Longrightarrow> length (bitmap p) = 4096"
  by (simp add: pmm_wf_def)

lemma unat_u32_plus_1: "unat (x :: u32) < 4294967295 \<Longrightarrow> unat (x + 1) = Suc (unat x)"
  by (simp add: unat_word_ariths)

lemma unat_u32_minus_1: "0 < unat (x :: u32) \<Longrightarrow> unat (x - 1) = unat x - 1"
  by (metis Suc_diff_1 Suc_pred' add_diff_cancel_left' diff_add_cancel nat_neq_iff
      not_less_zero plus_1_eq_Suc unat_0 unat_minus_one)

lemma unat_page_addr: "unat page < 32768 \<Longrightarrow> unat ((page :: u32) * 4096) = unat page * 4096"
  by (simp add: unat_word_ariths)

lemma unat_page_of: "unat ((a :: u32) div 4096) = unat a div 4096"
  by (simp add: unat_div)

lemma pmm_wf_claim:
  assumes "pmm_wf p" "unat page < 32768" "unat page \<notin> used_set p"
  shows "pmm_wf ((pmm_set_bit page p)\<lparr>used_pages := used_pages p + 1\<rparr>)"
proof -
  have "unat (used_pages p) < 4294967295"
    using assms(1) card_used_set [of p] by (simp add: pmm_wf_def)
  then have "unat (used_pages p + 1) = Suc (card (used_set p))"
    using assms(1) by (simp add: unat_u32_plus_1 pmm_wf_def)
  with assms show ?thesis
    by (simp add: pmm_wf_def used_set_set_bit)
qed

lemma pmm_wf_release:
  assumes "pmm_wf p" "unat page < 32768" "unat page \<in> used_set p"
  shows "pmm_wf ((pmm_clear_bit page p)\<lparr>used_pages := used_pages p - 1\<rparr>)"
proof -
  from assms(3) have "0 < card (used_set p)"
    by (metis card_gt_0_iff empty_iff finite_used_set)
  with assms(1) have "unat (used_pages p - 1) = card (used_set p) - 1"
    by (simp add: unat_u32_minus_1 pmm_wf_def)
  with assms show ?thesis
    by (simp add: pmm_wf_def used_set_clear_bit)
qed

lemma pmm_alloc_cases:
  assumes "pmm_wf p" "pmm_alloc_page p = (p', a)"
  obtains (full) "used_set p = {..< 32768}" "p' = p" "a = 0"
    | (page) page where "unat page < 32768" "unat page \<notin> used_set p"
        "\<And>n. n < unat page \<Longrightarrow> n \<in> used_set p"
        "a = page * 4096" "p' = (pmm_set_bit page p)\<lparr>used_pages := used_pages p + 1\<rparr>"
proof (cases "scan_free (bitmap p) 0")
  case None
  from scan_free_None [OF this] have "used_set p = {..< 32768}"
    by (auto simp: used_set_def page_used_def)
  with None assms show ?thesis by (intro full) (simp_all add: pmm_alloc_page_def)
next
  case (Some page)
  note sf = scan_free_Some [OF Some]
  show ?thesis
  proof (rule page)
    show "unat page < 32768" using sf by simp
    show "unat page \<notin> used_set p" using sf by (simp add: used_set_def page_used_def)
    show "\<And>n. n < unat page \<Longrightarrow> n \<in> used_set p"
      using sf by (simp add: used_set_def page_used_def)
  qed (use assms Some in \<open>simp_all add: pmm_alloc_page_def\<close>)
qed

text \<open>
  What the allocator promises, over the set of used pages: the least free page, or nothing
  when all are used.
\<close>

definition alloc_spec :: "nat set \<Rightarrow> nat option" where
  "alloc_spec U = (if {..< 32768} \<subseteq> U then None else Some (LEAST n. n \<notin> U))"

lemma pmm_alloc_page_refines:
  assumes "pmm_wf p"
  shows "case alloc_spec (used_set p) of
      None \<Rightarrow> pmm_alloc_page p = (p, 0)
    | Some n \<Rightarrow> n < 32768 \<and> unat (snd (pmm_alloc_page p)) = n * 4096
        \<and> used_set (fst (pmm_alloc_page p)) = insert n (used_set p)
        \<and> pmm_wf (fst (pmm_alloc_page p))"
  using assms prod.collapse [symmetric]
proof (cases rule: pmm_alloc_cases)
  case full
  then show ?thesis
    by (simp add: alloc_spec_def) (metis prod.collapse)
next
  case (page pg)
  have "(LEAST n. n \<notin> used_set p) = unat pg"
    using page by (intro Least_equality) (auto simp: not_less [symmetric])
  moreover have "\<not> {..< 32768} \<subseteq> used_set p"
    using page by auto
  ultimately show ?thesis
    using page assms
    by (simp add: alloc_spec_def pmm_wf_claim unat_page_addr used_set_set_bit)
qed

lemma pmm_free_page_spec:
  assumes "pmm_wf p"
  shows "used_set (pmm_free_page a p) = used_set p - {unat a div 4096}
    \<and> pmm_wf (pmm_free_page a p)"
proof (cases "unat a div 4096 \<in> used_set p")
  case True
  then have "a div 4096 < 32768" "unat (a div 4096) < 32768" "pmm_test_bit (a div 4096) p"
    by (auto simp: used_set_def word_less_nat_alt unat_page_of pmm_test_bit_eq)
  with True assms show ?thesis
    by (simp add: pmm_free_page_def pmm_wf_release used_set_clear_bit unat_page_of)
next
  case False
  then have "\<not> (a div 4096 < 32768 \<and> pmm_test_bit (a div 4096) p)"
    by (auto simp: used_set_def word_less_nat_alt unat_page_of pmm_test_bit_eq)
  with False assms show ?thesis
    by (auto simp: pmm_free_page_def Let_def)
qed

lemma pmm_clear_set_bit:
  assumes "length (bitmap p) = 4096" "unat page < 32768" "\<not> page_used p (unat page)"
  shows "pmm_clear_bit page (pmm_set_bit page p) = p"
proof -
  let ?b = "bitmap p ! (unat page div 8)" and ?k = "unat page mod 8"
  have "(?b OR 2 ^ ?k) AND NOT (2 ^ ?k) = ?b"
    using assms(3) by (intro bit_word_eqI) (auto simp: page_used_def bit_simps)
  moreover have "unat page div 8 < 4096" using assms(2) by simp
  ultimately have "(bitmap p)[unat page div 8 := (?b OR 2 ^ ?k) AND NOT (2 ^ ?k)] = bitmap p"
    by simp
  with \<open>unat page div 8 < 4096\<close> assms(1) show ?thesis
    by (simp add: pmm_set_bit_def pmm_clear_bit_def unat_div8 unat_mod8)
qed

section \<open>Initialisation from the memory map\<close>

subsection \<open>One region\<close>

lemma and_not_mask: "(x :: u32) AND NOT (mask k) = push_bit k (drop_bit k x)"
  by (intro bit_word_eqI) (auto simp: bit_simps)

lemma unat_align_down: "unat (x AND NOT 4095 :: u32) = unat x div 4096 * 4096"
proof -
  have m: "(4095 :: u32) = mask 12" by (simp add: mask_eq_exp_minus_1)
  have "unat x div 4096 * 4096 < 4294967296"
    using unat_u32_bound [of x] by linarith
  then have "unat (push_bit 12 (drop_bit 12 x)) = unat x div 4096 * 4096"
    by (simp add: push_bit_eq_mult drop_bit_eq_div unat_word_ariths unat_page_of)
  then show ?thesis unfolding m and_not_mask .
qed

lemma region_aligned:
  "unat (region_start e) div 4096 * 4096 = unat (region_start e)"
  "unat (region_end e) div 4096 * 4096 = unat (region_end e)"
  by (simp_all only: region_start_def region_end_def unat_align_down) simp_all

definition free_pages_from :: "nat \<Rightarrow> nat \<Rightarrow> pmm \<Rightarrow> pmm" where
  "free_pages_from i j p = fold (\<lambda>n. free_step (of_nat (n * 4096))) [i ..< j] p"

lemma free_range_closed:
  assumes "j * 4096 < 4294967296" "i \<le> j"
  shows "free_range (of_nat (i * 4096)) (of_nat (j * 4096)) p = Some (free_pages_from i j p)"
  using assms
proof (induction "j - i" arbitrary: i p)
  case 0
  then show ?case by (simp add: free_range.simps free_pages_from_def)
next
  case (Suc d)
  have less: "(of_nat (i * 4096) :: u32) < of_nat (j * 4096)"
    using Suc by (simp add: word_less_nat_alt del: of_nat_mult)
  have next_addr: "(of_nat (i * 4096) + 4096 :: u32) = of_nat (Suc i * 4096)"
    by simp
  have "free_range (of_nat (Suc i * 4096)) (of_nat (j * 4096)) (free_step (of_nat (i * 4096)) p)
      = Some (free_pages_from (Suc i) j (free_step (of_nat (i * 4096)) p))"
    using Suc by (intro Suc.hyps(1)) auto
  moreover have "[i ..< j] = i # [Suc i ..< j]"
    using Suc by (simp add: upt_conv_Cons)
  ultimately show ?case
    unfolding free_range.simps [of "of_nat (i * 4096)"] next_addr
    using less by (simp add: free_pages_from_def del: of_nat_mult)
qed

lemma free_range_stop: "\<not> a < e \<Longrightarrow> free_range a e p = Some p"
  by (simp add: free_range.simps)

definition region_result :: "mmap_entry \<Rightarrow> pmm \<Rightarrow> pmm" where
  "region_result e p =
     (if me_type e = 1
      then free_pages_from (unat (region_start e) div 4096) (unat (region_end e) div 4096) p
      else p)"

lemma free_region_closed: "free_region e p = Some (region_result e p)"
proof -
  let ?i = "unat (region_start e) div 4096" and ?j = "unat (region_end e) div 4096"
  have i: "region_start e = of_nat (?i * 4096)"
    by (simp add: region_aligned del: of_nat_mult)
  have j: "region_end e = of_nat (?j * 4096)"
    by (simp add: region_aligned del: of_nat_mult)
  have bound: "?j * 4096 < 4294967296"
    using unat_u32_bound [of "region_end e"] by linarith
  have bound': "?i * 4096 < 4294967296"
    using unat_u32_bound [of "region_start e"] by linarith
  show ?thesis
  proof (cases "?i \<le> ?j")
    case True
    with free_range_closed [OF bound True, of p] i j show ?thesis
      by (simp add: free_region_def region_result_def)
  next
    case False
    with i j bound bound' have "\<not> region_start e < region_end e"
      by (simp add: word_less_nat_alt del: of_nat_mult)
    with False show ?thesis
      by (simp add: free_region_def region_result_def free_range_stop free_pages_from_def)
  qed
qed

text \<open>The pages an entry makes the initialisation release (page 0 and pages above 128 MB are
  skipped).\<close>

definition region_pages :: "mmap_entry \<Rightarrow> nat set" where
  "region_pages e =
     (if me_type e = 1
      then {unat (region_start e) div 4096 ..< unat (region_end e) div 4096} \<inter> {1 ..< 32768}
      else {})"

lemma finite_region_pages [simp]: "finite (region_pages e)"
  by (simp add: region_pages_def)

lemma region_pages_below: "region_pages e \<subseteq> {..< 32768}"
  by (auto simp: region_pages_def)

lemma free_step_page:
  assumes "length (bitmap p) = 4096" "n * 4096 < 4294967296"
  shows "used_set (free_step (of_nat (n * 4096)) p) = used_set p - ({n} \<inter> {1 ..< 32768})
    \<and> used_pages (free_step (of_nat (n * 4096)) p)
        = used_pages p - of_nat (card ({n} \<inter> {1 ..< 32768}))
    \<and> length (bitmap (free_step (of_nat (n * 4096)) p)) = 4096
    \<and> total_pages (free_step (of_nat (n * 4096)) p) = total_pages p"
proof -
  have pg: "unat ((of_nat (n * 4096) :: u32) div 4096) = n"
    using assms(2) by (simp add: unat_page_of del: of_nat_mult)
  show ?thesis
  proof (cases "1 \<le> n \<and> n < 32768")
    case True
    then have "{n} \<inter> {1 ..< 32768} = {n}" by auto
    with True pg assms(1) show ?thesis
      by (simp add: free_step_def word_less_nat_alt used_set_clear_bit Let_def del: of_nat_mult)
  next
    case False
    then have "{n} \<inter> {1 ..< 32768} = {}" by auto
    moreover from False have "\<not> (unat ((of_nat (n * 4096) :: u32) div 4096) < 32768
        \<and> 0 < unat ((of_nat (n * 4096) :: u32) div 4096))"
      unfolding pg by auto
    then have "free_step (of_nat (n * 4096)) p = p"
      by (simp only: free_step_def Let_def word_less_nat_alt) auto
    ultimately show ?thesis using assms(1) by simp
  qed
qed

lemma free_pages_from_effect:
  assumes "length (bitmap p) = 4096" "j * 4096 < 4294967296"
  shows "used_set (free_pages_from i j p) = used_set p - ({i ..< j} \<inter> {1 ..< 32768})
    \<and> used_pages (free_pages_from i j p)
        = used_pages p - of_nat (card ({i ..< j} \<inter> {1 ..< 32768}))
    \<and> length (bitmap (free_pages_from i j p)) = 4096
    \<and> total_pages (free_pages_from i j p) = total_pages p"
  using assms(2)
proof (induction j)
  case 0
  with assms(1) show ?case by (simp add: free_pages_from_def)
next
  case (Suc j)
  show ?case
  proof (cases "i \<le> j")
    case False
    with assms(1) show ?thesis by (simp add: free_pages_from_def)
  next
    case True
    let ?q = "free_pages_from i j p"
    have step: "free_pages_from i (Suc j) p = free_step (of_nat (j * 4096)) ?q"
      using True by (simp add: free_pages_from_def)
    from Suc have len: "length (bitmap ?q) = 4096" and bound: "j * 4096 < 4294967296" by auto
    have set: "{i ..< Suc j} \<inter> {1 ..< 32768} = ({i ..< j} \<inter> {1 ..< 32768}) \<union> ({j} \<inter> {1 ..< 32768})"
      using True by auto
    have "card ({i ..< Suc j} \<inter> {1 ..< 32768})
        = card ({i ..< j} \<inter> {1 ..< 32768}) + card ({j} \<inter> {1 ..< 32768})"
      unfolding set by (rule card_Un_disjoint) auto
    with free_step_page [OF len bound] Suc bound show ?thesis
      unfolding step set by (auto simp: algebra_simps)
  qed
qed

lemma region_result_effect:
  assumes "length (bitmap p) = 4096"
  shows "used_set (region_result e p) = used_set p - region_pages e
    \<and> used_pages (region_result e p) = used_pages p - of_nat (card (region_pages e))
    \<and> length (bitmap (region_result e p)) = 4096
    \<and> total_pages (region_result e p) = total_pages p"
proof -
  have "unat (region_end e) div 4096 * 4096 < 4294967296"
    using unat_u32_bound [of "region_end e"] by linarith
  from free_pages_from_effect [OF assms this] assms show ?thesis
    by (simp add: region_result_def region_pages_def)
qed

subsection \<open>The walk over the map\<close>

text \<open>\<open>entries_at mem a e es\<close>: the walk from \<open>a\<close> to the end \<open>e\<close> meets the entries \<open>es\<close>.\<close>

fun entries_at :: "(u32 \<Rightarrow> u8) \<Rightarrow> u32 \<Rightarrow> u32 \<Rightarrow> mmap_entry list \<Rightarrow> bool" where
  "entries_at mem a mmap_end [] \<longleftrightarrow> \<not> a < mmap_end"
| "entries_at mem a mmap_end (e # es) \<longleftrightarrow>
     a < mmap_end \<and> read_entry mem a = e \<and> entries_at mem (a + me_size e + 4) mmap_end es"

lemma mmap_walk_entries:
  "entries_at mem a mmap_end es \<Longrightarrow> mmap_walk mem a mmap_end p = Some (fold region_result es p)"
proof (induction es arbitrary: a p)
  case Nil
  then show ?case by (simp add: mmap_walk.simps)
next
  case (Cons e es)
  then show ?case
    by (simp add: mmap_walk.simps [of mem a] free_region_closed)
qed

lemma entries_at_exist:
  assumes "\<And>a. a < mmap_end \<Longrightarrow> a < a + me_size (read_entry mem a) + 4"
  shows "\<exists>es. entries_at mem a mmap_end es"
proof (induction "unat mmap_end - unat a" arbitrary: a rule: less_induct)
  case less
  show ?case
  proof (cases "a < mmap_end")
    case False
    then have "entries_at mem a mmap_end []" by simp
    then show ?thesis ..
  next
    case True
    let ?n = "a + me_size (read_entry mem a) + 4"
    from assms [OF True] True have "unat mmap_end - unat ?n < unat mmap_end - unat a"
      by (simp add: word_less_nat_alt)
    from less [OF this] obtain es where "entries_at mem ?n mmap_end es" by blast
    with True have "entries_at mem a mmap_end (read_entry mem a # es)" by simp
    then show ?thesis ..
  qed
qed

lemma fold_region_effect:
  assumes "length (bitmap p) = 4096"
  shows "used_set (fold region_result es p) = used_set p - (\<Union>e\<in>set es. region_pages e)
    \<and> used_pages (fold region_result es p)
        = used_pages p - of_nat (\<Sum>e\<leftarrow>es. card (region_pages e))
    \<and> length (bitmap (fold region_result es p)) = 4096
    \<and> total_pages (fold region_result es p) = total_pages p"
  using assms
proof (induction es arbitrary: p)
  case (Cons e es)
  note r = region_result_effect [OF Cons.prems, of e]
  from Cons.IH [of "region_result e p"] r show ?case
    by (auto simp: algebra_simps)
qed simp

subsection \<open>The reserved pages\<close>

text \<open>\<open>count_gap\<close> is how far the counter is from the number of set bits.\<close>

definition count_gap :: "pmm \<Rightarrow> u32" where
  "count_gap p = of_nat (card (used_set p)) - used_pages p"

lemma reserve_page_effect:
  assumes "length (bitmap p) = 4096" "i < 32768"
  shows "used_set (reserve_page i p) = insert i (used_set p)
    \<and> count_gap (reserve_page i p) = count_gap p
    \<and> length (bitmap (reserve_page i p)) = 4096
    \<and> total_pages (reserve_page i p) = total_pages p"
proof (cases "page_used p i")
  case True
  with assms show ?thesis
    by (auto simp: reserve_page_def pmm_test_bit_eq used_set_def)
next
  case False
  then have "i \<notin> used_set p" by (simp add: used_set_def)
  with False assms show ?thesis
    by (simp add: reserve_page_def pmm_test_bit_eq used_set_set_bit count_gap_def)
qed

lemma fold_reserve_effect:
  assumes "length (bitmap p) = 4096" "\<forall>i \<in> set is. i < 32768"
  shows "used_set (fold reserve_page is p) = set is \<union> used_set p
    \<and> count_gap (fold reserve_page is p) = count_gap p
    \<and> length (bitmap (fold reserve_page is p)) = 4096
    \<and> total_pages (fold reserve_page is p) = total_pages p"
  using assms
proof (induction "is" arbitrary: p)
  case (Cons i "is")
  then show ?case
    using reserve_page_effect [of p i] by simp
qed simp

subsection \<open>The state after initialisation\<close>

definition init_reserved :: "u32 \<Rightarrow> nat set" where
  "init_reserved kernel_end = {..< 256} \<union> {256 ..< min (unat kernel_end div 4096 + 2) 32768}"

definition init_start :: "multiboot_info \<Rightarrow> pmm" where
  "init_start mbi =
     (let total = (mbi_mem_lower mbi + mbi_mem_upper mbi + 1024) div 4 in
      \<lparr>bitmap = replicate 4096 0xFF,
       total_pages = (if total > 32768 then 32768 else total), used_pages = 32768\<rparr>)"

lemma used_set_init_start: "used_set (init_start mbi) = {..< 32768}"
proof -
  have "bit (replicate 4096 0xFF ! (n div 8) :: u8) (n mod 8)" if "n < 32768" for n
  proof -
    have "replicate 4096 (0xFF :: u8) ! (n div 8) = 0xFF"
      using that by (intro nth_replicate) simp
    then show ?thesis by (simp only: byte_full_iff)
  qed
  then show ?thesis
    by (auto simp: used_set_def page_used_def init_start_def Let_def)
qed

lemma unat_kernel_end_page: "unat ((x :: u32) div 4096 + 1) = unat x div 4096 + 1"
proof -
  have "unat (x div 4096) < 4294967295"
    using unat_u32_bound [of x] unfolding unat_page_of by linarith
  then show ?thesis by (simp add: unat_u32_plus_1 unat_page_of)
qed

lemma pmm_init_effect:
  assumes "mbi_flags mbi AND 64 \<noteq> 0"
    and "entries_at mem (mbi_mmap_addr mbi) (mbi_mmap_addr mbi + mbi_mmap_length mbi) es"
  obtains p where "pmm_init mem kernel_end mbi = Some p"
    and "used_set p = ({..< 32768} - (\<Union>e\<in>set es. region_pages e)) \<union> init_reserved kernel_end"
    and "count_gap p = of_nat (\<Sum>e\<leftarrow>es. card (region_pages e))
           - of_nat (card (\<Union>e\<in>set es. region_pages e))"
    and "length (bitmap p) = 4096" and "total_pages p = total_pages (init_start mbi)"
proof -
  define k where "k = min (Suc (unat (kernel_end div 4096 + 1))) 32768"
  then have k: "k \<le> 32768" by simp
  let ?p1 = "fold region_result es (init_start mbi)"
  let ?p2 = "fold reserve_page [0 ..< 256] ?p1"
  let ?p = "fold reserve_page [256 ..< k] ?p2"
  have len: "length (bitmap (init_start mbi)) = 4096"
    by (simp add: init_start_def Let_def)
  note f1 = fold_region_effect [OF len, of es]
  then have f2: "used_set ?p2 = {..< 256} \<union> used_set ?p1 \<and> count_gap ?p2 = count_gap ?p1
      \<and> length (bitmap ?p2) = 4096 \<and> total_pages ?p2 = total_pages ?p1"
    using fold_reserve_effect [of ?p1 "[0 ..< 256]"] by (simp add: atLeast0LessThan)
  then have f3: "used_set ?p = {256 ..< k} \<union> used_set ?p2 \<and> count_gap ?p = count_gap ?p2
      \<and> length (bitmap ?p) = 4096 \<and> total_pages ?p = total_pages ?p2"
    using fold_reserve_effect [of ?p2 "[256 ..< k]"] k by simp
  let ?R = "\<Union>e\<in>set es. region_pages e"
  have sub: "?R \<subseteq> {..< 32768}" using region_pages_below by blast
  have "card (used_set ?p1) = 32768 - card ?R" "card ?R \<le> 32768"
    using f1 sub card_mono [OF _ sub]
    by (simp_all add: used_set_init_start card_Diff_subset finite_subset [OF sub])
  then have gap: "count_gap ?p1 = of_nat (\<Sum>e\<leftarrow>es. card (region_pages e)) - of_nat (card ?R)"
    using f1 by (simp add: count_gap_def init_start_def Let_def of_nat_diff)
  show thesis
  proof (rule that)
    show "pmm_init mem kernel_end mbi = Some ?p"
      using assms by (simp add: pmm_init_def Let_def mmap_walk_entries init_start_def k_def)
    show "used_set ?p = ({..< 32768} - ?R) \<union> init_reserved kernel_end"
      using f1 f2 f3 by (auto simp: used_set_init_start init_reserved_def unat_kernel_end_page k_def)
  qed (use f1 f2 f3 gap in auto)
qed

section \<open>The allocator as a page source\<close>

definition pmm_owned :: "pmm \<Rightarrow> u32 set" where
  "pmm_owned p = {a. a \<noteq> 0 \<and> unat a mod 4096 = 0 \<and> unat a div 4096 \<in> used_set p}"

text \<open>Page 0 stays reserved, so that address 0 can mean ``out of memory''.\<close>

definition pmm_inv :: "pmm \<Rightarrow> bool" where
  "pmm_inv p \<longleftrightarrow> pmm_wf p \<and> 0 \<in> used_set p"

lemma pmm_owned_insert:
  assumes "unat page < 32768" "page \<noteq> 0" "used_set p' = insert (unat page) (used_set p)"
  shows "pmm_owned p' = insert (page * 4096) (pmm_owned p)"
proof -
  have "a = page * 4096" if "unat a mod 4096 = 0" "unat a div 4096 = unat page" for a
    using that assms(1) by (intro word_unat_eq_iff [THEN iffD2])
      (metis add.right_neutral div_mult_mod_eq unat_page_addr)
  moreover have "page * 4096 \<noteq> 0"
    using assms by (simp add: word_unat_eq_iff unat_page_addr)
  ultimately show ?thesis
    using assms by (auto simp: pmm_owned_def unat_page_addr)
qed

interpretation pmm_source: page_source pmm_alloc_page pmm_free_page pmm_owned pmm_inv
proof unfold_locales
  fix s s' a assume *: "pmm_inv s" "pmm_alloc_page s = (s', a)" "a \<noteq> 0"
  then have wf: "pmm_wf s" by (simp add: pmm_inv_def)
  from this *(2) show "a \<notin> pmm_owned s \<and> pmm_owned s' = insert a (pmm_owned s) \<and> pmm_inv s'"
  proof (cases rule: pmm_alloc_cases)
    case full
    with *(3) show ?thesis by simp
  next
    case (page pg)
    from page(2) *(1) have "unat pg \<noteq> 0" unfolding pmm_inv_def by metis
    then have "pg \<noteq> 0" by auto
    have set: "used_set s' = insert (unat pg) (used_set s)"
      using page wf by (simp add: used_set_set_bit)
    with page \<open>pg \<noteq> 0\<close> have "pmm_owned s' = insert a (pmm_owned s)"
      by (simp add: pmm_owned_insert)
    moreover have "a \<notin> pmm_owned s"
      using page by (simp add: pmm_owned_def unat_page_addr)
    moreover have "pmm_inv s'"
      using * page set wf by (simp add: pmm_inv_def pmm_wf_claim)
    ultimately show ?thesis by simp
  qed
next
  fix s s' assume *: "pmm_inv s" "pmm_alloc_page s = (s', 0)"
  then have "pmm_wf s" by (simp add: pmm_inv_def)
  from this *(2) show "s' = s"
  proof (cases rule: pmm_alloc_cases)
    case (page pg)
    from page have "unat pg * 4096 = 0" by (metis unat_0 unat_page_addr)
    with page * show ?thesis by (auto simp: pmm_inv_def)
  qed
next
  fix s a assume *: "pmm_inv s" "a \<in> pmm_owned s"
  then have wf: "pmm_wf s" by (simp add: pmm_inv_def)
  have ne: "unat a div 4096 \<noteq> 0"
  proof
    assume "unat a div 4096 = 0"
    moreover from *(2) have "unat a mod 4096 = 0" by (simp add: pmm_owned_def)
    ultimately have "unat a = 0" using div_mult_mod_eq [of "unat a" 4096] by linarith
    then have "a = 0" by (simp add: unat_eq_zero)
    with *(2) show False by (simp add: pmm_owned_def)
  qed
  have "b = a" if "unat b mod 4096 = 0" "unat b div 4096 = unat a div 4096" for b
  proof -
    from *(2) have "unat a mod 4096 = 0" by (simp add: pmm_owned_def)
    with that have "unat b = unat a"
      using div_mult_mod_eq [of "unat a" 4096] div_mult_mod_eq [of "unat b" 4096] by linarith
    then show ?thesis by (simp add: word_unat_eq_iff)
  qed
  then show "pmm_owned (pmm_free_page a s) = pmm_owned s - {a} \<and> pmm_inv (pmm_free_page a s)"
    using pmm_free_page_spec [OF wf, of a] * ne by (auto simp: pmm_owned_def pmm_inv_def)
qed

section \<open>Properties\<close>

text \<open>Two concrete allocators for the witnesses: an empty one, and one with page 0 reserved.\<close>

definition empty_pmm :: pmm where
  "empty_pmm = \<lparr>bitmap = replicate 4096 0, total_pages = 32768, used_pages = 0\<rparr>"

definition fresh_pmm :: pmm where
  "fresh_pmm = (pmm_set_bit 0 empty_pmm)\<lparr>used_pages := used_pages empty_pmm + 1\<rparr>"

lemma empty_pmm_wf: "pmm_wf empty_pmm \<and> used_set empty_pmm = {}"
proof -
  have "used_set empty_pmm = {}"
    by (auto simp: used_set_def page_used_def empty_pmm_def)
  then show ?thesis by (simp add: pmm_wf_def) (simp add: empty_pmm_def)
qed

lemma fresh_pmm_wf: "pmm_wf fresh_pmm \<and> used_set fresh_pmm = {0} \<and> pmm_inv fresh_pmm"
  using empty_pmm_wf pmm_wf_claim [of empty_pmm 0]
  by (simp add: fresh_pmm_def used_set_set_bit pmm_inv_def)

lemma fresh_pmm_alloc:
  "alloc_spec (used_set fresh_pmm) = Some 1 \<and> unat (snd (pmm_alloc_page fresh_pmm)) = 4096"
proof -
  have "(LEAST n. n \<noteq> (0 :: nat)) = 1" by (rule Least_equality) auto
  moreover have "\<not> {..< 32768 :: nat} \<subseteq> {0}"
  proof
    assume "{..< 32768 :: nat} \<subseteq> {0}"
    then have "1 \<in> {0 :: nat}" by (rule subsetD) simp
    then show False by simp
  qed
  ultimately have "alloc_spec (used_set fresh_pmm) = Some 1"
    by (simp add: alloc_spec_def fresh_pmm_wf)
  with pmm_alloc_page_refines [of fresh_pmm] show ?thesis
    by (simp add: fresh_pmm_wf)
qed

text \<open>C6: the allocator refines its specification on the set of used pages: it hands out the least
  free page, marks exactly that page and keeps counter and bitmap in step, and answers 0
  without a change when every page is used.
\<close>

theorem pmm_alloc_page_correct:
  assumes "pmm_wf p"
  shows "case alloc_spec (used_set p) of
      None \<Rightarrow> pmm_alloc_page p = (p, 0)
    | Some n \<Rightarrow> n < 32768 \<and> unat (snd (pmm_alloc_page p)) = n * 4096
        \<and> used_set (fst (pmm_alloc_page p)) = insert n (used_set p)
        \<and> pmm_wf (fst (pmm_alloc_page p))"
  using assms by (rule pmm_alloc_page_refines)

theorem pmm_alloc_page_correct_witness:
  "pmm_wf fresh_pmm \<and> alloc_spec (used_set fresh_pmm) = Some 1
    \<and> used_set (fst (pmm_alloc_page fresh_pmm)) = {1, 0}"
  using pmm_alloc_page_correct [of fresh_pmm] fresh_pmm_alloc
  by (simp add: fresh_pmm_wf)

text \<open>Releasing a page that was just allocated restores the allocator's whole state, bitmap and
  counter.
\<close>

theorem pmm_free_alloc_roundtrip:
  assumes "pmm_wf p" "pmm_alloc_page p = (p', a)" "a \<noteq> 0"
  shows "pmm_free_page a p' = p"
  using assms(1,2)
proof (cases rule: pmm_alloc_cases)
  case full
  with assms(3) show ?thesis by simp
next
  case (page pg)
  have pg: "a div 4096 = pg"
    using page(1,4) by (intro word_unat_eq_iff [THEN iffD2]) (simp add: unat_page_of unat_page_addr)
  have unused: "\<not> page_used p (unat pg)" using page by (simp add: used_set_def)
  have "pmm_test_bit pg p'"
    using page assms(1) by (simp add: pmm_test_bit_eq page_used_set_bit)
  moreover have "pg < 32768" using page by (simp add: word_less_nat_alt)
  ultimately have "pmm_free_page a p' = (pmm_clear_bit pg p')\<lparr>used_pages := used_pages p' - 1\<rparr>"
    by (simp add: pmm_free_page_def pg)
  also have "pmm_clear_bit pg p' = (pmm_clear_bit pg (pmm_set_bit pg p))\<lparr>used_pages := used_pages p + 1\<rparr>"
    using page(5) by (simp add: pmm_clear_bit_def)
  also have "pmm_clear_bit pg (pmm_set_bit pg p) = p"
    using assms(1) page unused by (intro pmm_clear_set_bit) simp_all
  finally show ?thesis using page(5) by simp
qed

theorem pmm_free_alloc_roundtrip_witness:
  "pmm_free_page (snd (pmm_alloc_page fresh_pmm)) (fst (pmm_alloc_page fresh_pmm)) = fresh_pmm"
proof (rule pmm_free_alloc_roundtrip)
  show "snd (pmm_alloc_page fresh_pmm) \<noteq> 0"
    using fresh_pmm_alloc by auto
qed (simp_all add: fresh_pmm_wf)

text \<open>What the free-page count shown to the user is: the number of clear bits of the bitmap,
  less the pages between the end of the memory and 128 MB (their bits are never cleared but
  they count as used), and 0 when that is negative. So it is exact on a machine with at least
  128 MB and too small on any other.
\<close>

theorem pmm_get_free_pages_value:
  assumes "pmm_wf p" "unat (total_pages p) \<le> 32768"
  shows "unat (pmm_get_free_pages p)
    = card ({..< 32768} - used_set p) - (32768 - unat (total_pages p))"
proof -
  have "used_set p \<subseteq> {..< 32768}" by (auto simp: used_set_def)
  then have "card ({..< 32768} - used_set p) = 32768 - card (used_set p)"
    by (simp add: card_Diff_subset)
  with assms card_used_set [of p] show ?thesis
    by (auto simp: pmm_get_free_pages_def pmm_wf_def word_less_nat_alt unat_sub word_le_nat_alt)
qed

theorem pmm_get_free_pages_value_witness:
  "let p = fresh_pmm\<lparr>total_pages := 16384\<rparr> in
     unat (pmm_get_free_pages p) = 16383 \<and> card ({..< 32768} - used_set p) = 32767"
proof -
  let ?p = "fresh_pmm\<lparr>total_pages := 16384\<rparr>"
  have set: "used_set ?p = {0}" using fresh_pmm_wf by (simp add: used_set_def)
  have "pmm_wf ?p" using fresh_pmm_wf set by (simp add: pmm_wf_def)
  moreover have "card ({..< 32768} - {0 :: nat}) = 32767" by simp
  ultimately show ?thesis
    using pmm_get_free_pages_value [of ?p] set by simp
qed

text \<open>A concrete memory map for the witnesses, at address 4096: one entry, 3 MB from 1 MB on,
  then the same entry again.\<close>

definition entry_bytes :: "u8 list" where
  "entry_bytes = [20, 0, 0, 0,  0, 0, 16, 0,  0, 0, 0, 0,  0, 0, 48, 0,  0, 0, 0, 0,  1, 0, 0, 0]"

definition map_mem :: "u32 \<Rightarrow> u8" where
  "map_mem a = (if 4096 \<le> a \<and> a < 4144 then (entry_bytes @ entry_bytes) ! unat (a - 4096) else 0)"

definition map_entry :: mmap_entry where
  "map_entry = \<lparr>me_size = 20, me_addr = 1048576, me_len = 3145728, me_type = 1\<rparr>"

definition map_info :: "u32 \<Rightarrow> multiboot_info" where
  "map_info len = \<lparr>mbi_flags = 64, mbi_mem_lower = 640, mbi_mem_upper = 3072,
     mbi_mmap_length = len, mbi_mmap_addr = 4096\<rparr>"

lemma map_mem_entries:
  "entries_at map_mem 4096 4120 [map_entry]"
  "entries_at map_mem 4096 4144 [map_entry, map_entry]"
  by (simp_all add: read_entry_def le32_def le64_def map_mem_def map_entry_def entry_bytes_def)

lemma map_entry_pages: "region_pages map_entry = {256 ..< 1024}"
proof -
  have "unat (region_start map_entry) = 1048576" "unat (region_end map_entry) = 4194304"
    unfolding region_start_def region_end_def unat_align_down by (simp_all add: map_entry_def)
  then show ?thesis by (auto simp: region_pages_def map_entry_def)
qed

lemma pmm_init_pages:
  assumes "mbi_flags mbi AND 64 \<noteq> 0"
    and "entries_at mem (mbi_mmap_addr mbi) (mbi_mmap_addr mbi + mbi_mmap_length mbi) es"
  shows "\<exists>p. pmm_init mem kernel_end mbi = Some p
    \<and> {n. n < 32768 \<and> n \<notin> used_set p}
        = {n. 256 \<le> n \<and> unat kernel_end div 4096 + 1 < n \<and> n \<in> (\<Union>e\<in>set es. region_pages e)}
    \<and> (pmm_inv p \<longleftrightarrow> (of_nat (\<Sum>e\<leftarrow>es. card (region_pages e)) :: u32)
           = of_nat (card (\<Union>e\<in>set es. region_pages e)))"
proof -
  from assms obtain p where p: "pmm_init mem kernel_end mbi = Some p"
      "used_set p = ({..< 32768} - (\<Union>e\<in>set es. region_pages e)) \<union> init_reserved kernel_end"
      "count_gap p = of_nat (\<Sum>e\<leftarrow>es. card (region_pages e))
         - of_nat (card (\<Union>e\<in>set es. region_pages e))"
      "length (bitmap p) = 4096"
    by (rule pmm_init_effect)
  have "card (used_set p) < 4294967296"
    using card_used_set [of p] by simp
  then have "unat (used_pages p) = card (used_set p) \<longleftrightarrow> of_nat (card (used_set p)) = used_pages p"
    by (auto simp: word_unat_eq_iff)
  then have "pmm_wf p \<longleftrightarrow> count_gap p = 0"
    using p(4) by (simp add: pmm_wf_def count_gap_def)
  moreover have "0 \<in> used_set p"
    using p(2) by (simp add: init_reserved_def)
  ultimately have "pmm_inv p \<longleftrightarrow> count_gap p = 0" by (simp add: pmm_inv_def)
  moreover have "{n. n < 32768 \<and> n \<notin> used_set p}
      = {n. 256 \<le> n \<and> unat kernel_end div 4096 + 1 < n \<and> n \<in> (\<Union>e\<in>set es. region_pages e)}"
    using region_pages_below unfolding p(2) by (fastforce simp: init_reserved_def)
  ultimately show ?thesis using p(1,3) by auto
qed



text \<open>The pages an available region releases are exactly the whole pages inside it, for a
  region that ends below 4 GB: no page is released that the region covers only in part.
\<close>

theorem region_pages_whole:
  assumes "me_type e = 1" "unat (me_addr e) + unat (me_len e) < 4294967296"
    and "unat (me_addr e) + 4095 < 4294967296"
  shows "region_pages e = {n. 1 \<le> n \<and> n < 32768 \<and> unat (me_addr e) \<le> n * 4096
           \<and> (n + 1) * 4096 \<le> unat (me_addr e) + unat (me_len e)}"
proof -
  have addr: "unat (ucast (me_addr e) :: u32) = unat (me_addr e)"
    and len: "unat (ucast (me_len e) :: u32) = unat (me_len e)"
    using assms by (simp_all add: unsigned_ucast_eq take_bit_eq_mod)
  have "unat (region_start e) div 4096 = (unat (me_addr e) + 4095) div 4096"
    unfolding region_start_def unat_align_down
    using assms by (simp add: unat_word_ariths addr)
  moreover have "unat (region_end e) div 4096 = (unat (me_addr e) + unat (me_len e)) div 4096"
    unfolding region_end_def unat_align_down
    using assms by (simp add: unat_word_ariths addr len)
  ultimately show ?thesis
    using assms(1) by (auto simp: region_pages_def)
qed

theorem region_pages_whole_witness:
  "region_pages map_entry = {n. 1 \<le> n \<and> n < 32768 \<and> 1048576 \<le> n * 4096
     \<and> (n + 1) * 4096 \<le> 4194304}"
  using region_pages_whole [of map_entry] by (simp add: map_entry_def)

text \<open>A region's address and length are cut to 32 bits. A region above 4 GB therefore releases
  the pages 4 GB below it, whatever the map says of those.
\<close>

theorem region_pages_truncated:
  "region_pages (e\<lparr>me_addr := me_addr e + 4294967296\<rparr>) = region_pages e"
proof -
  have "(ucast (me_addr e + 4294967296) :: u32) = ucast (me_addr e)"
    by (simp add: word_unat_eq_iff unsigned_ucast_eq take_bit_eq_mod unat_word_ariths
      mod_mod_cancel)
  then show ?thesis
    by (simp add: region_pages_def region_start_def region_end_def)
qed

text \<open>The initialisation ends on every memory map whose walk only goes forward (no entry's size
  makes the 32-bit cursor wrap around or stand still), whatever the entries describe.
\<close>

theorem pmm_init_terminates:
  assumes "\<And>a. a < mbi_mmap_addr mbi + mbi_mmap_length mbi \<Longrightarrow>
      a < a + me_size (read_entry mem a) + 4"
  shows "\<exists>p. pmm_init mem kernel_end mbi = Some p"
proof -
  from entries_at_exist [OF assms] obtain es where
    "entries_at mem (mbi_mmap_addr mbi) (mbi_mmap_addr mbi + mbi_mmap_length mbi) es" by blast
  then show ?thesis
    by (simp add: pmm_init_def Let_def mmap_walk_entries)
qed

theorem pmm_init_terminates_witness:
  "\<exists>p. pmm_init (\<lambda>_. 0) 2097152 (map_info 48) = Some p"
proof (rule pmm_init_terminates)
  fix a assume "a < mbi_mmap_addr (map_info 48) + mbi_mmap_length (map_info 48)"
  then show "a < a + me_size (read_entry (\<lambda>_. 0) a) + 4"
    by (simp add: map_info_def read_entry_def le32_def word_less_nat_alt unat_word_ariths)
qed

end
