(* ===== verification/Keyboard.thy ===== *)
theory Keyboard
  imports Interfaces
begin

text \<open>
  The keyboard driver \<^verbatim>\<open>src/keyboard.c\<close>: the interrupt handler turns scancodes into
  characters (shift, caps lock, the extended codes of the arrow keys) and puts them into a ring
  buffer of 256 bytes; readers take them out. The state \<open>kbd\<close> holds the file's static variables
  and the handler's static \<open>extended\<close>. The scancode is what the port 0x60 delivers. The
  blocking read is \<open>None\<close> while the buffer is empty.
\<close>

section \<open>State and tables\<close>

abbreviation (input) KB_BUFFER_SIZE :: u16 where "KB_BUFFER_SIZE \<equiv> 256"
abbreviation (input) KEY_UP :: u8 where "KEY_UP \<equiv> 1"
abbreviation (input) KEY_DOWN :: u8 where "KEY_DOWN \<equiv> 2"
abbreviation (input) KEY_LEFT :: u8 where "KEY_LEFT \<equiv> 3"
abbreviation (input) KEY_RIGHT :: u8 where "KEY_RIGHT \<equiv> 4"
abbreviation (input) KEY_ESC :: u8 where "KEY_ESC \<equiv> 0x1B"

record kbd =
  kb_buffer :: "u8 list"
  kb_read :: u16
  kb_write :: u16
  shift_pressed :: bool
  caps_lock :: bool
  extended :: bool

definition scancode_normal :: "u8 list" where
  "scancode_normal =
     [0, 27] @ bytes ''1234567890-='' @ [8, 9] @ bytes ''qwertyuiop[]'' @ [10, 0]
     @ bytes ''asdfghjkl;'' @ [39, 96, 0, 92] @ bytes ''zxcvbnm,./'' @ [0, 42, 0, 32]
     @ replicate 70 0"

definition scancode_shift :: "u8 list" where
  "scancode_shift =
     [0, 27] @ bytes ''!@#$%^&*()_+'' @ [8, 9] @ bytes ''QWERTYUIOP{}'' @ [10, 0]
     @ bytes ''ASDFGHJKL:'' @ [34, 126, 0, 124] @ bytes ''ZXCVBNM<>?'' @ [0, 42, 0, 32]
     @ replicate 70 0"

definition kbd_start :: kbd where
  "kbd_start = \<lparr>kb_buffer = replicate 256 0, kb_read = 0, kb_write = 0, shift_pressed = False,
     caps_lock = False, extended = False\<rparr>"

section \<open>Operations\<close>

definition kb_push :: "u8 \<Rightarrow> kbd \<Rightarrow> kbd" where
  "kb_push c k =
     (let next_write = (kb_write k + 1) mod KB_BUFFER_SIZE in
      if next_write \<noteq> kb_read k
      then k\<lparr>kb_buffer := (kb_buffer k)[unat (kb_write k) := c], kb_write := next_write\<rparr>
      else k)"

definition keyboard_callback :: "u8 \<Rightarrow> kbd \<Rightarrow> kbd" where
  "keyboard_callback scancode k =
     (if scancode = 0xE0 then k\<lparr>extended := True\<rparr>
      else if extended k
      then let k = k\<lparr>extended := False\<rparr> in
        if scancode AND 0x80 \<noteq> 0 then k
        else if scancode = 0x48 then kb_push KEY_UP k
        else if scancode = 0x50 then kb_push KEY_DOWN k
        else if scancode = 0x4B then kb_push KEY_LEFT k
        else if scancode = 0x4D then kb_push KEY_RIGHT k
        else k
      else if scancode AND 0x80 \<noteq> 0
      then let released = scancode AND 0x7F in
        if released = 0x2A \<or> released = 0x36 then k\<lparr>shift_pressed := False\<rparr> else k
      else if scancode = 0x2A \<or> scancode = 0x36 then k\<lparr>shift_pressed := True\<rparr>
      else if scancode = 0x3A then k\<lparr>caps_lock := \<not> caps_lock k\<rparr>
      else if scancode = 0x01 then kb_push KEY_ESC k
      else let i = unat scancode;
               c = (if scancode < 128
                 then let use_shift = (if caps_lock k \<and> scancode_normal ! i \<ge> byte CHR ''a''
                            \<and> scancode_normal ! i \<le> byte CHR ''z''
                          then \<not> shift_pressed k else shift_pressed k)
                      in if use_shift then scancode_shift ! i else scancode_normal ! i
                 else 0)
        in if c = 0 then k else kb_push c k)"

definition keyboard_haschar :: "kbd \<Rightarrow> bool" where
  "keyboard_haschar k \<longleftrightarrow> kb_read k \<noteq> kb_write k"

text \<open>The read in its two accesses: the byte, then the new read index. An interrupt may come
  between them.\<close>

definition getchar_peek :: "kbd \<Rightarrow> u8 option" where
  "getchar_peek k = (if kb_read k = kb_write k then None else get_at (kb_buffer k) (unat (kb_read k)))"

definition getchar_advance :: "kbd \<Rightarrow> kbd" where
  "getchar_advance k = k\<lparr>kb_read := (kb_read k + 1) mod KB_BUFFER_SIZE\<rparr>"

definition keyboard_getchar :: "kbd \<Rightarrow> (kbd \<times> u8) option" where
  "keyboard_getchar k =
     (case getchar_peek k of None \<Rightarrow> None | Some c \<Rightarrow> Some (getchar_advance k, c))"

section \<open>The buffer as a queue\<close>

definition kb_inv :: "kbd \<Rightarrow> bool" where
  "kb_inv k \<longleftrightarrow> length (kb_buffer k) = 256 \<and> kb_read k < 256 \<and> kb_write k < 256"

definition kb_len :: "kbd \<Rightarrow> nat" where
  "kb_len k = (unat (kb_write k) + 256 - unat (kb_read k)) mod 256"

definition kb_contents :: "kbd \<Rightarrow> u8 list" where
  "kb_contents k = map (\<lambda>i. kb_buffer k ! ((unat (kb_read k) + i) mod 256)) [0 ..< kb_len k]"

lemma length_kb_contents [simp]: "length (kb_contents k) = kb_len k"
  by (simp add: kb_contents_def)

lemma unat_next:
  "x < (256 :: u16) \<Longrightarrow> unat ((x + 1) mod 256) = Suc (unat x) mod 256"
  by (simp add: unat_mod unat_word_ariths word_less_nat_alt)

lemma kb_inv_bounds:
  "kb_inv k \<Longrightarrow> unat (kb_read k) < 256 \<and> unat (kb_write k) < 256"
  by (simp add: kb_inv_def word_less_nat_alt)

lemma kb_len_bound: "kb_len k < 256"
  by (simp add: kb_len_def)

text \<open>Index arithmetic of a ring of 256 cells, read index \<open>r\<close> and write index \<open>w\<close>.\<close>

lemma ring_arith:
  fixes r w i :: nat
  assumes "r < 256" "w < 256"
  shows "(w + 256 - r) mod 256 = (if r \<le> w then w - r else w + 256 - r)"
    and "Suc w mod 256 = r \<longleftrightarrow> (w + 256 - r) mod 256 = 255"
    and "(w + 256 - r) mod 256 < 255 \<Longrightarrow> (Suc w mod 256 + 256 - r) mod 256 = Suc ((w + 256 - r) mod 256)"
    and "(r + (w + 256 - r) mod 256) mod 256 = w"
    and "i < (w + 256 - r) mod 256 \<Longrightarrow> (r + i) mod 256 \<noteq> w"
    and "r \<noteq> w \<Longrightarrow> (w + 256 - r) mod 256 = Suc ((w + 256 - Suc r mod 256) mod 256)"
    and "(w + 256 - r) mod 256 = 0 \<longleftrightarrow> r = w"
proof -
  let ?n = "(w + 256 - r) mod 256"
  have n: "(w' + 256 - r') mod 256 = (if r' \<le> w' then w' - r' else w' + 256 - r')"
    if "r' < 256" "w' < 256" for r' w' :: nat
  proof (cases "r' \<le> w'")
    case True
    then have eq: "w' + 256 - r' = (w' - r') + 256" by simp
    show ?thesis unfolding eq mod_add_self2 using True that by simp
  qed (use that in simp)
  have suc: "Suc x mod 256 = (if x = 255 then 0 else Suc x)" if "x < 256" for x :: nat
    using that by simp
  have add: "(r + j) mod 256 = (if r + j < 256 then r + j else r + j - 256)" if "j < 256" for j
    using assms(1) that by (simp add: mod_if)
  have lt: "?n < 256" by simp
  have s: "Suc w mod 256 < 256" "Suc r mod 256 < 256" by simp_all
  show "?n = (if r \<le> w then w - r else w + 256 - r)" by (rule n [OF assms])
  show "Suc w mod 256 = r \<longleftrightarrow> ?n = 255"
    unfolding suc [OF assms(2)] n [OF assms] using assms by auto
  show "?n < 255 \<Longrightarrow> (Suc w mod 256 + 256 - r) mod 256 = Suc ?n"
    unfolding n [OF assms] n [OF assms(1) s(1)] unfolding suc [OF assms(2)] using assms by (auto split: if_splits)
  show "(r + ?n) mod 256 = w"
    unfolding add [OF lt] unfolding n [OF assms] using assms by auto
  show "(r + i) mod 256 \<noteq> w" if "i < ?n"
  proof -
    have "i < 256" using that lt by linarith
    with that show ?thesis unfolding add [OF \<open>i < 256\<close>] n [OF assms] using assms by (auto split: if_splits)
  qed
  show "r \<noteq> w \<Longrightarrow> ?n = Suc ((w + 256 - Suc r mod 256) mod 256)"
    unfolding n [OF assms] n [OF s(2) assms(2)] unfolding suc [OF assms(1)] using assms by auto
  show "?n = 0 \<longleftrightarrow> r = w"
    unfolding n [OF assms] using assms by auto
qed

lemma kb_full_iff:
  assumes "kb_inv k"
  shows "(kb_write k + 1) mod 256 = kb_read k \<longleftrightarrow> kb_len k = 255"
proof -
  have "(kb_write k + 1) mod 256 = kb_read k \<longleftrightarrow> Suc (unat (kb_write k)) mod 256 = unat (kb_read k)"
    using assms by (simp add: word_unat_eq_iff unat_next kb_inv_def)
  also have "\<dots> \<longleftrightarrow> kb_len k = 255"
    using kb_inv_bounds [OF assms] unfolding kb_len_def by (simp add: ring_arith(2))
  finally show ?thesis .
qed

lemma kb_push_inv: "kb_inv k \<Longrightarrow> kb_inv (kb_push c k)"
  by (simp add: kb_inv_def kb_push_def Let_def word_less_nat_alt unat_mod)

lemma kb_push_contents:
  assumes "kb_inv k"
  shows "kb_contents (kb_push c k) =
    (if length (kb_contents k) < 255 then kb_contents k @ [c] else kb_contents k)"
proof (cases "kb_len k = 255")
  case True
  with assms show ?thesis by (simp add: kb_push_def Let_def kb_full_iff)
next
  case False
  let ?r = "unat (kb_read k)" and ?w = "unat (kb_write k)"
  from False have lt: "kb_len k < 255" using kb_len_bound [of k] by simp
  note b = kb_inv_bounds [OF assms]
  have k': "kb_push c k = k\<lparr>kb_buffer := (kb_buffer k)[?w := c], kb_write := (kb_write k + 1) mod 256\<rparr>"
    using assms False by (simp add: kb_push_def Let_def kb_full_iff)
  have len: "kb_len (kb_push c k) = Suc (kb_len k)"
    using assms b lt by (simp add: k' kb_len_def unat_next kb_inv_def ring_arith(3))
  have "(?r + kb_len k) mod 256 = ?w" "\<And>i. i < kb_len k \<Longrightarrow> (?r + i) mod 256 \<noteq> ?w"
    using b by (simp_all add: kb_len_def ring_arith(4,5))
  then show ?thesis
    using lt assms b unfolding kb_contents_def len
    by (fastforce simp: k' kb_inv_def nth_list_update)
qed

lemma getchar_none: "kb_inv k \<Longrightarrow> keyboard_getchar k = None \<longleftrightarrow> kb_contents k = []"
proof -
  assume inv: "kb_inv k"
  have "kb_read k = kb_write k \<longleftrightarrow> kb_len k = 0"
    using kb_inv_bounds [OF inv] by (simp add: kb_len_def ring_arith(7) word_unat_eq_iff)
  with inv kb_inv_bounds [OF inv] show ?thesis
    by (auto simp: keyboard_getchar_def getchar_peek_def kb_inv_def kb_contents_def)
qed

lemma getchar_some:
  assumes "kb_inv k" "keyboard_getchar k = Some (k', c)"
  shows "kb_contents k = c # kb_contents k' \<and> kb_inv k'"
proof -
  note b = kb_inv_bounds [OF assms(1)]
  from assms have ne: "kb_read k \<noteq> kb_write k" and c: "c = kb_buffer k ! unat (kb_read k)"
    and k': "k' = getchar_advance k"
    by (auto simp: keyboard_getchar_def getchar_peek_def kb_inv_def split: if_splits option.splits
      dest: get_at_SomeD)
  have r: "unat (kb_read k') = Suc (unat (kb_read k)) mod 256"
    using assms(1) by (simp add: k' getchar_advance_def unat_next kb_inv_def)
  have inv': "kb_inv k'"
    using assms(1) by (simp add: k' getchar_advance_def kb_inv_def word_less_nat_alt unat_mod)
  have "unat (kb_read k) \<noteq> unat (kb_write k)" using ne by (simp add: word_unat_eq_iff)
  with b r have len: "kb_len k = Suc (kb_len k')"
    unfolding kb_len_def by (simp add: k' getchar_advance_def ring_arith(6))
  have "(unat (kb_read k') + i) mod 256 = (unat (kb_read k) + Suc i) mod 256" for i
    unfolding r by (simp add: mod_add_left_eq)
  then have "kb_contents k = c # kb_contents k'"
    using b unfolding kb_contents_def len map_upt_Suc by (simp add: c k' getchar_advance_def)
  with inv' show ?thesis by simp
qed

interpretation kb_fifo: bounded_fifo kb_push keyboard_getchar kb_contents 255 kb_inv
  by unfold_locales (use kb_push_inv kb_push_contents getchar_none getchar_some in \<open>simp_all\<close>)

section \<open>Properties\<close>

lemma kbd_start_facts: "kb_inv kbd_start" "kb_contents kbd_start = []"
  by (simp_all add: kbd_start_def kb_inv_def kb_contents_def kb_len_def)

text \<open>C22: the buffer is a bounded queue: of the characters pushed while nobody reads, the first ones
  are kept, up to 255 in the buffer, and the later ones are dropped; reads return them in the
  order they were pushed.\<close>

theorem kb_buffer_queue:
  assumes "kb_inv k"
  shows "kb_contents (fold kb_push xs k) = take 255 (kb_contents k @ xs)
    \<and> (\<forall>n \<le> kb_len k. \<exists>k'. pops keyboard_getchar n k = Some (k', take n (kb_contents k))
         \<and> kb_contents k' = drop n (kb_contents k))"
  using kb_fifo.push_all_contents [OF assms, of xs] kb_fifo.pops_contents [OF assms] kb_len_bound [of k]
  by fastforce

theorem kb_buffer_queue_witness:
  "kb_contents (fold kb_push (bytes ''abc'') kbd_start) = bytes ''abc''"
  using kb_buffer_queue [OF kbd_start_facts(1), of "bytes ''abc''"] kbd_start_facts(2) by simp

lemma kb_push_other:
  "kb_read (kb_push c k) = kb_read k" "shift_pressed (kb_push c k) = shift_pressed k"
  "caps_lock (kb_push c k) = caps_lock k" "extended (kb_push c k) = extended k"
  by (simp_all add: kb_push_def Let_def)

lemma getchar_peek_push:
  assumes "kb_inv k" "getchar_peek k = Some c"
  shows "getchar_peek (kb_push d k) = Some c"
proof -
  have "keyboard_getchar k = Some (getchar_advance k, c)"
    using assms(2) by (simp add: keyboard_getchar_def)
  from getchar_some [OF assms(1) this] have "kb_contents k = c # kb_contents (getchar_advance k)" by simp
  then obtain rest where c: "kb_contents (kb_push d k) = c # rest"
    using kb_push_contents [OF assms(1), of d] by (metis append_Cons)
  then obtain k' c' where g: "keyboard_getchar (kb_push d k) = Some (k', c')"
    using getchar_none [OF kb_push_inv [OF assms(1)]] by (cases "keyboard_getchar (kb_push d k)") auto
  from getchar_some [OF kb_push_inv [OF assms(1)] g] c have "c' = c" by simp
  with g show ?thesis by (simp add: keyboard_getchar_def split: option.splits)
qed

text \<open>C23: reading is atomic with respect to the interrupt handler. When interrupts push characters
  between the two accesses of \<open>keyboard_getchar\<close>, the outcome is that of pushing them first and
  then reading in one step.\<close>

theorem keyboard_getchar_atomic:
  assumes "kb_inv k" "getchar_peek k = Some c"
  shows "keyboard_getchar (fold kb_push xs k) = Some (getchar_advance (fold kb_push xs k), c)"
proof -
  have "getchar_peek (fold kb_push xs k) = Some c"
    using assms by (induction xs arbitrary: k) (simp_all add: getchar_peek_push kb_push_inv)
  then show ?thesis by (simp add: keyboard_getchar_def)
qed

theorem keyboard_getchar_atomic_witness:
  "keyboard_getchar (kb_push 66 (kb_push 65 kbd_start)) = Some (getchar_advance (kb_push 66 (kb_push 65 kbd_start)), 65)"
proof -
  have "getchar_peek (kb_push 65 kbd_start) = Some 65"
    by (simp add: getchar_peek_def kb_push_def kbd_start_def)
  with keyboard_getchar_atomic [OF kb_push_inv [OF kbd_start_facts(1)], of 65 65 "[66]"]
  show ?thesis by simp
qed

subsection \<open>Typing\<close>

text \<open>The scancodes a user's keystrokes produce for a character: the key's make and break code, with
  the left shift key held when the character is only in the second table.\<close>

definition key_of :: "u8 list \<Rightarrow> u8 \<Rightarrow> nat option" where
  "key_of table c = first_from (\<lambda>i. table ! i = c) 2 58"

definition keystrokes :: "u8 \<Rightarrow> u8 list" where
  "keystrokes c =
     (case key_of scancode_normal c of
        Some i \<Rightarrow> [of_nat i, of_nat i + 0x80]
      | None \<Rightarrow> (case key_of scancode_shift c of
            Some i \<Rightarrow> [0x2A, of_nat i, of_nat i + 0x80, 0xAA]
          | None \<Rightarrow> []))"

definition typeable :: "u8 \<Rightarrow> bool" where
  "typeable c \<longleftrightarrow> c \<noteq> 0 \<and> (key_of scancode_normal c \<noteq> None \<or> key_of scancode_shift c \<noteq> None)"

definition idle :: "kbd \<Rightarrow> bool" where
  "idle k \<longleftrightarrow> \<not> shift_pressed k \<and> \<not> caps_lock k \<and> \<not> extended k"

lemma odd_div_128:
  fixes u :: nat
  assumes "u < 256"
  shows "odd (u div 128) \<longleftrightarrow> \<not> u < 128"
proof (cases "u < 128")
  case False
  define v where "v = u - 128"
  have u: "u = v + 128" "v < 128" using False assms by (simp_all add: v_def)
  have "u div 128 = 1" using u by (intro div_nat_eqI) simp_all
  with False show ?thesis by simp
qed simp

lemma and_128: "(x :: u8) AND 0x80 = 0 \<longleftrightarrow> unat x < 128"
proof -
  have "x AND 0x80 = x AND 2 ^ 7" by simp
  then have "x AND 0x80 = 0 \<longleftrightarrow> \<not> bit x 7" by (simp only: and_exp_eq_0_iff_not_bit)
  also have "bit x 7 \<longleftrightarrow> bit (unat x) 7" by (simp add: bit_unsigned_iff)
  also have "\<dots> \<longleftrightarrow> odd (unat x div 128)" by (simp add: bit_iff_odd)
  also have "\<dots> \<longleftrightarrow> \<not> unat x < 128" by (rule odd_div_128) simp
  finally show ?thesis by simp
qed

lemma key_ofD:
  assumes "key_of table c = Some i"
  shows "2 \<le> i" "i < 58" "table ! i = c"
  using first_from_SomeD [OF assms [unfolded key_of_def]] by simp_all

lemma modifier_entries:
  "scancode_normal ! 42 = 0" "scancode_normal ! 54 = 0" "scancode_shift ! 42 = 0" "scancode_shift ! 54 = 0"
  by (simp_all add: scancode_normal_def scancode_shift_def)

lemma of_nat_u8_eq: "i < 256 \<Longrightarrow> j < 256 \<Longrightarrow> (of_nat i :: u8) = of_nat j \<longleftrightarrow> i = j"
  by (simp add: word_unat_eq_iff unat_of_nat)

lemma make_code:
  assumes "2 \<le> i" "i < 58" "i \<noteq> 42" "i \<noteq> 54" "\<not> extended k" "\<not> caps_lock k"
    and "c = (if shift_pressed k then scancode_shift ! i else scancode_normal ! i)" "c \<noteq> 0"
  shows "keyboard_callback (of_nat i) k = kb_push c k"
proof -
  have u: "unat (of_nat i :: u8) = i" using assms(2) by (simp add: unat_of_nat)
  then have "(of_nat i :: u8) AND 0x80 = 0" using assms(2) by (simp add: and_128)
  moreover have "(of_nat i :: u8) \<noteq> 0xE0" "(of_nat i :: u8) \<noteq> 0x2A" "(of_nat i :: u8) \<noteq> 0x36"
    "(of_nat i :: u8) \<noteq> 0x3A" "(of_nat i :: u8) \<noteq> 0x01" "(of_nat i :: u8) < 128"
    using assms u by (auto simp: word_unat_eq_iff word_less_nat_alt)
  ultimately show ?thesis
    using assms by (simp add: keyboard_callback_def Let_def u)
qed

lemma break_code:
  assumes "i < 58" "\<not> extended k"
  shows "keyboard_callback (of_nat i + 0x80) k \<in> {k, k\<lparr>shift_pressed := False\<rparr>}"
proof -
  have u: "unat (of_nat i + 0x80 :: u8) = i + 128"
    using assms(1) by (simp add: unat_word_ariths unat_of_nat)
  then have "(of_nat i + 0x80 :: u8) AND 0x80 \<noteq> 0" by (simp add: and_128)
  moreover have "(of_nat i + 0x80 :: u8) \<noteq> 0xE0" using assms u by (auto simp: word_unat_eq_iff)
  ultimately show ?thesis using assms(2) by (simp add: keyboard_callback_def Let_def)
qed

lemma shift_off_id: "\<not> shift_pressed k \<Longrightarrow> k\<lparr>shift_pressed := False\<rparr> = k"
  by (cases k) simp

lemma shift_codes:
  "\<not> extended k \<Longrightarrow> keyboard_callback 0x2A k = k\<lparr>shift_pressed := True\<rparr>"
  "\<not> extended k \<Longrightarrow> keyboard_callback 0xAA k = k\<lparr>shift_pressed := False\<rparr>"
  by (simp_all add: keyboard_callback_def Let_def)

lemma kb_push_shift: "(kb_push c (k\<lparr>shift_pressed := b\<rparr>))\<lparr>shift_pressed := b'\<rparr> = kb_push c (k\<lparr>shift_pressed := b'\<rparr>)"
  by (simp add: kb_push_def Let_def)

lemma keystrokes_push:
  assumes "idle k" "typeable c"
  shows "fold keyboard_callback (keystrokes c) k = kb_push c k"
proof (cases "key_of scancode_normal c")
  case (Some i)
  note i = key_ofD [OF Some]
  with assms modifier_entries have "i \<noteq> 42" "i \<noteq> 54" by (auto simp: typeable_def)
  with i assms have m: "keyboard_callback (of_nat i) k = kb_push c k"
    by (intro make_code) (auto simp: idle_def typeable_def)
  have "\<not> extended (kb_push c k)" "\<not> shift_pressed (kb_push c k)"
    using assms by (simp_all add: idle_def kb_push_other)
  with break_code [OF i(2), of "kb_push c k"] show ?thesis
    by (auto simp: keystrokes_def Some m shift_off_id)
next
  case None
  with assms obtain i where Some: "key_of scancode_shift c = Some i" by (auto simp: typeable_def)
  note i = key_ofD [OF Some]
  let ?k = "k\<lparr>shift_pressed := True\<rparr>"
  from i assms modifier_entries have "i \<noteq> 42" "i \<noteq> 54" by (auto simp: typeable_def)
  with i assms have m: "keyboard_callback (of_nat i) ?k = kb_push c ?k"
    by (intro make_code) (auto simp: idle_def typeable_def)
  have e: "\<not> extended k" "\<not> shift_pressed k" "\<not> extended (kb_push c ?k)"
    using assms by (simp_all add: idle_def kb_push_other)
  have "keyboard_callback 0xAA (keyboard_callback (of_nat i + 0x80) (kb_push c ?k))
      = (kb_push c ?k)\<lparr>shift_pressed := False\<rparr>"
    using break_code [OF i(2) e(3)] e(3) by (auto simp: shift_codes)
  with e show ?thesis
    by (simp add: keystrokes_def None Some shift_codes m kb_push_shift shift_off_id)
qed

lemma idle_push: "idle (kb_push c k) = idle k"
  by (simp add: idle_def kb_push_other)

lemma key_of_iff: "length table = 128 \<Longrightarrow> key_of table c \<noteq> None \<longleftrightarrow> c \<in> set (drop 2 (take 58 table))"
proof -
  assume "length table = 128"
  then have "c \<in> set (drop 2 (take 58 table)) \<longleftrightarrow> (\<exists>i < 56. table ! (2 + i) = c)"
    by (auto simp: in_set_conv_nth)
  also have "\<dots> \<longleftrightarrow> (\<exists>j. 2 \<le> j \<and> j < 58 \<and> table ! j = c)"
  proof
    assume "\<exists>j. 2 \<le> j \<and> j < 58 \<and> table ! j = c"
    then obtain j where "2 \<le> j" "j < 58" "table ! j = c" by blast
    then have "j - 2 < 56 \<and> table ! (2 + (j - 2)) = c" by (simp only: le_add_diff_inverse) simp
    then show "\<exists>i < 56. table ! (2 + i) = c" by blast
  next
    assume "\<exists>i < 56. table ! (2 + i) = c"
    then obtain i where "i < 56" "table ! (2 + i) = c" by blast
    then show "\<exists>j. 2 \<le> j \<and> j < 58 \<and> table ! j = c" by (intro exI [of _ "2 + i"]) simp
  qed
  also have "\<dots> \<longleftrightarrow> key_of table c \<noteq> None"
    by (auto simp: key_of_def first_from_None_iff)
  finally show ?thesis by simp
qed

lemma table_codes:
  "map unat (drop 2 (take 58 scancode_normal)) =
    [49, 50, 51, 52, 53, 54, 55, 56, 57, 48, 45, 61, 8, 9, 113, 119, 101, 114, 116, 121, 117, 105,
     111, 112, 91, 93, 10, 0, 97, 115, 100, 102, 103, 104, 106, 107, 108, 59, 39, 96, 0, 92, 122,
     120, 99, 118, 98, 110, 109, 44, 46, 47, 0, 42, 0, 32]"
  "map unat (drop 2 (take 58 scancode_shift)) =
    [33, 64, 35, 36, 37, 94, 38, 42, 40, 41, 95, 43, 8, 9, 81, 87, 69, 82, 84, 89, 85, 73,
     79, 80, 123, 125, 10, 0, 65, 83, 68, 70, 71, 72, 74, 75, 76, 58, 34, 126, 0, 124, 90,
     88, 67, 86, 66, 78, 77, 60, 62, 63, 0, 42, 0, 32]"
  by (simp_all add: scancode_normal_def scancode_shift_def unat_byte)

lemma printable_codes:
  "set (10 # [32 ..< 127]) \<subseteq> set (map unat (drop 2 (take 58 scancode_normal))
    @ map unat (drop 2 (take 58 scancode_shift)))"
  unfolding table_codes by simp

lemma printable_typeable:
  assumes "32 \<le> c \<and> c \<le> 126 \<or> c = 10"
  shows "typeable c"
proof -
  have "unat c \<in> set (10 # [32 ..< 127])"
    using assms by (auto simp: word_le_nat_alt word_unat_eq_iff simp del: upt_rec_numeral)
  then have "unat c \<in> unat ` (set (drop 2 (take 58 scancode_normal)) \<union> set (drop 2 (take 58 scancode_shift)))"
    using printable_codes by (auto simp del: upt_rec_numeral)
  then have "c \<in> set (drop 2 (take 58 scancode_normal)) \<union> set (drop 2 (take 58 scancode_shift))"
    by (auto simp flip: word_unat_eq_iff)
  moreover have "length scancode_normal = 128" "length scancode_shift = 128"
    by (simp_all add: scancode_normal_def scancode_shift_def)
  moreover have "c \<noteq> 0" using assms by (auto simp: word_le_nat_alt)
  ultimately show ?thesis by (auto simp: typeable_def key_of_iff simp flip: not_None_eq)
qed

text \<open>C24: typing works: a line of printable characters and newlines, each typed with its key (and
  the shift key where needed) while the driver is idle, ends up in the buffer as exactly those
  characters, and reading gets them back; at most 255 fit.\<close>

theorem keyboard_types_line:
  assumes "kb_inv k" "idle k" "kb_contents k = []" "length w \<le> 255"
    and "\<forall>c \<in> set w. 32 \<le> c \<and> c \<le> 126 \<or> c = 10"
  shows "\<exists>k'. pops keyboard_getchar (length w) (fold keyboard_callback (concat (map keystrokes w)) k)
      = Some (k', w) \<and> kb_contents k' = []"
proof -
  have "fold keyboard_callback (concat (map keystrokes w)) k = fold kb_push w k"
    using assms(2,5)
  proof (induction w arbitrary: k)
    case (Cons c w)
    then have "typeable c" by (intro printable_typeable) simp
    with Cons keystrokes_push [of k c] show ?case by (simp add: idle_push)
  qed simp
  with kb_fifo.fifo_roundtrip [OF assms(1,3,4)] show ?thesis by simp
qed

theorem keyboard_types_line_witness:
  "\<exists>k'. pops keyboard_getchar 3 (fold keyboard_callback [0x2A, 35, 163, 0xAA, 23, 151, 28, 156] kbd_start)
    = Some (k', bytes ''Hi'' @ [10])"
proof -
  have "keystrokes (byte CHR ''H'') = [0x2A, 35, 163, 0xAA]" "keystrokes (byte CHR ''i'') = [23, 151]"
    "keystrokes 10 = [28, 156]"
    by code_simp+
  moreover have "\<forall>c \<in> set (bytes ''Hi'' @ [10]). 32 \<le> c \<and> c \<le> 126 \<or> c = 10"
    by (simp add: byte_def of_char_def)
  moreover have "idle kbd_start" by (simp add: idle_def kbd_start_def)
  ultimately show ?thesis
    using keyboard_types_line [OF kbd_start_facts(1) _ kbd_start_facts(2), of "bytes ''Hi'' @ [10]"]
    by (auto simp: numeral_3_eq_3)
qed

end
