(* ===== verification/Vga.thy ===== *)
theory Vga
  imports Keyboard
begin

text \<open>
  The text terminal \<^verbatim>\<open>src/vga.c\<close>: 25 rows of 80 cells in video memory, a cursor, a colour and a
  pager that stops the output every 23 lines until a key is pressed. The state \<open>screen\<close> holds the
  file's static variables, the video memory and the bytes written to the ports of the cursor.
  An operation ends with a new state, with \<open>Fault\<close> (an access outside video memory) or with
  \<open>Waiting\<close>: the pager waits for a key and there is none. \<open>keys\<close> are the characters that
  \<open>keyboard_getchar\<close> will deliver.
\<close>

section \<open>State\<close>

abbreviation (input) VGA_WIDTH :: nat where "VGA_WIDTH \<equiv> 80"
abbreviation (input) VGA_HEIGHT :: nat where "VGA_HEIGHT \<equiv> 25"

datatype stop = Fault | Waiting

record screen =
  terminal_row :: nat
  terminal_column :: nat
  terminal_color :: u8
  terminal_buffer :: "u16 list"
  pager_enabled :: bool
  pager_lines :: int
  keys :: "u8 list"
  port_log :: "(u16 \<times> u8) list"

type_synonym screen_result = "stop + screen"

definition vga_entry_color :: "u8 \<Rightarrow> u8 \<Rightarrow> u8" where
  "vga_entry_color fg bg = fg OR push_bit 4 bg"

definition vga_entry :: "u8 \<Rightarrow> u8 \<Rightarrow> u16" where
  "vga_entry c color = ucast c OR push_bit 8 (ucast color)"

section \<open>Operations\<close>

text \<open>Sequencing, and a C loop over a range of indices.\<close>

fun andthen :: "'e + 's \<Rightarrow> ('s \<Rightarrow> 'e + 't) \<Rightarrow> 'e + 't" where
  "andthen (Inl e) f = Inl e"
| "andthen (Inr s) f = f s"

fun loop :: "('a \<Rightarrow> 's \<Rightarrow> 'e + 's) \<Rightarrow> 'a list \<Rightarrow> 's \<Rightarrow> 'e + 's" where
  "loop f [] s = Inr s"
| "loop f (x # xs) s = andthen (f x s) (loop f xs)"

definition put_cell :: "nat \<Rightarrow> u16 \<Rightarrow> screen \<Rightarrow> screen_result" where
  "put_cell i v t =
     (if i < length (terminal_buffer t)
      then Inr (t\<lparr>terminal_buffer := (terminal_buffer t)[i := v]\<rparr>) else Inl Fault)"

definition move_cell :: "nat \<Rightarrow> nat \<Rightarrow> screen \<Rightarrow> screen_result" where
  "move_cell d s t =
     (if s < length (terminal_buffer t) then put_cell d (terminal_buffer t ! s) t else Inl Fault)"

definition outb :: "u16 \<Rightarrow> u8 \<Rightarrow> screen \<Rightarrow> screen" where
  "outb port v t = t\<lparr>port_log := port_log t @ [(port, v)]\<rparr>"

definition terminal_update_cursor :: "nat \<Rightarrow> nat \<Rightarrow> screen \<Rightarrow> screen" where
  "terminal_update_cursor x y t =
     (let pos = (of_nat (y * VGA_WIDTH + x) :: u16) in
      outb 0x3D5 (ucast (pos AND 0xFF)) (outb 0x3D4 15
        (outb 0x3D5 (ucast (drop_bit 8 pos)) (outb 0x3D4 14 t))))"

definition fill_screen :: "screen \<Rightarrow> screen_result" where
  "fill_screen = loop (\<lambda>y. loop (\<lambda>x t. put_cell (y * VGA_WIDTH + x)
     (vga_entry (byte CHR '' '') (terminal_color t)) t) [0 ..< VGA_WIDTH]) [0 ..< VGA_HEIGHT]"

definition terminal_initialize :: "screen \<Rightarrow> screen_result" where
  "terminal_initialize t =
     andthen (fill_screen (t\<lparr>terminal_row := 0, terminal_column := 0,
          terminal_color := vga_entry_color 7 0\<rparr>))
       (\<lambda>t. Inr (terminal_update_cursor 0 0 t))"

definition terminal_clear :: "screen \<Rightarrow> screen_result" where
  "terminal_clear t =
     andthen (fill_screen (t\<lparr>terminal_row := 0, terminal_column := 0, pager_lines := 0\<rparr>))
       (\<lambda>t. Inr (terminal_update_cursor 0 0 t))"

definition terminal_setcolor :: "u8 \<Rightarrow> screen \<Rightarrow> screen" where
  "terminal_setcolor color t = t\<lparr>terminal_color := color\<rparr>"

definition terminal_scroll :: "screen \<Rightarrow> screen_result" where
  "terminal_scroll t =
     andthen (loop (\<lambda>y. loop (\<lambda>x. move_cell ((y - 1) * VGA_WIDTH + x) (y * VGA_WIDTH + x))
         [0 ..< VGA_WIDTH]) [1 ..< VGA_HEIGHT] t)
       (loop (\<lambda>x t. put_cell ((VGA_HEIGHT - 1) * VGA_WIDTH + x)
         (vga_entry (byte CHR '' '') (terminal_color t)) t) [0 ..< VGA_WIDTH])"

definition scroll_if_below :: "screen \<Rightarrow> screen_result" where
  "scroll_if_below t =
     (if terminal_row t \<ge> VGA_HEIGHT
      then andthen (terminal_scroll t) (\<lambda>t. Inr (t\<lparr>terminal_row := VGA_HEIGHT - 1\<rparr>))
      else Inr t)"

definition pager_msg :: "u8 list" where
  "pager_msg = bytes '' -- Press any key for more, Q to stop -- ''"

definition finish_char :: "screen \<Rightarrow> screen_result" where
  "finish_char t = andthen (scroll_if_below t)
     (\<lambda>t. Inr (terminal_update_cursor (terminal_column t) (terminal_row t) t))"

text \<open>The pager's prompt: shown, a key awaited, erased. With Q the character handler returns at
  once, otherwise it goes on to the end.\<close>

definition pager_prompt :: "screen \<Rightarrow> screen_result" where
  "pager_prompt t =
     (let saved = terminal_color t in
      andthen (scroll_if_below (t\<lparr>terminal_color := vga_entry_color 0 7\<rparr>)) (\<lambda>t.
        let idx = terminal_row t * VGA_WIDTH + terminal_column t in
        andthen (loop (\<lambda>i t. put_cell (idx + i) (vga_entry (pager_msg ! i) (terminal_color t)) t)
            [0 ..< length pager_msg] t) (\<lambda>t.
          case keys t of
            [] \<Rightarrow> Inl Waiting
          | k # ks \<Rightarrow>
              andthen (loop (\<lambda>x t. put_cell (terminal_row t * VGA_WIDTH + x)
                    (vga_entry (byte CHR '' '') saved) t) [0 ..< VGA_WIDTH]
                  (t\<lparr>terminal_color := saved, keys := ks\<rparr>)) (\<lambda>t.
                let t = t\<lparr>terminal_column := 0, pager_lines := 0\<rparr> in
                if k = byte CHR ''q'' \<or> k = byte CHR ''Q''
                then Inr (t\<lparr>pager_enabled := False\<rparr>) else finish_char t))))"

definition terminal_putchar :: "u8 \<Rightarrow> screen \<Rightarrow> screen_result" where
  "terminal_putchar c t =
     (if c = 10
      then let t = t\<lparr>terminal_column := 0, terminal_row := terminal_row t + 1\<rparr> in
        if pager_enabled t
        then let t = t\<lparr>pager_lines := pager_lines t + 1\<rparr> in
          if pager_lines t \<ge> int VGA_HEIGHT - 2 then pager_prompt t else finish_char t
        else finish_char t
      else if c = 13 then finish_char (t\<lparr>terminal_column := 0\<rparr>)
      else if c = 9
      then let col = unat ((of_nat (terminal_column t + 4) :: u32) AND NOT 3) in
        finish_char (if col \<ge> VGA_WIDTH
          then t\<lparr>terminal_column := 0, terminal_row := terminal_row t + 1\<rparr>
          else t\<lparr>terminal_column := col\<rparr>)
      else if c = 8
      then if terminal_column t > 0
        then let t = t\<lparr>terminal_column := terminal_column t - 1\<rparr> in
          andthen (put_cell (terminal_row t * VGA_WIDTH + terminal_column t)
            (vga_entry (byte CHR '' '') (terminal_color t)) t) finish_char
        else finish_char t
      else andthen (put_cell (terminal_row t * VGA_WIDTH + terminal_column t)
            (vga_entry c (terminal_color t)) t) (\<lambda>t.
          let t = t\<lparr>terminal_column := terminal_column t + 1\<rparr> in
          finish_char (if terminal_column t \<ge> VGA_WIDTH
            then t\<lparr>terminal_column := 0, terminal_row := terminal_row t + 1\<rparr> else t)))"

definition terminal_putchar_color :: "u8 \<Rightarrow> u8 \<Rightarrow> screen \<Rightarrow> screen_result" where
  "terminal_putchar_color c color t =
     (let saved = terminal_color t in
      andthen (terminal_putchar c (t\<lparr>terminal_color := color\<rparr>))
        (\<lambda>t. Inr (t\<lparr>terminal_color := saved\<rparr>)))"

definition terminal_write :: "u8 list \<Rightarrow> screen \<Rightarrow> screen_result" where
  "terminal_write = loop terminal_putchar"

fun terminal_writestring :: "u8 list \<Rightarrow> screen \<Rightarrow> screen_result" where
  "terminal_writestring [] t = Inr t"
| "terminal_writestring (c # s) t =
     (if c \<noteq> 0 then andthen (terminal_putchar c t) (terminal_writestring s) else Inr t)"

definition terminal_get_row :: "screen \<Rightarrow> nat" where
  "terminal_get_row t = terminal_row t"

definition terminal_enable_pager :: "screen \<Rightarrow> screen" where
  "terminal_enable_pager t = t\<lparr>pager_enabled := True, pager_lines := 0\<rparr>"

definition terminal_disable_pager :: "screen \<Rightarrow> screen" where
  "terminal_disable_pager t = t\<lparr>pager_enabled := False, pager_lines := 0\<rparr>"

section \<open>Safety and scrolling\<close>

definition vga_ok :: "screen \<Rightarrow> bool" where
  "vga_ok t \<longleftrightarrow> length (terminal_buffer t) = 2000 \<and> terminal_row t < 25 \<and> terminal_column t < 80"

definition blank :: "screen \<Rightarrow> u16" where
  "blank t = vga_entry (byte CHR '' '') (terminal_color t)"

lemma andthen_Inr_iff: "andthen r f = Inr y \<longleftrightarrow> (\<exists>x. r = Inr x \<and> f x = Inr y)"
  by (cases r) auto

lemma loop_range:
  assumes "\<And>i. a \<le> i \<Longrightarrow> i < b \<Longrightarrow> f i (S i) = Inr (S (Suc i))" "a \<le> b"
  shows "loop f [a ..< b] (S a) = Inr (S b)"
  using assms
proof (induction "b - a" arbitrary: a)
  case 0
  then show ?case by simp
next
  case (Suc n)
  then have "a < b" by simp
  with Suc(1)[of "Suc a"] Suc(2-) show ?case by (simp add: upt_conv_Cons)
qed

text \<open>Cells \<open>b\<close> to \<open>b + n - 1\<close> written one after the other.\<close>

lemma loop_put_cells_gen:
  assumes "p t + n \<le> length (terminal_buffer t)"
    and indep: "\<And>B. p (t\<lparr>terminal_buffer := B\<rparr>) = p t" "\<And>i B. g i (t\<lparr>terminal_buffer := B\<rparr>) = g i t"
  shows "loop (\<lambda>i t. put_cell (p t + i) (g i t) t) [0 ..< n] t =
    Inr (t\<lparr>terminal_buffer := take (p t) (terminal_buffer t) @ map (\<lambda>i. g i t) [0 ..< n]
      @ drop (p t + n) (terminal_buffer t)\<rparr>)"
proof -
  let ?B = "terminal_buffer t"
  define S where "S k = t\<lparr>terminal_buffer := take (p t) ?B @ map (\<lambda>i. g i t) [0 ..< k]
      @ drop (p t + k) ?B\<rparr>" for k
  have "loop (\<lambda>i t. put_cell (p t + i) (g i t) t) [0 ..< n] (S 0) = Inr (S n)"
  proof (rule loop_range)
    fix i assume "i < n"
    then have "p t + i < length ?B" using assms by simp
    then have "drop (p t + i) ?B = ?B ! (p t + i) # drop (p t + Suc i) ?B" by (simp add: Cons_nth_drop_Suc)
    with \<open>p t + i < length ?B\<close>
    show "put_cell (p (S i) + i) (g i (S i)) (S i) = Inr (S (Suc i))"
      by (simp add: S_def put_cell_def list_update_append indep)
  qed simp
  moreover have "S 0 = t" by (simp add: S_def)
  ultimately show ?thesis by (simp add: S_def)
qed

lemma loop_put_cells:
  assumes "b + n \<le> length (terminal_buffer t)"
  shows "loop (\<lambda>i t. put_cell (b + i) (g i (terminal_color t)) t) [0 ..< n] t =
    Inr (t\<lparr>terminal_buffer := take b (terminal_buffer t) @ map (\<lambda>i. g i (terminal_color t)) [0 ..< n]
      @ drop (b + n) (terminal_buffer t)\<rparr>)"
  using loop_put_cells_gen [of "\<lambda>_. b" t n "\<lambda>i t. g i (terminal_color t)"] assms by simp

lemma scroll_copy:
  assumes "length (terminal_buffer t) = 2000"
  shows "loop (\<lambda>y. loop (\<lambda>x. move_cell ((y - 1) * 80 + x) (y * 80 + x)) [0 ..< 80]) [1 ..< 25] t =
    Inr (t\<lparr>terminal_buffer := drop 80 (terminal_buffer t) @ drop 1920 (terminal_buffer t)\<rparr>)"
proof -
  let ?B = "terminal_buffer t"
  define M where "M k = t\<lparr>terminal_buffer := take k (drop 80 ?B) @ drop k ?B\<rparr>" for k
  have step: "move_cell k (k + 80) (M k) = Inr (M (Suc k))" if "k < 1920" for k
  proof -
    have len: "length (take k (drop 80 ?B)) = k" using that assms by simp
    have "drop k ?B = ?B ! k # drop (Suc k) ?B" using that assms by (simp add: Cons_nth_drop_Suc)
    moreover have "(take k (drop 80 ?B) @ drop k ?B) ! (k + 80) = ?B ! (k + 80)"
      using that assms by (simp add: nth_append)
    moreover have "take (Suc k) (drop 80 ?B) = take k (drop 80 ?B) @ [?B ! (k + 80)]"
      using that assms by (simp add: take_Suc_conv_app_nth add.commute)
    ultimately show ?thesis
      using that assms len by (simp add: M_def move_cell_def put_cell_def list_update_append)
  qed
  have row: "loop (\<lambda>x. move_cell ((y - 1) * 80 + x) (y * 80 + x)) [0 ..< 80] (M ((y - 1) * 80)) = Inr (M (y * 80))"
    if "1 \<le> y" "y < 25" for y
  proof -
    from that obtain z where z: "y = Suc z" "z < 24" by (cases y) auto
    have "loop (\<lambda>x. move_cell (z * 80 + x) (Suc z * 80 + x)) [0 ..< 80] (M (z * 80 + 0)) = Inr (M (z * 80 + 80))"
    proof (rule loop_range [where S = "\<lambda>x. M (z * 80 + x)"])
      fix x :: nat assume "x < 80"
      with z(2) step [of "z * 80 + x"] show "move_cell (z * 80 + x) (Suc z * 80 + x) (M (z * 80 + x)) = Inr (M (z * 80 + Suc x))"
        by (simp add: algebra_simps)
    qed simp
    then show ?thesis by (simp add: z(1) add.commute)
  qed
  have "loop (\<lambda>y. loop (\<lambda>x. move_cell ((y - 1) * 80 + x) (y * 80 + x)) [0 ..< 80]) [1 ..< 25] (M ((1 - 1) * 80))
      = Inr (M ((25 - 1) * 80))"
    using row by (intro loop_range [where S = "\<lambda>y. M ((y - 1) * 80)"]) simp_all
  moreover have "M ((1 - 1) * 80) = t" by (simp add: M_def)
  ultimately show ?thesis using assms by (simp add: M_def)
qed

lemma terminal_scroll_eq:
  assumes "length (terminal_buffer t) = 2000"
  shows "terminal_scroll t =
    Inr (t\<lparr>terminal_buffer := drop 80 (terminal_buffer t) @ replicate 80 (blank t)\<rparr>)"
proof -
  let ?t = "t\<lparr>terminal_buffer := drop 80 (terminal_buffer t) @ drop 1920 (terminal_buffer t)\<rparr>"
  have "loop (\<lambda>x t. put_cell (1920 + x) (vga_entry (byte CHR '' '') (terminal_color t)) t) [0 ..< 80] ?t
      = Inr (t\<lparr>terminal_buffer := drop 80 (terminal_buffer t) @ replicate 80 (blank t)\<rparr>)"
    using assms by (subst loop_put_cells) (simp_all add: blank_def map_replicate_const)
  with scroll_copy [OF assms] show ?thesis by (simp add: terminal_scroll_def)
qed

text \<open>The states in which a character handler reaches its end: the row may be one too many.\<close>

text \<open>Filling the screen, for \<open>terminal_initialize\<close> and \<open>terminal_clear\<close>.\<close>

lemma fill_screen_eq:
  assumes "length (terminal_buffer t) = 2000"
  shows "fill_screen t = Inr (t\<lparr>terminal_buffer := replicate 2000 (blank t)\<rparr>)"
proof -
  define S where "S y = t\<lparr>terminal_buffer := replicate (y * 80) (blank t) @ drop (y * 80) (terminal_buffer t)\<rparr>" for y
  let ?row = "\<lambda>y. loop (\<lambda>x t. put_cell (y * 80 + x) (vga_entry (byte CHR '' '') (terminal_color t)) t) [0 ..< 80]"
  have "loop ?row [0 ..< 25] (S 0) = Inr (S 25)"
  proof (rule loop_range)
    fix y :: nat assume "y < 25"
    then have y: "y * 80 + 80 \<le> 2000" by simp
    then have "y * 80 + 80 \<le> length (terminal_buffer (S y))" using assms by (simp add: S_def)
    from loop_put_cells [OF this, of "\<lambda>_. vga_entry (byte CHR '' '')"]
    have "?row y (S y) = Inr ((S y)\<lparr>terminal_buffer := take (y * 80) (terminal_buffer (S y))
        @ map (\<lambda>i. blank t) [0 ..< 80] @ drop (y * 80 + 80) (terminal_buffer (S y))\<rparr>)"
      by (simp add: S_def blank_def)
    also have "\<dots> = Inr (S (Suc y))"
    proof -
      have "replicate (Suc y * 80) (blank t) = replicate (y * 80) (blank t) @ replicate 80 (blank t)"
        by (simp add: replicate_add [symmetric] add.commute)
      then show ?thesis using y assms by (simp add: S_def map_replicate_const add.commute)
    qed
    finally show "?row y (S y) = Inr (S (Suc y))" .
  qed simp
  then show ?thesis using assms by (simp add: fill_screen_def S_def)
qed

lemma terminal_initialize_eq:
  assumes "length (terminal_buffer t) = 2000"
  shows "\<exists>t'. terminal_initialize t = Inr t' \<and> vga_ok t' \<and> pager_enabled t' = pager_enabled t \<and> keys t' = keys t
    \<and> terminal_buffer t' = replicate 2000 (vga_entry (byte CHR '' '') (vga_entry_color 7 0))"
  using fill_screen_eq [of "t\<lparr>terminal_row := 0, terminal_column := 0, terminal_color := vga_entry_color 7 0\<rparr>"] assms
  by (simp add: terminal_initialize_def terminal_update_cursor_def outb_def Let_def vga_ok_def blank_def)

lemma terminal_clear_eq:
  assumes "length (terminal_buffer t) = 2000"
  shows "\<exists>t'. terminal_clear t = Inr t' \<and> vga_ok t' \<and> pager_enabled t' = pager_enabled t
    \<and> terminal_buffer t' = replicate 2000 (blank t)"
  using fill_screen_eq [of "t\<lparr>terminal_row := 0, terminal_column := 0, pager_lines := 0\<rparr>"] assms
  by (simp add: terminal_clear_def terminal_update_cursor_def outb_def Let_def vga_ok_def blank_def)

definition vga_mid :: "screen \<Rightarrow> bool" where
  "vga_mid t \<longleftrightarrow> length (terminal_buffer t) = 2000 \<and> terminal_row t \<le> 25 \<and> terminal_column t < 80"

definition scrolled :: "screen \<Rightarrow> screen" where
  "scrolled t = (if terminal_row t \<ge> 25
     then t\<lparr>terminal_buffer := drop 80 (terminal_buffer t) @ replicate 80 (blank t), terminal_row := 24\<rparr>
     else t)"

lemma scroll_if_below_eq: "vga_mid t \<Longrightarrow> scroll_if_below t = Inr (scrolled t)"
  by (simp add: scroll_if_below_def scrolled_def vga_mid_def terminal_scroll_eq)

lemma scrolled_ok: "vga_mid t \<Longrightarrow> vga_ok (scrolled t)"
  by (auto simp: vga_mid_def vga_ok_def scrolled_def)

lemma scrolled_simps [simp]:
  "terminal_column (scrolled t) = terminal_column t" "terminal_color (scrolled t) = terminal_color t"
  "pager_enabled (scrolled t) = pager_enabled t" "keys (scrolled t) = keys t"
  "pager_lines (scrolled t) = pager_lines t"
  by (simp_all add: scrolled_def)

lemma cursor_simps [simp]:
  "terminal_row (terminal_update_cursor x y t) = terminal_row t"
  "terminal_column (terminal_update_cursor x y t) = terminal_column t"
  "terminal_buffer (terminal_update_cursor x y t) = terminal_buffer t"
  "terminal_color (terminal_update_cursor x y t) = terminal_color t"
  "pager_enabled (terminal_update_cursor x y t) = pager_enabled t"
  "pager_lines (terminal_update_cursor x y t) = pager_lines t"
  "keys (terminal_update_cursor x y t) = keys t"
  by (simp_all add: terminal_update_cursor_def outb_def Let_def)

lemma finish_char_eq:
  "vga_mid t \<Longrightarrow> finish_char t =
    Inr (terminal_update_cursor (terminal_column t) (terminal_row (scrolled t)) (scrolled t))"
  by (simp add: finish_char_def scroll_if_below_eq)

lemma cursor_ok [simp]: "vga_ok (terminal_update_cursor x y t) = vga_ok t"
  by (simp add: vga_ok_def)

lemma finish_char_ok:
  assumes "vga_mid t"
  shows "\<exists>t'. finish_char t = Inr t' \<and> vga_ok t' \<and> pager_enabled t' = pager_enabled t \<and> keys t' = keys t"
  using finish_char_eq [OF assms] scrolled_ok [OF assms] by simp

lemma pager_msg_length: "length pager_msg = 41"
  by (simp add: pager_msg_def)

lemma pager_prompt_ok:
  assumes "vga_mid t" "terminal_column t = 0"
  shows "case keys t of [] \<Rightarrow> pager_prompt t = Inl Waiting
    | k # ks \<Rightarrow> \<exists>t'. pager_prompt t = Inr t' \<and> vga_ok t' \<and> keys t' = ks
        \<and> terminal_color t' = terminal_color t
        \<and> pager_enabled t' = (pager_enabled t \<and> k \<noteq> byte CHR ''q'' \<and> k \<noteq> byte CHR ''Q'')
        \<and> terminal_column t' = 0 \<and> pager_lines t' = 0"
proof -
  define t1 where "t1 = scrolled (t\<lparr>terminal_color := vga_entry_color 0 7\<rparr>)"
  have mid: "vga_mid (t\<lparr>terminal_color := vga_entry_color 0 7\<rparr>)" using assms by (simp add: vga_mid_def)
  have ok: "vga_ok t1" "terminal_column t1 = 0" "keys t1 = keys t" "pager_enabled t1 = pager_enabled t"
    using scrolled_ok [OF mid] assms(2) by (simp_all add: t1_def)
  have prompt: "loop (\<lambda>i t. put_cell (terminal_row t1 * 80 + i) (vga_entry (pager_msg ! i) (terminal_color t)) t)
      [0 ..< length pager_msg] t1 = Inr (t1\<lparr>terminal_buffer := take (terminal_row t1 * 80) (terminal_buffer t1)
        @ map (\<lambda>i. vga_entry (pager_msg ! i) (terminal_color t1)) [0 ..< length pager_msg]
        @ drop (terminal_row t1 * 80 + length pager_msg) (terminal_buffer t1)\<rparr>)" (is "_ = Inr ?t2")
    using ok(1) by (intro loop_put_cells [where g = "\<lambda>i. vga_entry (pager_msg ! i)"])
      (simp add: vga_ok_def pager_msg_length)
  have len: "length (terminal_buffer ?t2) = 2000"
    using ok(1) by (simp add: vga_ok_def pager_msg_length)
  define t3 where "t3 ks = (?t2\<lparr>terminal_color := terminal_color t, keys := ks\<rparr>)
      \<lparr>terminal_buffer := take (terminal_row t1 * 80) (terminal_buffer ?t2)
        @ replicate 80 (blank t) @ drop (terminal_row t1 * 80 + 80) (terminal_buffer ?t2)\<rparr>" for ks
  have erase: "loop (\<lambda>x u. put_cell (terminal_row u * 80 + x) (vga_entry (byte CHR '' '') (terminal_color t)) u)
      [0 ..< 80] (?t2\<lparr>terminal_color := terminal_color t, keys := ks\<rparr>) = Inr (t3 ks)" for ks
    using ok(1) len by (subst loop_put_cells_gen [where p = "\<lambda>u. terminal_row u * 80"
        and g = "\<lambda>_ _. vga_entry (byte CHR '' '') (terminal_color t)"])
      (simp_all add: vga_ok_def t3_def blank_def map_replicate_const)
  have t3: "vga_ok (t3 ks)" "keys (t3 ks) = ks" "terminal_color (t3 ks) = terminal_color t"
    "pager_enabled (t3 ks) = pager_enabled t" for ks
    using ok len by (simp_all add: t3_def vga_ok_def pager_msg_length)
  show ?thesis
  proof (cases "keys t")
    case Nil
    with ok prompt show ?thesis
      by (simp add: pager_prompt_def Let_def scroll_if_below_eq [OF mid] t1_def [symmetric])
  next
    case (Cons k ks)
    let ?t4 = "(t3 ks)\<lparr>terminal_column := 0, pager_lines := 0\<rparr>"
    have mid4: "vga_mid ?t4" "vga_ok ?t4" using t3(1) [of ks] by (simp_all add: vga_ok_def vga_mid_def)
    have "pager_prompt t = (if k = byte CHR ''q'' \<or> k = byte CHR ''Q''
        then Inr (?t4\<lparr>pager_enabled := False\<rparr>) else finish_char ?t4)"
      using ok prompt erase [of ks] Cons
      by (simp add: pager_prompt_def Let_def scroll_if_below_eq [OF mid] t1_def [symmetric])
    moreover have "vga_ok (?t4\<lparr>pager_enabled := False\<rparr>)" using mid4(2) by (simp add: vga_ok_def)
    ultimately show ?thesis
      using Cons t3 [of ks] scrolled_ok [OF mid4(1)] by (auto simp: finish_char_eq [OF mid4(1)])
  qed
qed

text \<open>A character leaves a good state, or waits for a key.\<close>

definition good_outcome :: "screen \<Rightarrow> screen_result \<Rightarrow> bool" where
  "good_outcome t r \<longleftrightarrow> (case r of
       Inr t' \<Rightarrow> vga_ok t' \<and> (pager_enabled t' \<longrightarrow> pager_enabled t)
     | Inl Waiting \<Rightarrow> pager_enabled t
     | Inl Fault \<Rightarrow> False)"

lemma good_finish: "vga_mid u \<Longrightarrow> pager_enabled u = pager_enabled t \<Longrightarrow> good_outcome t (finish_char u)"
  using finish_char_ok [of u] by (auto simp: good_outcome_def)

lemma good_andthen_put:
  assumes "i < length (terminal_buffer u)"
    and "good_outcome t (f (u\<lparr>terminal_buffer := (terminal_buffer u)[i := v]\<rparr>))"
  shows "good_outcome t (andthen (put_cell i v u) f)"
  using assms by (simp add: put_cell_def)

lemma drop_append_le: "n \<le> length xs \<Longrightarrow> drop n (xs @ ys) = drop n xs @ ys"
  by simp

lemma terminal_putchar_good:
  assumes "vga_ok t"
  shows "good_outcome t (terminal_putchar c t)"
proof -
  have pos: "terminal_row t * 80 + terminal_column t < length (terminal_buffer t)"
    using assms by (auto simp: vga_ok_def)
  consider (nl) "c = 10" | (cr) "c = 13" | (tab) "c = 9" | (bs) "c = 8"
    | (other) "c \<notin> {8, 9, 10, 13}" by auto
  then show ?thesis
  proof cases
    case nl
    let ?u = "t\<lparr>terminal_column := 0, terminal_row := terminal_row t + 1\<rparr>"
    let ?v = "?u\<lparr>pager_lines := pager_lines ?u + 1\<rparr>"
    have mid: "vga_mid ?u" "vga_mid ?v" using assms by (simp_all add: vga_ok_def vga_mid_def)
    have "good_outcome t (pager_prompt ?v)" if "pager_enabled t"
      using pager_prompt_ok [OF mid(2)] that by (cases "keys t") (auto simp: good_outcome_def)
    with nl mid show ?thesis by (simp add: terminal_putchar_def Let_def good_finish)
  next
    case cr
    with assms show ?thesis
      by (simp add: terminal_putchar_def good_finish vga_ok_def vga_mid_def)
  next
    case tab
    with assms show ?thesis
      by (simp add: terminal_putchar_def Let_def good_finish vga_ok_def vga_mid_def)
  next
    case bs
    let ?u = "t\<lparr>terminal_column := terminal_column t - 1\<rparr>"
    have "good_outcome t (andthen (put_cell (terminal_row ?u * 80 + terminal_column ?u)
        (vga_entry (byte CHR '' '') (terminal_color ?u)) ?u) finish_char)"
    proof (rule good_andthen_put)
      show "terminal_row ?u * 80 + terminal_column ?u < length (terminal_buffer ?u)"
        using pos by simp
      have "terminal_column t - 1 < 80" using assms unfolding vga_ok_def by linarith
      with assms show "good_outcome t (finish_char (?u\<lparr>terminal_buffer := (terminal_buffer ?u)
          [terminal_row ?u * 80 + terminal_column ?u := vga_entry (byte CHR '' '') (terminal_color ?u)]\<rparr>))"
        by (intro good_finish) (simp_all add: vga_ok_def vga_mid_def)
    qed
    moreover have "good_outcome t (finish_char t)"
      using assms by (intro good_finish) (simp_all add: vga_ok_def vga_mid_def)
    ultimately show ?thesis
      using bs unfolding terminal_putchar_def Let_def by (simp del: add_diff_assoc)
  next
    case other
    have "good_outcome t (andthen (put_cell (terminal_row t * 80 + terminal_column t)
        (vga_entry c (terminal_color t)) t) (\<lambda>t. let t = t\<lparr>terminal_column := terminal_column t + 1\<rparr> in
          finish_char (if terminal_column t \<ge> 80
            then t\<lparr>terminal_column := 0, terminal_row := terminal_row t + 1\<rparr> else t)))"
      using assms unfolding Let_def
      by (intro good_andthen_put [OF pos] good_finish) (simp_all add: vga_ok_def vga_mid_def)
    with other show ?thesis unfolding terminal_putchar_def by simp
  qed
qed

lemma good_chain:
  assumes "good_outcome t r" "\<And>u. vga_ok u \<Longrightarrow> pager_enabled u \<longrightarrow> pager_enabled t \<Longrightarrow> good_outcome u (f u)"
  shows "good_outcome t (andthen r f)"
proof (cases r)
  case (Inr u)
  with assms(1) have u: "vga_ok u" "pager_enabled u \<longrightarrow> pager_enabled t" by (simp_all add: good_outcome_def)
  from assms(2) [OF u] u(2) show ?thesis
    unfolding good_outcome_def Inr andthen.simps by (auto split: sum.splits stop.splits)
qed (use assms(1) in simp)

lemma terminal_writestring_good: "vga_ok t \<Longrightarrow> good_outcome t (terminal_writestring s t)"
proof (induction s arbitrary: t)
  case (Cons c s)
  have "good_outcome t (andthen (terminal_putchar c t) (terminal_writestring s))"
    using Cons by (intro good_chain terminal_putchar_good)
  moreover have "good_outcome t (Inr t)" using Cons.prems by (simp add: good_outcome_def)
  ultimately show ?case by simp
qed (simp add: good_outcome_def)

lemma terminal_write_good: "vga_ok t \<Longrightarrow> good_outcome t (terminal_write s t)"
proof (induction s arbitrary: t)
  case (Cons c s)
  then show ?case
    unfolding terminal_write_def by (auto intro: good_chain terminal_putchar_good)
qed (simp add: good_outcome_def terminal_write_def)

text \<open>C27: writing any bytes on the terminal, in any state with the cursor on the screen, never writes
  outside video memory and leaves the cursor on the screen; it only waits when the pager is on.\<close>

theorem terminal_writestring_safe:
  assumes "vga_ok t"
  shows "case terminal_writestring s t of
      Inr t' \<Rightarrow> vga_ok t' \<and> (pager_enabled t' \<longrightarrow> pager_enabled t)
    | Inl Waiting \<Rightarrow> pager_enabled t
    | Inl Fault \<Rightarrow> False"
  using terminal_writestring_good [OF assms, of s] by (simp add: good_outcome_def)

definition fresh_screen :: screen where
  "fresh_screen = \<lparr>terminal_row = 24, terminal_column = 78, terminal_color = 7,
     terminal_buffer = replicate 2000 0, pager_enabled = False, pager_lines = 0, keys = [], port_log = []\<rparr>"

lemma fresh_screen_ok: "vga_ok fresh_screen" "pager_enabled fresh_screen = False"
  by (simp_all add: vga_ok_def fresh_screen_def)

theorem terminal_writestring_safe_witness:
  "\<exists>t'. terminal_writestring (bytes ''hello'') fresh_screen = Inr t' \<and> vga_ok t'"
  using terminal_writestring_safe [OF fresh_screen_ok(1), of "bytes ''hello''"] fresh_screen_ok(2)
  by (auto split: sum.splits stop.splits)

section \<open>What is on the screen\<close>

definition cursor :: "screen \<Rightarrow> nat" where
  "cursor t = terminal_row t * 80 + terminal_column t"

text \<open>The cells before the cursor.\<close>

definition shown :: "screen \<Rightarrow> u16 list" where
  "shown t = take (cursor t) (terminal_buffer t)"

definition plain :: "u8 \<Rightarrow> bool" where
  "plain c \<longleftrightarrow> c \<notin> {8, 9, 10, 13}"

lemma putchar_plain:
  assumes "vga_ok t" "plain c"
  shows "\<exists>t' k. terminal_putchar c t = Inr t' \<and> vga_ok t' \<and> terminal_color t' = terminal_color t
    \<and> 80 * k \<le> Suc (cursor t) \<and> shown t' = drop (80 * k) (shown t @ [vga_entry c (terminal_color t)])"
proof -
  define e where "e = vga_entry c (terminal_color t)"
  define u where "u = t\<lparr>terminal_buffer := (terminal_buffer t)[cursor t := e],
      terminal_column := terminal_column t + 1\<rparr>"
  define v where "v = (if terminal_column u \<ge> 80
      then u\<lparr>terminal_column := 0, terminal_row := terminal_row t + 1\<rparr> else u)"
  have b: "length (terminal_buffer t) = 2000" "terminal_row t < 25" "terminal_column t < 80"
    using assms(1) by (simp_all add: vga_ok_def)
  then have pos: "cursor t < 2000" by (auto simp: cursor_def)
  have mid: "vga_mid v" using b by (simp add: v_def u_def vga_mid_def)
  have cur: "cursor v = Suc (cursor t)" using b by (auto simp: v_def u_def cursor_def)
  have vbuf: "terminal_buffer v = (terminal_buffer t)[cursor t := e]" by (simp add: v_def u_def)
  have sv: "take (Suc (cursor t)) (terminal_buffer v) = shown t @ [e]"
    using pos b unfolding vbuf by (simp add: take_list_update_append shown_def)
  have put: "terminal_putchar c t = finish_char v"
    using assms(2) pos b by (simp add: terminal_putchar_def plain_def put_cell_def Let_def cursor_def
      u_def v_def e_def)
  define t' where "t' = terminal_update_cursor (terminal_column v) (terminal_row (scrolled v)) (scrolled v)"
  have fin: "finish_char v = Inr t'" using finish_char_eq [OF mid] by (simp add: t'_def)
  have ok: "vga_ok t'" "terminal_color t' = terminal_color t"
    using scrolled_ok [OF mid] by (simp_all add: t'_def v_def u_def)
  show ?thesis
  proof (cases "terminal_row v \<ge> 25")
    case False
    then have "shown t' = shown t @ [e]"
      using cur sv by (simp add: t'_def scrolled_def shown_def cursor_def)
    with put fin ok show ?thesis by (intro exI [of _ t'] exI [of _ 0]) (simp add: e_def)
  next
    case True
    then have v: "terminal_row v = 25" "terminal_column v = 0"
      using b by (auto simp: v_def u_def split: if_splits)
    then have c: "cursor t = 1999" using cur by (simp add: cursor_def)
    have "cursor t' = 1920" using True v by (simp add: t'_def scrolled_def cursor_def)
    then have "shown t' = take 1920 (drop 80 (terminal_buffer v))"
      using True b by (simp add: shown_def t'_def scrolled_def vbuf)
    also have "\<dots> = drop 80 (take (Suc (cursor t)) (terminal_buffer v))"
      by (simp add: c take_drop)
    finally have "shown t' = drop (80 * 1) (shown t @ [e])" unfolding sv by simp
    with put fin ok c show ?thesis by (intro exI [of _ t'] exI [of _ 1]) (simp add: e_def)
  qed
qed

lemma write_plain:
  assumes "vga_ok t" "\<forall>c \<in> set w. plain c"
  shows "\<exists>t' k. terminal_write w t = Inr t' \<and> vga_ok t' \<and> 80 * k \<le> length (shown t) + length w
    \<and> shown t' = drop (80 * k) (shown t @ map (\<lambda>c. vga_entry c (terminal_color t)) w)"
  using assms
proof (induction w arbitrary: t)
  case Nil
  then show ?case by (intro exI [of _ t] exI [of _ 0]) (simp add: terminal_write_def)
next
  case (Cons c w)
  have lc: "length (shown t) = cursor t"
    using Cons.prems(1) by (auto simp: shown_def cursor_def vga_ok_def)
  have "plain c" using Cons.prems(2) by simp
  from putchar_plain [OF Cons.prems(1) this] obtain t1 k1 where
    1: "terminal_putchar c t = Inr t1" "vga_ok t1" "terminal_color t1 = terminal_color t"
      "80 * k1 \<le> Suc (cursor t)" "shown t1 = drop (80 * k1) (shown t @ [vga_entry c (terminal_color t)])"
    by blast
  from Cons.IH [OF 1(2)] Cons.prems(2) obtain t2 k2 where
    2: "terminal_write w t1 = Inr t2" "vga_ok t2" "80 * k2 \<le> length (shown t1) + length w"
      "shown t2 = drop (80 * k2) (shown t1 @ map (\<lambda>c. vga_entry c (terminal_color t)) w)"
    by (auto simp: 1(3))
  have "shown t2 = drop (80 * (k1 + k2)) (shown t @ map (\<lambda>c. vga_entry c (terminal_color t)) (c # w))"
  proof -
    have "80 * k1 \<le> length (shown t @ [vga_entry c (terminal_color t)])" using 1(4) lc by simp
    then have "drop (80 * k1) (shown t @ [vga_entry c (terminal_color t)])
        @ map (\<lambda>c. vga_entry c (terminal_color t)) w
      = drop (80 * k1) (shown t @ map (\<lambda>c. vga_entry c (terminal_color t)) (c # w))"
      by (subst drop_append_le [symmetric]) simp_all
    then have "shown t2 = drop (80 * k2) (drop (80 * k1) (shown t @ map (\<lambda>c. vga_entry c (terminal_color t)) (c # w)))"
      unfolding 2(4) 1(5) by (rule arg_cong)
    also have "80 * (k1 + k2) = 80 * k2 + 80 * k1" by simp
    ultimately show ?thesis by (simp only: drop_drop)
  qed
  moreover have "80 * (k1 + k2) \<le> length (shown t) + length (c # w)"
    using 1(4,5) 2(3) lc by (simp add: algebra_simps)
  ultimately show ?case
    using 1(1) 2(1,2) by (intro exI [of _ t2] exI [of _ "k1 + k2"]) (simp add: terminal_write_def)
qed



text \<open>The pager's "Q to stop" does not stop the output: after Q the newline is done, the pager is off,
  and all the text that follows is still printed, now without pauses.\<close>

theorem pager_quit_continues:
  assumes "vga_ok t" "pager_enabled t" "22 \<le> pager_lines t" "keys t = k # ks"
    and "k = byte CHR ''q'' \<or> k = byte CHR ''Q''" "\<forall>c \<in> set w. plain c"
  shows "\<exists>t1 t2 n. terminal_putchar 10 t = Inr t1 \<and> \<not> pager_enabled t1 \<and> keys t1 = ks
    \<and> terminal_write w t1 = Inr t2 \<and> vga_ok t2
    \<and> shown t2 = drop (80 * n) (shown t1 @ map (\<lambda>c. vga_entry c (terminal_color t)) w)"
proof -
  let ?v = "t\<lparr>terminal_column := 0, terminal_row := terminal_row t + 1, pager_lines := pager_lines t + 1\<rparr>"
  have "vga_mid ?v" using assms(1) by (simp add: vga_ok_def vga_mid_def)
  from pager_prompt_ok [OF this] assms(4,5) obtain t1 where
    t1: "pager_prompt ?v = Inr t1" "vga_ok t1" "keys t1 = ks" "terminal_color t1 = terminal_color t"
      "\<not> pager_enabled t1"
    by auto
  have "terminal_putchar 10 t = Inr t1"
    using assms(2,3) t1(1) by (simp add: terminal_putchar_def Let_def)
  with t1 write_plain [OF t1(2) assms(6)] show ?thesis by auto
qed

theorem pager_quit_continues_witness:
  "\<exists>t1 t2. terminal_putchar 10 (fresh_screen\<lparr>pager_enabled := True, pager_lines := 22, keys := [113]\<rparr>) = Inr t1
    \<and> \<not> pager_enabled t1 \<and> terminal_write (bytes ''more'') t1 = Inr t2"
proof -
  let ?t = "fresh_screen\<lparr>pager_enabled := True, pager_lines := 22, keys := [113]\<rparr>"
  have "vga_ok ?t" "pager_enabled ?t" "22 \<le> pager_lines ?t" "keys ?t = 113 # []"
    using fresh_screen_ok(1) by (simp_all add: vga_ok_def)
  moreover have "(113 :: u8) = byte CHR ''q''" "\<forall>c \<in> set (bytes ''more''). plain c"
    by (simp_all add: byte_def of_char_def plain_def)
  ultimately show ?thesis
    using pager_quit_continues [of ?t 113 "[]" "bytes ''more''"] by blast
qed

end
