(* ===== verification/Kprintf.thy ===== *)
theory Kprintf
  imports CString Vga
begin

text \<open>
  Formatted output, \<^verbatim>\<open>src/kprintf.c\<close>. A formatting function is modelled by the characters it
  passes to \<open>terminal_putchar\<close>, in order; \<open>kprintf\<close> then runs them on the screen. A variable
  argument is a 32-bit word or a string pointer; \<open>None\<close> is undefined behaviour: an argument that
  is missing or of the wrong kind, or the negation of the least \<open>int\<close>.
\<close>

section \<open>Definitions\<close>

datatype vararg = Word u32 | Str "u8 list option"

text \<open>\<open>print_int\<close> on a value that is not negative, where its recursion stays.\<close>

function print_digits :: "int \<Rightarrow> u8 list" where
  "print_digits v =
     (if 0 < v div 10 then print_digits (v div 10) else []) @ [word_of_int (48 + v mod 10)]"
  by pat_completeness auto
termination
  by (relation "measure nat") auto

declare print_digits.simps [simp del]

definition print_int :: "int \<Rightarrow> u8 list option" where
  "print_int v =
     (if v < 0 then do { v' \<leftarrow> cint (- v); Some (byte CHR ''-'' # print_digits v') }
      else Some (print_digits v))"

function print_uint :: "u32 \<Rightarrow> u8 list" where
  "print_uint v = (if v div 10 \<noteq> 0 then print_uint (v div 10) else []) @ [48 + ucast (v mod 10)]"
  by pat_completeness auto
termination
proof (relation "measure unat")
  fix v :: u32 assume "v div 10 \<noteq> 0"
  then have "unat v div 10 \<noteq> 0" by (auto simp: word_unat_eq_iff unat_div)
  then show "(v div 10, v) \<in> measure unat" by (simp add: unat_div)
qed simp

declare print_uint.simps [simp del]

definition hex_digits :: "u8 list" where
  "hex_digits = bytes ''0123456789abcdef''"

function print_hex :: "u32 \<Rightarrow> u8 list" where
  "print_hex v = (if v div 16 \<noteq> 0 then print_hex (v div 16) else []) @ [hex_digits ! unat (v mod 16)]"
  by pat_completeness auto
termination
proof (relation "measure unat")
  fix v :: u32 assume "v div 16 \<noteq> 0"
  then have "unat v div 16 \<noteq> 0" by (auto simp: word_unat_eq_iff unat_div)
  then show "(v div 16, v) \<in> measure unat" by (simp add: unat_div)
qed simp

declare print_hex.simps [simp del]

text \<open>One conversion: the characters it prints and the arguments it leaves.\<close>

fun convert :: "u8 \<Rightarrow> vararg list \<Rightarrow> (u8 list \<times> vararg list) option" where
  "convert f args =
     (if f = byte CHR ''s''
      then (case args of
          Str (Some s) # rest \<Rightarrow> Some (cstr s, rest)
        | Str None # rest \<Rightarrow> Some (bytes ''(null)'', rest)
        | _ \<Rightarrow> None)
      else if f = byte CHR ''d''
      then (case args of
          Word w # rest \<Rightarrow> do { out \<leftarrow> print_int (sint w); Some (out, rest) }
        | _ \<Rightarrow> None)
      else if f = byte CHR ''u''
      then (case args of Word w # rest \<Rightarrow> Some (print_uint w, rest) | _ \<Rightarrow> None)
      else if f = byte CHR ''x''
      then (case args of Word w # rest \<Rightarrow> Some (print_hex w, rest) | _ \<Rightarrow> None)
      else if f = byte CHR ''c''
      then (case args of Word w # rest \<Rightarrow> Some ([ucast w], rest) | _ \<Rightarrow> None)
      else if f = 37 then Some ([37], args)
      else Some ([37, f], args))"

declare convert.simps [simp del]

fun kprintf_chars :: "u8 list \<Rightarrow> vararg list \<Rightarrow> u8 list option" where
  "kprintf_chars [] args = Some []"
| "kprintf_chars [c] args = Some (if c = 0 then [] else [c])"
| "kprintf_chars (c # f # s) args =
     (if c = 0 then Some []
      else if c = 37 \<and> f \<noteq> 0
      then do { (out, rest) \<leftarrow> convert f args; tail \<leftarrow> kprintf_chars s rest; Some (out @ tail) }
      else do { tail \<leftarrow> kprintf_chars (f # s) args; Some (c # tail) })"

definition kprintf :: "u8 list \<Rightarrow> vararg list \<Rightarrow> screen \<Rightarrow> screen_result option" where
  "kprintf fmt args t = do { out \<leftarrow> kprintf_chars fmt args; Some (terminal_write out t) }"

section \<open>Numbers\<close>

text \<open>The value of a digit string in base \<open>b\<close>, with \<open>d\<close> the value of a digit.\<close>

definition digits_value :: "nat \<Rightarrow> (u8 \<Rightarrow> nat) \<Rightarrow> u8 list \<Rightarrow> nat" where
  "digits_value b d s = foldl (\<lambda>a c. a * b + d c) 0 s"

lemma digits_value_snoc: "digits_value b d (s @ [c]) = digits_value b d s * b + d c"
  by (simp add: digits_value_def)

definition dec_digit :: "u8 \<Rightarrow> nat" where
  "dec_digit c = unat c - 48"

definition hex_digit :: "u8 \<Rightarrow> nat" where
  "hex_digit c = (if c \<ge> 97 then unat c - 87 else unat c - 48)"

lemma dec_digit_of: "n < 10 \<Longrightarrow> dec_digit (48 + of_nat n) = n"
  by (simp add: dec_digit_def unat_word_ariths unat_of_nat)

lemma hex_digits_codes:
  "map unat hex_digits = [48, 49, 50, 51, 52, 53, 54, 55, 56, 57, 97, 98, 99, 100, 101, 102]"
  by (simp add: hex_digits_def unat_byte)

lemma hex_digit_of: "n < 16 \<Longrightarrow> hex_digit (hex_digits ! n) = n"
proof -
  assume n: "n < 16"
  have "length hex_digits = 16" by (simp add: hex_digits_def)
  then have "unat (hex_digits ! n) = map unat hex_digits ! n" using n by simp
  then have "unat (hex_digits ! n) = (if n < 10 then 48 + n else 87 + n)"
    unfolding hex_digits_codes using n
    by (simp add: nth_Cons' split: if_splits)
  then show ?thesis using n by (simp add: hex_digit_def word_le_nat_alt)
qed

lemma print_uint_value: "digits_value 10 dec_digit (print_uint v) = unat v"
proof (induction v rule: print_uint.induct)
  case (1 v)
  have d: "(48 + ucast (v mod 10) :: u8) = 48 + of_nat (unat v mod 10)"
    by (simp add: word_unat_eq_iff unat_word_ariths unsigned_ucast_eq take_bit_eq_mod unat_mod unat_of_nat)
  have digit: "dec_digit (48 + ucast (v mod 10)) = unat v mod 10"
    unfolding d by (rule dec_digit_of) simp
  show ?case
  proof (cases "v div 10 = 0")
    case True
    then have "unat v div 10 = 0" by (auto simp: word_unat_eq_iff unat_div)
    with True digit show ?thesis by (subst print_uint.simps) (simp add: digits_value_def)
  next
    case False
    with 1 digit show ?thesis
      by (subst print_uint.simps) (simp add: digits_value_snoc unat_div)
  qed
qed

lemma print_hex_value: "digits_value 16 hex_digit (print_hex v) = unat v"
proof (induction v rule: print_hex.induct)
  case (1 v)
  have digit: "hex_digit (hex_digits ! unat (v mod 16)) = unat v mod 16"
    by (simp add: unat_mod hex_digit_of)
  show ?case
  proof (cases "v div 16 = 0")
    case True
    then have "unat v div 16 = 0" by (auto simp: word_unat_eq_iff unat_div)
    with True digit show ?thesis by (subst print_hex.simps) (simp add: digits_value_def)
  next
    case False
    with 1 digit show ?thesis
      by (subst print_hex.simps) (simp add: digits_value_snoc unat_div)
  qed
qed

text \<open>\<open>%u\<close> and \<open>%x\<close> print the argument's value in decimal and in hexadecimal, for every 32-bit
  word, and \<open>kprintf\<close> prints nothing else for them.\<close>

theorem kprintf_unsigned:
  "\<exists>ds hs. kprintf_chars (bytes ''%u %x'') [Word v, Word w] = Some (ds @ bytes '' '' @ hs)
    \<and> digits_value 10 dec_digit ds = unat v \<and> digits_value 16 hex_digit hs = unat w"
proof -
  have "convert (byte CHR ''u'') [Word v, Word w] = Some (print_uint v, [Word w])"
    "convert (byte CHR ''x'') [Word w] = Some (print_hex w, [])"
    by (simp_all add: convert.simps)
  moreover have "byte CHR ''%'' = 37" "byte CHR '' '' \<noteq> 37" by (simp_all add: byte_def of_char_def)
  ultimately have "kprintf_chars (bytes ''%u %x'') [Word v, Word w] = Some (print_uint v @ bytes '' '' @ print_hex w)"
    by simp
  then show ?thesis using print_uint_value [of v] print_hex_value [of w] by blast
qed

lemma sint_digit:
  assumes "0 \<le> d" "d < 10"
  shows "sint (48 + word_of_int d :: u8) = 48 + d"
proof -
  have "sint (word_of_int (48 + d) :: u8) = signed_take_bit (LENGTH(8) - 1) (48 + d)"
    by (rule sint_sbintrunc')
  also have "\<dots> = 48 + d" using assms by (intro signed_take_bit_int_eq_self) simp_all
  finally show ?thesis by simp
qed

lemma print_digits_head:
  "0 \<le> v \<Longrightarrow> \<exists>c s. print_digits v = c # s \<and> 48 \<le> sint c \<and> sint c \<le> 57"
proof (induction v rule: print_digits.induct)
  case (1 v)
  show ?case
  proof (cases "0 < v div 10")
    case True
    with 1 obtain c s where "print_digits (v div 10) = c # s" "48 \<le> sint c" "sint c \<le> 57" by auto
    with True show ?thesis by (subst print_digits.simps) simp
  next
    case False
    have "sint (48 + word_of_int (v mod 10) :: u8) = 48 + v mod 10" by (rule sint_digit) simp_all
    with False show ?thesis by (subst print_digits.simps) simp
  qed
qed

lemma atoi_print_digits:
  "0 \<le> v \<Longrightarrow> v < 2147483648 \<Longrightarrow> atoi_digits 0 (print_digits v @ s) = atoi_digits v s"
proof (induction v arbitrary: s rule: print_digits.induct)
  case (1 v)
  have d: "sint (48 + word_of_int (v mod 10) :: u8) = 48 + v mod 10" by (rule sint_digit) simp_all
  have step: "atoi_digits (v div 10) (word_of_int (48 + v mod 10) # s) = atoi_digits v s"
  proof -
    have "cint (v div 10 * 10) = Some (v div 10 * 10)" using 1(2,3) by (intro cint_Some) auto
    moreover have "cint (v div 10 * 10 + v mod 10) = Some v" using 1(2,3) by simp
    moreover have "0 \<le> v mod 10" "v mod 10 \<le> 9" by simp_all
    ultimately show ?thesis by (simp add: d del: div_mult_mod_eq mod_div_trivial)
  qed
  show ?case
  proof (cases "0 < v div 10")
    case True
    then have "atoi_digits 0 (print_digits (v div 10) @ (word_of_int (48 + v mod 10) # s))
        = atoi_digits (v div 10) (word_of_int (48 + v mod 10) # s)"
      using 1 by auto
    with True step show ?thesis by (subst print_digits.simps) simp
  next
    case False
    then have "v div 10 = 0" using 1(2) by simp
    with False step show ?thesis by (subst print_digits.simps) simp
  qed
qed

text \<open>C36: printing and reading an \<open>int\<close> agree: \<open>atoi\<close> of what \<open>%d\<close> prints is the value, for every
  \<open>int\<close> but the least. For that one \<open>print_int\<close> negates it, which C leaves undefined.\<close>

theorem print_int_atoi:
  assumes "- 2147483648 \<le> v" "v < 2147483648"
  shows "if v = - 2147483648 then print_int v = None
    else \<exists>w. print_int v = Some w \<and> atoi w = Some v"
proof -
  have space: "byte CHR '' '' = 32" "byte CHR ''-'' = 45" "byte CHR ''+'' = 43"
    by (simp_all add: byte_def of_char_def)
  have small: "sint (32 :: u8) = 32" "sint (45 :: u8) = 45" "sint (43 :: u8) = 43" by simp_all
  consider (least) "v = - 2147483648" | (neg) "v \<noteq> - 2147483648" "v < 0" | (nonneg) "0 \<le> v" by linarith
  then show ?thesis
  proof cases
    case least
    then show ?thesis by (simp add: print_int_def cint_def)
  next
    case neg
    then have "cint (- v) = Some (- v)" using assms by (intro cint_Some) simp_all
    moreover have "atoi_digits 0 (print_digits (- v)) = Some (- v)"
      using atoi_print_digits [of "- v" "[]"] neg assms by simp
    ultimately show ?thesis
      using neg assms by (simp add: print_int_def atoi_def space Let_def)
  next
    case nonneg
    from print_digits_head [OF nonneg] obtain c s where c: "print_digits v = c # s" "48 \<le> sint c" "sint c \<le> 57"
      by blast
    then have "c \<noteq> 32" "c \<noteq> 45" "c \<noteq> 43" using small by auto
    moreover have "atoi_digits 0 (print_digits v) = Some v"
      using atoi_print_digits [of v "[]"] nonneg assms by simp
    ultimately show ?thesis
      using nonneg c by (simp add: print_int_def atoi_def space Let_def)
  qed
qed

theorem print_int_atoi_witness:
  "(\<exists>w. print_int (- 42) = Some w \<and> atoi w = Some (- 42)) \<and> print_int (- 2147483648) = None"
  using print_int_atoi [of "- 42"] print_int_atoi [of "- 2147483648"] by simp

end
