(* ===== verification/Klog.thy ===== *)
theory Klog
  imports Kprintf
begin

text \<open>
  The kernel log \<^verbatim>\<open>src/klog.c\<close>: a ring of 64 entries, each with the tick, a level and the first 95
  characters of the message. The state \<open>klog\<close> holds the file's static variables; \<open>now\<close> is what
  \<open>timer_get_ticks()\<close> returns. \<open>klog_total\<close> is an \<open>int\<close> and its increment is undefined at the
  greatest one.
\<close>

section \<open>Definitions\<close>

abbreviation (input) KLOG_MAX_ENTRIES :: nat where "KLOG_MAX_ENTRIES \<equiv> 64"
abbreviation (input) KLOG_LINE_LEN :: nat where "KLOG_LINE_LEN \<equiv> 96"

datatype klog_level = KLOG_INFO | KLOG_WARN | KLOG_ERR | KLOG_OK

record klog_entry =
  tick :: u32
  level :: klog_level
  msg :: "u8 list"

record klog =
  klog_buf :: "klog_entry list"
  klog_head :: nat
  klog_total :: int

definition klog_init :: klog where
  "klog_init = \<lparr>klog_buf = replicate KLOG_MAX_ENTRIES
       \<lparr>tick = 0, level = KLOG_INFO, msg = replicate KLOG_LINE_LEN 0\<rparr>,
     klog_head = 0, klog_total = 0\<rparr>"

text \<open>\<^verbatim>\<open>while(msg[i] && i < KLOG_LINE_LEN - 1)\<close>, then the NUL at the index reached.\<close>

fun copy_msg :: "u8 list \<Rightarrow> nat \<Rightarrow> u8 list \<Rightarrow> u8 list option" where
  "copy_msg d i [] = put_at d i 0"
| "copy_msg d i (c # s) =
     (if c \<noteq> 0 \<and> i < KLOG_LINE_LEN - 1 then do { d' \<leftarrow> put_at d i c; copy_msg d' (Suc i) s }
      else put_at d i 0)"

definition klog :: "u32 \<Rightarrow> klog_level \<Rightarrow> u8 list \<Rightarrow> klog \<Rightarrow> klog option" where
  "klog now lv s k = do {
     e \<leftarrow> get_at (klog_buf k) (klog_head k);
     m \<leftarrow> copy_msg (msg e) 0 s;
     total \<leftarrow> cint (klog_total k + 1);
     Some (k\<lparr>klog_buf := (klog_buf k)[klog_head k := \<lparr>tick = now, level = lv, msg = m\<rparr>],
             klog_head := (klog_head k + 1) mod KLOG_MAX_ENTRIES, klog_total := total\<rparr>)
   }"

definition klog_count :: "klog \<Rightarrow> nat" where
  "klog_count k = (if klog_total k < int KLOG_MAX_ENTRIES then nat (klog_total k) else KLOG_MAX_ENTRIES)"

text \<open>The indices \<open>klog_print\<close> visits, in its order.\<close>

definition print_order :: "klog \<Rightarrow> nat list" where
  "print_order k =
     (let start = (if klog_total k < int KLOG_MAX_ENTRIES then 0 else klog_head k) in
      map (\<lambda>i. (start + i) mod KLOG_MAX_ENTRIES) [0 ..< klog_count k])"

text \<open>What \<open>klog_print\<close> does to the screen: colours set and text printed, in order.\<close>

datatype screen_op = SetColor u8 | Print "u8 list" "vararg list"

fun level_ops :: "klog_level \<Rightarrow> screen_op list" where
  "level_ops KLOG_OK = [SetColor (vga_entry_color 10 0), Print (bytes ''OK   '') []]"
| "level_ops KLOG_INFO = [SetColor (vga_entry_color 11 0), Print (bytes ''INFO '') []]"
| "level_ops KLOG_WARN = [SetColor (vga_entry_color 14 0), Print (bytes ''WARN '') []]"
| "level_ops KLOG_ERR = [SetColor (vga_entry_color 12 0), Print (bytes ''ERR  '') []]"

definition stamp_ops :: "u32 \<Rightarrow> screen_op" where
  "stamp_ops t = Print (bytes ''%d.%d'') [Word (t div 100), Word (t mod 100)]"

definition entry_ops :: "klog_entry \<Rightarrow> screen_op list" where
  "entry_ops e =
     [SetColor (vga_entry_color 8 0), Print (bytes ''  ['') [], stamp_ops (tick e), Print (bytes '']  '') []]
     @ level_ops (level e)
     @ [SetColor (vga_entry_color 7 0), Print (bytes ''%s'' @ [10]) [Str (Some (msg e))]]"

fun run_ops :: "screen_op list \<Rightarrow> screen \<Rightarrow> screen_result option" where
  "run_ops [] t = Some (Inr t)"
| "run_ops (SetColor c # ops) t = run_ops ops (terminal_setcolor c t)"
| "run_ops (Print f args # ops) t = do {
     r \<leftarrow> kprintf f args t;
     (case r of Inl e \<Rightarrow> Some (Inl e) | Inr t' \<Rightarrow> run_ops ops t')
   }"

definition klog_print :: "klog \<Rightarrow> screen \<Rightarrow> screen_result option" where
  "klog_print k = run_ops (concat (map (\<lambda>i. entry_ops (klog_buf k ! i)) (print_order k)))"

section \<open>The log as a list\<close>

definition klog_inv :: "klog \<Rightarrow> bool" where
  "klog_inv k \<longleftrightarrow> length (klog_buf k) = 64 \<and> klog_head k < 64 \<and> 0 \<le> klog_total k
     \<and> klog_total k < 2147483648 \<and> int (klog_head k) = klog_total k mod 64
     \<and> (\<forall>e \<in> set (klog_buf k). length (msg e) = 96)"

text \<open>The entries, oldest first, as they are printed: tick, level and text.\<close>

definition klog_lines :: "klog \<Rightarrow> (u32 \<times> klog_level \<times> u8 list) list" where
  "klog_lines k = map (\<lambda>i. let e = klog_buf k ! i in (tick e, level e, cstr (msg e))) (print_order k)"

lemma copy_msg_eq:
  "i \<le> 95 \<Longrightarrow> length d = 96 \<Longrightarrow>
     copy_msg d i s = Some (take i d @ take (95 - i) (cstr s) @ 0 # drop (Suc (i + length (take (95 - i) (cstr s)))) d)"
proof (induction d i s rule: copy_msg.induct)
  case (1 d i)
  then show ?case by (simp add: upd_conv_take_nth_drop)
next
  case (2 d i c s)
  show ?case
  proof (cases "c \<noteq> 0 \<and> i < 95")
    case True
    then have "i < 95" by simp
    then have "95 - i = Suc (95 - Suc i)" by simp
    with True 2 show ?thesis
      by (simp add: take_list_update_append)
  next
    case False
    with 2 show ?thesis by (auto simp: upd_conv_take_nth_drop)
  qed
qed

lemma print_order_eq:
  assumes "klog_inv k"
  shows "print_order k = (if klog_total k < 64 then [0 ..< klog_head k]
    else [klog_head k ..< 64] @ [0 ..< klog_head k])"
proof (cases "klog_total k < 64")
  case True
  then have "klog_total k = int (klog_head k)" using assms by (simp add: klog_inv_def)
  with True show ?thesis
    by (auto simp: print_order_def klog_count_def Let_def intro!: nth_equalityI)
next
  case False
  let ?h = "klog_head k"
  have h: "?h < 64" using assms by (simp add: klog_inv_def)
  have "map (\<lambda>i. (?h + i) mod 64) [0 ..< 64] = [?h ..< 64] @ [0 ..< ?h]"
  proof (rule nth_equalityI)
    fix i assume i: "i < length (map (\<lambda>i. (?h + i) mod 64) [0 ..< 64])"
    then show "map (\<lambda>i. (?h + i) mod 64) [0 ..< 64] ! i = ([?h ..< 64] @ [0 ..< ?h]) ! i"
      using h by (auto simp: nth_append mod_if simp del: upt_rec_numeral)
  qed (use h in simp)
  with False show ?thesis by (simp add: print_order_def klog_count_def Let_def)
qed

lemma klog_eq:
  assumes "klog_inv k" "klog_total k < 2147483647"
  shows "klog now lv s k = Some (k\<lparr>klog_buf := (klog_buf k)[klog_head k :=
        \<lparr>tick = now, level = lv, msg = take 95 (cstr s) @ 0 # drop (Suc (length (take 95 (cstr s))))
           (msg (klog_buf k ! klog_head k))\<rparr>],
      klog_head := (klog_head k + 1) mod 64, klog_total := klog_total k + 1\<rparr>)"
proof -
  have b: "klog_head k < length (klog_buf k)" "length (msg (klog_buf k ! klog_head k)) = 96"
    "0 \<le> klog_total k"
    using assms by (simp_all add: klog_inv_def)
  then have "copy_msg (msg (klog_buf k ! klog_head k)) 0 s
      = Some (take 95 (cstr s) @ 0 # drop (Suc (length (take 95 (cstr s)))) (msg (klog_buf k ! klog_head k)))"
    using copy_msg_eq [of 0 "msg (klog_buf k ! klog_head k)" s] by simp
  moreover have "cint (klog_total k + 1) = Some (klog_total k + 1)"
    using assms b by (intro cint_Some) simp_all
  ultimately show ?thesis using b(1) by (simp add: klog_def)
qed

lemma print_order_step:
  assumes "klog_inv k" "klog_inv k'" "klog_head k' = (klog_head k + 1) mod 64"
    and "klog_total k' = klog_total k + 1"
  shows "print_order k' = (if klog_total k < 64 then print_order k else tl (print_order k)) @ [klog_head k]"
    and "klog_head k \<notin> set (if klog_total k < 64 then print_order k else tl (print_order k))"
    and "length (print_order k) = (if klog_total k < 64 then klog_head k else 64)"
proof -
  let ?h = "klog_head k"
  have h: "?h < 64" "int ?h = klog_total k mod 64" using assms(1) by (simp_all add: klog_inv_def)
  have up: "[?h ..< 64] = ?h # [Suc ?h ..< 64]" using h by (simp add: upt_conv_Cons)
  note o1 = print_order_eq [OF assms(1)] and o2 = print_order_eq [OF assms(2)]
  show "length (print_order k) = (if klog_total k < 64 then ?h else 64)"
    using h by (simp add: o1)
  show "?h \<notin> set (if klog_total k < 64 then print_order k else tl (print_order k))"
    using up by (simp add: o1)
  show "print_order k' = (if klog_total k < 64 then print_order k else tl (print_order k)) @ [?h]"
  proof (cases "klog_total k < 64")
    case True
    then have t: "klog_total k = int ?h" using assms(1) by (simp add: klog_inv_def)
    show ?thesis
    proof (cases "?h = 63")
      case True
      then show ?thesis using t by (simp add: o1 o2 assms(3,4)) (simp add: upt_rec)
    next
      case False
      with h t show ?thesis by (simp add: o1 o2 assms(3,4))
    qed
  next
    case False
    then show ?thesis
    proof (cases "?h = 63")
      case True
      then show ?thesis using False by (simp add: o1 o2 assms(3,4)) (simp add: upt_rec)
    next
      case ne: False
      with h False show ?thesis by (simp add: o1 o2 assms(3,4) up)
    qed
  qed
qed

lemma klog_step:
  assumes "klog_inv k" "klog_total k < 2147483647"
  shows "\<exists>k'. klog now lv s k = Some k' \<and> klog_inv k'
    \<and> klog_lines k' = (let ls = klog_lines k @ [(now, lv, take 95 (cstr s))] in drop (length ls - 64) ls)"
proof -
  define e where "e = \<lparr>tick = now, level = lv, msg = take 95 (cstr s) @ 0 #
     drop (Suc (length (take 95 (cstr s)))) (msg (klog_buf k ! klog_head k))\<rparr>"
  define k' where "k' = k\<lparr>klog_buf := (klog_buf k)[klog_head k := e],
      klog_head := (klog_head k + 1) mod 64, klog_total := klog_total k + 1\<rparr>"
  have eq: "klog now lv s k = Some k'" using klog_eq [OF assms] by (simp add: k'_def e_def)
  have len: "length (klog_buf k) = 64" "klog_head k < 64" using assms(1) by (simp_all add: klog_inv_def)
  have "length (msg (klog_buf k ! klog_head k)) = 96" using assms(1) len by (simp add: klog_inv_def)
  then have elen: "length (msg e) = 96" by (simp add: e_def)
  have "int ((klog_head k + 1) mod 64) = (klog_total k + 1) mod 64"
    using assms(1) by (simp add: klog_inv_def zmod_int) presburger
  then have inv: "klog_inv k'"
    using assms elen unfolding klog_inv_def k'_def
    by (auto dest!: subsetD [OF set_update_subset_insert])
  note step = print_order_step [OF assms(1) inv]
  let ?P = "if klog_total k < 64 then print_order k else tl (print_order k)"
  have hd: "klog_head k' = (klog_head k + 1) mod 64" "klog_total k' = klog_total k + 1"
    by (simp_all add: k'_def)
  let ?f = "\<lambda>b i. let e = b ! i in (tick e, level e, cstr (msg e))"
  have "klog_lines k' = map (?f (klog_buf k')) ?P @ [?f (klog_buf k') (klog_head k)]"
    by (simp add: klog_lines_def step(1) [OF hd])
  moreover have "map (?f (klog_buf k')) ?P = map (?f (klog_buf k)) ?P"
  proof (rule map_cong [OF refl])
    fix i assume "i \<in> set ?P"
    with step(2) [OF hd] have "i \<noteq> klog_head k" by blast
    then show "?f (klog_buf k') i = ?f (klog_buf k) i" by (simp add: k'_def)
  qed
  moreover have "?f (klog_buf k') (klog_head k) = (now, lv, take 95 (cstr s))"
  proof -
    have "0 \<notin> set (take 95 (cstr s))" using cstr_no_nul [of s] by (metis in_set_takeD)
    with len show ?thesis by (simp add: k'_def e_def Let_def)
  qed
  moreover have "map (?f (klog_buf k)) ?P = drop (length (klog_lines k) + 1 - 64) (klog_lines k)"
    using step(3) [OF hd] len(2) by (auto simp: klog_lines_def drop_Suc map_tl)
  ultimately have "klog_lines k' = drop (length (klog_lines k) + 1 - 64) (klog_lines k) @ [(now, lv, take 95 (cstr s))]"
    by simp
  with eq inv step(3) [OF hd] len(2) show ?thesis
    by (intro exI [of _ k']) (simp add: Let_def klog_lines_def)
qed

lemma klog_step_inv:
  assumes "klog_inv k" "klog_total k < 2147483647"
  shows "\<exists>k'. klog now lv s k = Some k' \<and> klog_inv k'"
  using klog_step [OF assms] by blast

text \<open>C29: the log keeps the most recent 64 messages: logging adds the tick, the level and the first
  95 characters of the message at the end of the list that \<open>klog_print\<close> prints, and drops the
  oldest entry once there are 64.\<close>

theorem klog_keeps_last_64:
  assumes "klog_inv k" "klog_total k < 2147483647"
  shows "\<exists>k'. klog now lv s k = Some k' \<and> klog_inv k'
    \<and> klog_lines k' = (let ls = klog_lines k @ [(now, lv, take 95 (cstr s))] in drop (length ls - 64) ls)"
  using assms by (rule klog_step)

lemma klog_init_inv: "klog_inv klog_init" "klog_lines klog_init = []" "klog_total klog_init = 0"
  by (simp_all add: klog_inv_def klog_init_def klog_lines_def print_order_def klog_count_def Let_def)

theorem klog_keeps_last_64_witness:
  "\<exists>k. klog 5 KLOG_OK (bytes ''GDT'') klog_init = Some k \<and> klog_lines k = [(5, KLOG_OK, bytes ''GDT'')]"
  using klog_keeps_last_64 [OF klog_init_inv(1), of 5 KLOG_OK "bytes ''GDT''"] klog_init_inv
  by (auto simp: Let_def)

definition stamp_text :: "u32 \<Rightarrow> u8 list option" where
  "stamp_text t = kprintf_chars (bytes ''%d.%d'') [Word (t div 100), Word (t mod 100)]"

lemma stamp_text_eq:
  "stamp_text t = Some (print_digits (int (unat t div 100)) @ bytes ''.'' @ print_digits (int (unat t mod 100)))"
proof -
  have "unat (t div 100) = unat t div 100" "unat (t mod 100) = unat t mod 100"
    by (simp_all add: unat_div unat_mod)
  moreover have "unat t div 100 < 2147483648"
  proof -
    have "unat t div 100 \<le> 4294967295 div 100"
      using unat_u32_bound [of t] by (intro div_le_mono) linarith
    then show ?thesis by simp
  qed
  ultimately have "sint (t div 100) = int (unat t div 100)" "sint (t mod 100) = int (unat t mod 100)"
    by (simp_all add: sint_unat_small)
  then have "convert (byte CHR ''d'') [Word (t div 100), Word (t mod 100)]
      = Some (print_digits (int (unat t div 100)), [Word (t mod 100)])"
    "convert (byte CHR ''d'') [Word (t mod 100)] = Some (print_digits (int (unat t mod 100)), [])"
    by (simp_all add: convert.simps print_int_def)
  moreover have "byte CHR ''%'' = 37" "byte CHR ''.'' \<noteq> 37" by (simp_all add: byte_def of_char_def)
  ultimately show ?thesis by (simp add: stamp_text_def)
qed

text \<open>The time printed before a log line does not pad the hundredths: a message logged \<open>c\<close> hundredths
  after a full second (\<open>c < 10\<close>) is stamped like one logged \<open>c\<close> tenths after it, but for a
  trailing zero, so that 1.05 s reads as "1.5" and 1.50 s as "1.50".\<close>

theorem klog_stamp_unpadded:
  assumes "0 < c" "c < 10" "n < 42949672"
  shows "\<exists>w. stamp_text (of_nat (100 * n + c)) = Some w
    \<and> stamp_text (of_nat (100 * n + 10 * c)) = Some (w @ bytes ''0'')"
proof -
  have b: "100 * n + c < 4294967296" "100 * n + 10 * c < 4294967296" using assms by simp_all
  have u: "unat (of_nat (100 * n + c) :: u32) = 100 * n + c"
    "unat (of_nat (100 * n + 10 * c) :: u32) = 100 * n + 10 * c"
    by (rule unat_of_nat_u32, rule b)+
  have "print_digits (10 * int c) = print_digits (int c) @ bytes ''0''"
    using assms(1) by (subst print_digits.simps) (simp add: byte_def of_char_def)
  then show ?thesis
    unfolding stamp_text_eq u using assms by simp
qed

theorem klog_stamp_unpadded_witness:
  "\<exists>w. stamp_text 105 = Some w \<and> stamp_text 150 = Some (w @ bytes ''0'')"
  using klog_stamp_unpadded [of 5 1] by simp

end
