(* ===== verification/Process.thy ===== *)
theory Process
  imports Pmm Klog
begin

text \<open>
  Processes and the scheduler: \<^verbatim>\<open>src/process.c\<close> and the context switch
  \<^verbatim>\<open>src/context_switch.s\<close>. The table of 16 slots, the current and the next process id and the
  scheduling flag make up \<open>procs\<close>; \<open>kern\<close> adds what the operations of the file reach: the page
  allocator, the kernel log and the memory the stacks lie in, as 32-bit words by address.
  \<open>now\<close> is the value of \<open>timer_get_ticks()\<close>, \<open>wrapper\<close> the address of
  \<open>process_entry_wrapper\<close>. \<open>None\<close> is an access outside an array or the overflow of the log's
  counter.
\<close>

section \<open>State\<close>

abbreviation (input) MAX_PROCESSES :: nat where "MAX_PROCESSES \<equiv> 16"
abbreviation (input) PROC_NAME_LEN :: nat where "PROC_NAME_LEN \<equiv> 32"
abbreviation (input) KSTACK_SIZE :: u32 where "KSTACK_SIZE \<equiv> 4096"

datatype proc_state = PROC_UNUSED | PROC_RUNNING | PROC_READY | PROC_BLOCKED | PROC_TERMINATED

record proc =
  pid :: u32
  pname :: "u8 list"
  pstate :: proc_state
  saved_esp :: u32
  kstack :: u32
  legacy_esp :: u32
  legacy_eip :: u32
  page_directory :: u32
  priority :: u32
  ticks_used :: u32
  proc_created_tick :: u32
  wake_tick :: u32
  entry :: u32
  p_in_use :: bool

record procs =
  proc_table :: "proc list"
  current_pid :: u32
  next_pid :: u32
  scheduling_enabled :: bool

record kern =
  procs :: procs
  pages :: pmm
  log :: klog
  mem :: "u32 \<Rightarrow> u32"

definition zero_proc :: proc where
  "zero_proc = \<lparr>pid = 0, pname = replicate PROC_NAME_LEN 0, pstate = PROC_UNUSED, saved_esp = 0,
     kstack = 0, legacy_esp = 0, legacy_eip = 0, page_directory = 0, priority = 0, ticks_used = 0,
     proc_created_tick = 0, wake_tick = 0, entry = 0, p_in_use = False\<rparr>"

definition set_proc :: "nat \<Rightarrow> proc \<Rightarrow> procs \<Rightarrow> procs" where
  "set_proc i p ps = ps\<lparr>proc_table := (proc_table ps)[i := p]\<rparr>"

section \<open>Creating and ending processes\<close>

definition process_init :: "procs \<Rightarrow> procs option" where
  "process_init ps = do {
     n0 \<leftarrow> strcpy (pname zero_proc) (bytes ''kernel'');
     n1 \<leftarrow> strcpy (pname zero_proc) (bytes ''shell'');
     Some (ps\<lparr>proc_table :=
         zero_proc\<lparr>pid := 0, pname := n0, pstate := PROC_RUNNING, priority := 0, p_in_use := True\<rparr>
         # zero_proc\<lparr>pid := 1, pname := n1, pstate := PROC_RUNNING, priority := 1, p_in_use := True\<rparr>
         # replicate 14 zero_proc,
       current_pid := 1, next_pid := 2\<rparr>)
   }"

definition find_slot_by_pid :: "u32 \<Rightarrow> procs \<Rightarrow> nat option" where
  "find_slot_by_pid p ps =
     first_from (\<lambda>i. p_in_use (proc_table ps ! i) \<and> pid (proc_table ps ! i) = p) 0 MAX_PROCESSES"

definition find_free_slot :: "procs \<Rightarrow> nat option" where
  "find_free_slot ps = first_from (\<lambda>i. \<not> p_in_use (proc_table ps ! i)) 0 MAX_PROCESSES"

definition process_create :: "u32 \<Rightarrow> u8 list \<Rightarrow> u32 \<Rightarrow> procs \<Rightarrow> (procs \<times> int) option" where
  "process_create now nm prio ps =
     (case find_free_slot ps of
        None \<Rightarrow> Some (ps, - 1)
      | Some i \<Rightarrow> do {
          n1 \<leftarrow> strncpy (pname (proc_table ps ! i)) nm (PROC_NAME_LEN - 1);
          n2 \<leftarrow> put_at n1 (PROC_NAME_LEN - 1) 0;
          Some ((set_proc i ((proc_table ps ! i)\<lparr>pid := next_pid ps, pname := n2, pstate := PROC_READY,
                    priority := prio, ticks_used := 0, proc_created_tick := now, wake_tick := 0,
                    kstack := 0, entry := 0, p_in_use := True\<rparr>) ps)\<lparr>next_pid := next_pid ps + 1\<rparr>,
                sint (next_pid ps))
        })"

text \<open>The initial stack: the return address, then eight zeroed registers, pushed downwards.\<close>

fun push_zeros :: "nat \<Rightarrow> u32 \<Rightarrow> (u32 \<Rightarrow> u32) \<Rightarrow> u32 \<times> (u32 \<Rightarrow> u32)" where
  "push_zeros 0 sp m = (sp, m)"
| "push_zeros (Suc n) sp m = push_zeros n (sp - 4) (m(sp - 4 := 0))"

definition initial_stack :: "u32 \<Rightarrow> u32 \<Rightarrow> (u32 \<Rightarrow> u32) \<Rightarrow> u32 \<times> (u32 \<Rightarrow> u32)" where
  "initial_stack wrapper stack m =
     (let sp = stack + KSTACK_SIZE - 4 in push_zeros 8 sp (m(sp := wrapper)))"

definition process_create_kernel :: "u32 \<Rightarrow> u32 \<Rightarrow> u8 list \<Rightarrow> u32 \<Rightarrow> kern \<Rightarrow> (kern \<times> int) option" where
  "process_create_kernel now wrapper nm fn k =
     (case find_free_slot (procs k) of
        None \<Rightarrow> Some (k, - 1)
      | Some slot \<Rightarrow>
          (case pmm_alloc_page (pages k) of (pages', stack) \<Rightarrow>
            if stack = 0 then Some (k\<lparr>pages := pages'\<rparr>, - 1)
            else let p = proc_table (procs k) ! slot; new_pid = next_pid (procs k) in do {
              n1 \<leftarrow> strncpy (pname p) nm (PROC_NAME_LEN - 1);
              n2 \<leftarrow> put_at n1 (PROC_NAME_LEN - 1) 0;
              (case initial_stack wrapper stack (mem k) of (sp, mem') \<Rightarrow>
                let p' = p\<lparr>pid := new_pid, pname := n2, pstate := PROC_READY, priority := 1,
                      ticks_used := 0, proc_created_tick := now, wake_tick := 0, kstack := stack,
                      entry := fn, p_in_use := True, saved_esp := sp\<rparr> in do {
                  log' \<leftarrow> klog now KLOG_INFO (bytes ''process spawned'') (log k);
                  Some (k\<lparr>procs := (set_proc slot p' (procs k))\<lparr>next_pid := new_pid + 1\<rparr>,
                          pages := pages', log := log', mem := mem'\<rparr>, sint new_pid)
                })
            }))"

text \<open>The table in the middle of \<open>process_create_kernel\<close>: the slot is in use and ready, its stack
  pointer is not set yet. Interrupts are on when the shell calls it, so the timer can see this.\<close>

definition task_published :: "u32 \<Rightarrow> u8 list \<Rightarrow> u32 \<Rightarrow> u32 \<Rightarrow> nat \<Rightarrow> procs \<Rightarrow> procs option" where
  "task_published now nm fn stack slot ps =
     (let p = proc_table ps ! slot in do {
        n1 \<leftarrow> strncpy (pname p) nm (PROC_NAME_LEN - 1);
        n2 \<leftarrow> put_at n1 (PROC_NAME_LEN - 1) 0;
        Some ((set_proc slot (p\<lparr>pid := next_pid ps, pname := n2, pstate := PROC_READY, priority := 1,
            ticks_used := 0, proc_created_tick := now, wake_tick := 0, kstack := stack, entry := fn,
            p_in_use := True\<rparr>) ps)\<lparr>next_pid := next_pid ps + 1\<rparr>)
      })"

definition process_terminate :: "u32 \<Rightarrow> u32 \<Rightarrow> kern \<Rightarrow> (kern \<times> int) option" where
  "process_terminate now p k =
     (case find_slot_by_pid p (procs k) of
        None \<Rightarrow> Some (k, - 1)
      | Some slot \<Rightarrow>
          if p \<le> 1 then Some (k, - 1)
          else let q = (proc_table (procs k) ! slot)\<lparr>pstate := PROC_TERMINATED, p_in_use := False\<rparr> in do {
            log' \<leftarrow> klog now KLOG_INFO (bytes ''process terminated'') (log k);
            Some (if kstack q \<noteq> 0
              then k\<lparr>procs := set_proc slot (q\<lparr>kstack := 0\<rparr>) (procs k),
                     pages := pmm_free_page (kstack q) (pages k), log := log'\<rparr>
              else k\<lparr>procs := set_proc slot q (procs k), log := log'\<rparr>, 0)
          })"

definition process_get_current :: "procs \<Rightarrow> nat option" where
  "process_get_current ps = find_slot_by_pid (current_pid ps) ps"

text \<open>The end of \<open>process_entry_wrapper\<close>, when the task's function has returned: the slot that
  \<open>process_get_current\<close> gave when the task started is given up, the stack is not.\<close>

definition wrapper_exit :: "nat option \<Rightarrow> procs \<Rightarrow> procs" where
  "wrapper_exit started ps =
     (case started of
        None \<Rightarrow> ps
      | Some slot \<Rightarrow> set_proc slot ((proc_table ps ! slot)\<lparr>pstate := PROC_TERMINATED, p_in_use := False\<rparr>) ps)"

definition process_get_count :: "procs \<Rightarrow> nat" where
  "process_get_count ps = length (filter (\<lambda>i. p_in_use (proc_table ps ! i)) [0 ..< MAX_PROCESSES])"

section \<open>Time and scheduling\<close>

definition wake :: "u32 \<Rightarrow> proc \<Rightarrow> proc" where
  "wake now p =
     (if p_in_use p \<and> pstate p = PROC_BLOCKED \<and> wake_tick p \<noteq> 0 \<and> now \<ge> wake_tick p
      then p\<lparr>pstate := PROC_READY, wake_tick := 0\<rparr> else p)"

definition process_tick :: "u32 \<Rightarrow> procs \<Rightarrow> procs" where
  "process_tick now ps =
     (let ps1 = (case find_slot_by_pid (current_pid ps) ps of
          None \<Rightarrow> ps
        | Some slot \<Rightarrow> set_proc slot ((proc_table ps ! slot)\<lparr>ticks_used := ticks_used (proc_table ps ! slot) + 1\<rparr>) ps)
      in fold (\<lambda>i ps. set_proc i (wake now (proc_table ps ! i)) ps) [0 ..< MAX_PROCESSES] ps1)"

text \<open>The slot the scheduler starts from, and the next one that is ready after it, cyclically.\<close>

definition cur_slot :: "procs \<Rightarrow> nat" where
  "cur_slot ps = (case find_slot_by_pid (current_pid ps) ps of None \<Rightarrow> 0 | Some i \<Rightarrow> i)"

definition pick_next :: "procs \<Rightarrow> nat option" where
  "pick_next ps =
     map_option (\<lambda>i. (cur_slot ps + i) mod MAX_PROCESSES)
       (first_from (\<lambda>i. let p = proc_table ps ! ((cur_slot ps + i) mod MAX_PROCESSES) in
          p_in_use p \<and> pstate p = PROC_READY) 1 (Suc MAX_PROCESSES))"

text \<open>\<open>schedule\<close>, with the stack pointer that \<open>context_switch\<close> stores for the old process; the
  result has the stack pointer it loads, when there is a switch.\<close>

definition schedule :: "u32 \<Rightarrow> procs \<Rightarrow> procs \<times> u32 option" where
  "schedule cur_esp ps =
     (if \<not> scheduling_enabled ps then (ps, None)
      else case pick_next ps of
        None \<Rightarrow> (ps, None)
      | Some next \<Rightarrow>
          if next = cur_slot ps then (ps, None)
          else let cur = cur_slot ps; p = proc_table ps ! cur;
                   ps1 = (if pstate p = PROC_RUNNING then set_proc cur (p\<lparr>pstate := PROC_READY\<rparr>) ps else ps);
                   ps2 = set_proc next ((proc_table ps1 ! next)\<lparr>pstate := PROC_RUNNING\<rparr>) ps1;
                   ps3 = ps2\<lparr>current_pid := pid (proc_table ps2 ! next)\<rparr>;
                   new_esp = saved_esp (proc_table ps3 ! next)
               in (set_proc cur ((proc_table ps3 ! cur)\<lparr>saved_esp := cur_esp\<rparr>) ps3, Some new_esp))"

text \<open>\<open>process_sleep\<close>: process 0 and 1, and a process that is not in the table, wait in a loop
  (\<open>still_waiting\<close> is its condition); others block and give up the processor.\<close>

definition still_waiting :: "u32 \<Rightarrow> u32 \<Rightarrow> u32 \<Rightarrow> bool" where
  "still_waiting start ticks now \<longleftrightarrow> now - start < ticks"

definition sleep_busy :: "procs \<Rightarrow> bool" where
  "sleep_busy ps \<longleftrightarrow> find_slot_by_pid (current_pid ps) ps = None \<or> current_pid ps \<le> 1"

definition process_sleep :: "u32 \<Rightarrow> u32 \<Rightarrow> u32 \<Rightarrow> procs \<Rightarrow> procs \<times> u32 option" where
  "process_sleep now ticks cur_esp ps =
     (if sleep_busy ps then (ps, None)
      else let slot = cur_slot ps in
        schedule cur_esp (set_proc slot ((proc_table ps ! slot)\<lparr>pstate := PROC_BLOCKED,
          wake_tick := now + ticks\<rparr>) ps))"

definition process_yield :: "u32 \<Rightarrow> procs \<Rightarrow> procs \<times> u32 option" where
  "process_yield cur_esp ps = schedule cur_esp ps"

definition process_set_scheduling_enabled :: "bool \<Rightarrow> procs \<Rightarrow> procs" where
  "process_set_scheduling_enabled b ps = ps\<lparr>scheduling_enabled := b\<rparr>"

section \<open>The context switch\<close>

record cpu =
  eax :: u32
  ebx :: u32
  ecx :: u32
  edx :: u32
  esi :: u32
  edi :: u32
  ebp :: u32
  esp :: u32
  eip :: u32

type_synonym machine = "cpu \<times> (u32 \<Rightarrow> u32)"

definition push :: "u32 \<Rightarrow> machine \<Rightarrow> machine" where
  "push v cm = (case cm of (c, m) \<Rightarrow> (c\<lparr>esp := esp c - 4\<rparr>, m(esp c - 4 := v)))"

definition pushad :: "machine \<Rightarrow> machine" where
  "pushad cm = (case cm of (c, m) \<Rightarrow>
     push (edi c) (push (esi c) (push (ebp c) (push (esp c) (push (ebx c) (push (edx c)
       (push (ecx c) (push (eax c) (c, m)))))))))"

definition popad :: "machine \<Rightarrow> machine" where
  "popad cm = (case cm of (c, m) \<Rightarrow>
     (c\<lparr>edi := m (esp c), esi := m (esp c + 4), ebp := m (esp c + 8), ebx := m (esp c + 16),
        edx := m (esp c + 20), ecx := m (esp c + 24), eax := m (esp c + 28), esp := esp c + 32\<rparr>, m))"

definition ret :: "machine \<Rightarrow> machine" where
  "ret cm = (case cm of (c, m) \<Rightarrow> (c\<lparr>eip := m (esp c), esp := esp c + 4\<rparr>, m))"

definition context_switch :: "machine \<Rightarrow> machine" where
  "context_switch cm =
     (case pushad cm of (c, m) \<Rightarrow>
      let c1 = c\<lparr>eax := m (esp c + 36)\<rparr>;
          m1 = m(eax c1 := esp c1);
          c2 = c1\<lparr>esp := m1 (esp c1 + 40)\<rparr>
      in ret (popad (c2, m1)))"

end
