(* ===== verification/ProcessInv.thy ===== *)
theory ProcessInv
  imports Process
begin

text \<open>
  The invariant of the process table and its preservation: process ids are distinct and below
  the next one, at most one process other than the idle one is running, and the kernel stacks
  are distinct pages the allocator has handed out (the client side of the \<open>page_source\<close>
  contract).
\<close>

section \<open>The invariant\<close>

definition ident :: "proc \<Rightarrow> u32 \<times> bool" where
  "ident p = (pid p, p_in_use p)"

definition idents :: "procs \<Rightarrow> (u32 \<times> bool) list" where
  "idents ps = map ident (proc_table ps)"

definition ids_ok :: "(u32 \<times> bool) list \<Rightarrow> u32 \<Rightarrow> bool" where
  "ids_ok xs n \<longleftrightarrow> length xs = 16 \<and> xs ! 0 = (0, True) \<and> xs ! 1 = (1, True) \<and> 2 \<le> n
     \<and> (\<forall>i < 16. 1 < i \<longrightarrow> snd (xs ! i) \<longrightarrow> 2 \<le> fst (xs ! i) \<and> fst (xs ! i) < n)
     \<and> (\<forall>i < 16. \<forall>j < 16. snd (xs ! i) \<longrightarrow> snd (xs ! j) \<longrightarrow> fst (xs ! i) = fst (xs ! j) \<longrightarrow> i = j)"

definition running_ok :: "procs \<Rightarrow> bool" where
  "running_ok ps \<longleftrightarrow> (\<forall>i < 16. p_in_use (proc_table ps ! i) \<longrightarrow> pstate (proc_table ps ! i) = PROC_RUNNING \<longrightarrow>
     i = 0 \<or> pid (proc_table ps ! i) = current_pid ps)"

text \<open>The stacks: owned and distinct, where there is one.\<close>

definition stacks_ok :: "pmm \<Rightarrow> u32 list \<Rightarrow> bool" where
  "stacks_ok p cs \<longleftrightarrow> pmm_inv p
     \<and> (\<forall>i < length cs. cs ! i \<noteq> 0 \<longrightarrow> cs ! i \<in> pmm_owned p)
     \<and> (\<forall>i < length cs. \<forall>j < length cs. i \<noteq> j \<longrightarrow> cs ! i \<noteq> 0 \<longrightarrow> cs ! i \<noteq> cs ! j)"

lemma stacks_ok_cells: "stacks_ok p cs = pmm_source.cells_ok p cs"
  by (simp add: stacks_ok_def pmm_source.cells_ok_def)

definition procs_ok :: "procs \<Rightarrow> bool" where
  "procs_ok ps \<longleftrightarrow> ids_ok (idents ps) (next_pid ps) \<and> running_ok ps
     \<and> (\<forall>p \<in> set (proc_table ps). length (pname p) = 32)"

definition kern_inv :: "kern \<Rightarrow> bool" where
  "kern_inv k \<longleftrightarrow> procs_ok (procs k) \<and> stacks_ok (pages k) (map kstack (proc_table (procs k)))
     \<and> klog_inv (log k)"

lemma set_proc_simps [simp]:
  "proc_table (set_proc i p ps) = (proc_table ps)[i := p]"
  "current_pid (set_proc i p ps) = current_pid ps"
  "next_pid (set_proc i p ps) = next_pid ps"
  "scheduling_enabled (set_proc i p ps) = scheduling_enabled ps"
  by (simp_all add: set_proc_def)

lemma procs_ok_length: "procs_ok ps \<Longrightarrow> length (proc_table ps) = 16"
  by (simp add: procs_ok_def ids_ok_def idents_def)

lemma ids_ok_new:
  assumes "ids_ok xs n" "i < 16" "\<not> snd (xs ! i)" "n \<noteq> - 1"
  shows "ids_ok (xs[i := (n, True)]) (n + 1)"
proof -
  have n: "unat (n + 1) = Suc (unat n)"
  proof -
    have "unat n \<noteq> 4294967295"
    proof
      assume u: "unat n = 4294967295"
      have "n = of_nat (unat n)" by simp
      then have "n = of_nat 4294967295" by (simp only: u)
      with assms(4) show False by simp
    qed
    moreover have "unat n < 4294967296" by simp
    ultimately have "Suc (unat n) < 4294967296" by linarith
    then show ?thesis by (simp add: unat_word_ariths)
  qed
  have "snd (xs ! 0)" "snd (xs ! 1)" using assms(1) by (simp_all add: ids_ok_def)
  with assms(3) have "i \<noteq> 0" "i \<noteq> 1" by metis+
  moreover have "fst (xs ! j) \<noteq> n" if "j < 16" "snd (xs ! j)" for j
  proof (cases "1 < j")
    case True
    with assms(1) that show ?thesis unfolding ids_ok_def by (metis less_irrefl)
  next
    case False
    then have "j = 0 \<or> j = 1" by auto
    moreover have "(2 :: u32) \<le> n" using assms(1) by (simp add: ids_ok_def)
    then have "n \<noteq> 0" "n \<noteq> 1" by (auto simp: word_le_nat_alt)
    ultimately show ?thesis using assms(1) by (auto simp: ids_ok_def)
  qed
  ultimately show ?thesis
    using assms n unfolding ids_ok_def
    by (auto simp: nth_list_update word_less_nat_alt word_le_nat_alt less_Suc_eq)
qed

lemma ids_ok_drop: "ids_ok xs n \<Longrightarrow> 1 < i \<Longrightarrow> ids_ok (xs[i := (p, False)]) n"
proof (cases "i < 16")
  case True
  assume "ids_ok xs n" "1 < i"
  with True show ?thesis unfolding ids_ok_def by (simp add: nth_list_update)
next
  case False
  assume "ids_ok xs n" "1 < i"
  moreover from this False have "xs[i := (p, False)] = xs" by (simp add: ids_ok_def list_update_beyond)
  ultimately show ?thesis by simp
qed

lemma find_slotD:
  assumes "find_slot_by_pid p ps = Some i"
  shows "i < 16" "p_in_use (proc_table ps ! i)" "pid (proc_table ps ! i) = p"
  using first_from_SomeD [OF assms [unfolded find_slot_by_pid_def]] by simp_all

lemma find_free_slotD:
  assumes "find_free_slot ps = Some i"
  shows "i < 16" "\<not> p_in_use (proc_table ps ! i)"
  using first_from_SomeD [OF assms [unfolded find_free_slot_def]] by simp_all

lemma idents_nth: "i < length (proc_table ps) \<Longrightarrow> idents ps ! i = ident (proc_table ps ! i)"
  by (simp add: idents_def)

lemma procs_ok_slots:
  assumes "procs_ok ps"
  shows "p_in_use (proc_table ps ! 0)" "pid (proc_table ps ! 0) = 0"
    and "p_in_use (proc_table ps ! 1)" "pid (proc_table ps ! 1) = 1"
proof -
  have "idents ps ! 0 = (0, True)" "idents ps ! 1 = (1, True)"
    using assms by (simp_all add: procs_ok_def ids_ok_def)
  then show "p_in_use (proc_table ps ! 0)" "pid (proc_table ps ! 0) = 0"
    "p_in_use (proc_table ps ! 1)" "pid (proc_table ps ! 1) = 1"
    using procs_ok_length [OF assms] by (simp_all add: idents_nth ident_def)
qed

lemma procs_ok_unique:
  assumes "procs_ok ps" "i < 16" "j < 16" "p_in_use (proc_table ps ! i)" "p_in_use (proc_table ps ! j)"
    and "pid (proc_table ps ! i) = pid (proc_table ps ! j)"
  shows "i = j"
proof -
  have "ids_ok (idents ps) (next_pid ps)" using assms(1) by (simp add: procs_ok_def)
  then have "\<forall>i < 16. \<forall>j < 16. snd (idents ps ! i) \<longrightarrow> snd (idents ps ! j) \<longrightarrow>
      fst (idents ps ! i) = fst (idents ps ! j) \<longrightarrow> i = j"
    unfolding ids_ok_def by blast
  with assms procs_ok_length [OF assms(1)] show ?thesis by (simp add: idents_nth ident_def)
qed

lemma find_slot_iff:
  assumes "procs_ok ps"
  shows "find_slot_by_pid p ps = Some i \<longleftrightarrow> i < 16 \<and> p_in_use (proc_table ps ! i) \<and> pid (proc_table ps ! i) = p"
proof
  assume *: "i < 16 \<and> p_in_use (proc_table ps ! i) \<and> pid (proc_table ps ! i) = p"
  then have "find_slot_by_pid p ps \<noteq> None"
    by (auto simp: find_slot_by_pid_def first_from_None_iff)
  then obtain j where j: "find_slot_by_pid p ps = Some j" by auto
  with find_slotD [OF j] procs_ok_unique [OF assms, of i j] * show "find_slot_by_pid p ps = Some i" by auto
qed (use find_slotD in blast)

text \<open>An update that keeps identity and name, and does not set a foreign process running.\<close>

lemma procs_ok_update:
  assumes "procs_ok ps" "i < 16" "ident p = ident (proc_table ps ! i)" "length (pname p) = 32"
    and "p_in_use p \<Longrightarrow> pstate p = PROC_RUNNING \<Longrightarrow> i = 0 \<or> pid p = current_pid ps"
  shows "procs_ok (set_proc i p ps)"
proof -
  have len: "length (proc_table ps) = 16" by (rule procs_ok_length [OF assms(1)])
  have "idents (set_proc i p ps) = idents ps"
    using assms(2,3) len by (auto simp: idents_def map_update list_update_same_conv)
  moreover have "running_ok (set_proc i p ps)"
    using assms len unfolding running_ok_def procs_ok_def by (auto simp: nth_list_update)
  moreover have "\<forall>q \<in> set ((proc_table ps)[i := p]). length (pname q) = 32"
    using assms by (auto simp: procs_ok_def dest!: subsetD [OF set_update_subset_insert])
  ultimately show ?thesis using assms(1) by (simp add: procs_ok_def)
qed

lemma procs_ok_name: "procs_ok ps \<Longrightarrow> i < 16 \<Longrightarrow> length (pname (proc_table ps ! i)) = 32"
  using procs_ok_length [of ps] by (auto simp: procs_ok_def)

section \<open>Preservation\<close>

lemma store_pname:
  assumes "length a = 32"
  shows "\<exists>n. strncpy a nm 31 = Some n \<and> length n = 32"
  using assms by (simp add: strncpy_closed)

text \<open>A new process in a free slot.\<close>

lemma procs_ok_new:
  assumes "procs_ok ps" "find_free_slot ps = Some i" "next_pid ps \<noteq> - 1"
    and "pid p = next_pid ps" "p_in_use p" "pstate p = PROC_READY" "length (pname p) = 32"
  shows "procs_ok ((set_proc i p ps)\<lparr>next_pid := next_pid ps + 1\<rparr>)"
proof -
  note i = find_free_slotD [OF assms(2)]
  have len: "length (proc_table ps) = 16" by (rule procs_ok_length [OF assms(1)])
  have ids: "ids_ok (idents ps) (next_pid ps)" using assms(1) by (simp add: procs_ok_def)
  have "\<not> snd (idents ps ! i)" using i len by (simp add: idents_nth ident_def)
  from ids_ok_new [OF ids i(1) this assms(3)]
  have "ids_ok ((idents ps)[i := (next_pid ps, True)]) (next_pid ps + 1)" .
  moreover have "idents ((set_proc i p ps)\<lparr>next_pid := next_pid ps + 1\<rparr>) = (idents ps)[i := (next_pid ps, True)]"
    using assms(4,5) by (simp add: idents_def map_update ident_def)
  moreover have "running_ok ((set_proc i p ps)\<lparr>next_pid := next_pid ps + 1\<rparr>)"
    using assms len i(1) unfolding running_ok_def procs_ok_def by (auto simp: nth_list_update)
  moreover have "\<forall>q \<in> set ((proc_table ps)[i := p]). length (pname q) = 32"
    using assms by (auto simp: procs_ok_def dest!: subsetD [OF set_update_subset_insert])
  ultimately show ?thesis by (simp add: procs_ok_def)
qed

lemma procs_ok_drop:
  assumes "procs_ok ps" "1 < i" "i < 16" "\<not> p_in_use p" "length (pname p) = 32"
  shows "procs_ok (set_proc i p ps)"
proof -
  have len: "length (proc_table ps) = 16" by (rule procs_ok_length [OF assms(1)])
  have "ids_ok ((idents ps)[i := (pid p, False)]) (next_pid ps)"
    using assms(1,2) by (simp add: procs_ok_def ids_ok_drop)
  moreover have "idents (set_proc i p ps) = (idents ps)[i := (pid p, False)]"
    using assms(4) by (simp add: idents_def map_update ident_def)
  moreover have "running_ok (set_proc i p ps)"
    using assms len unfolding running_ok_def procs_ok_def by (auto simp: nth_list_update)
  moreover have "\<forall>q \<in> set ((proc_table ps)[i := p]). length (pname q) = 32"
    using assms by (auto simp: procs_ok_def dest!: subsetD [OF set_update_subset_insert])
  ultimately show ?thesis by (simp add: procs_ok_def)
qed

lemma map_kstack_update [simp]:
  "map kstack ((proc_table ps)[i := p]) = (map kstack (proc_table ps))[i := kstack p]"
  by (rule map_update)

lemma kstack_same:
  "kstack p = kstack (proc_table ps ! i) \<Longrightarrow>
    (map kstack (proc_table ps))[i := kstack p] = map kstack (proc_table ps)"
  by (cases "i < length (proc_table ps)") (simp_all add: list_update_beyond list_update_same_conv)

lemma klog_inv_step: "klog_inv k \<Longrightarrow> klog now lv s k = Some k' \<Longrightarrow> klog_inv k'"
proof -
  assume k: "klog_inv k" "klog now lv s k = Some k'"
  have "klog_total k < 2147483647"
  proof (rule ccontr)
    assume "\<not> klog_total k < 2147483647"
    with k(1) have "klog_total k = 2147483647" by (simp add: klog_inv_def)
    then have "cint (klog_total k + 1) = None" by (simp add: cint_def)
    with k(2) show False by (simp add: klog_def bind_eq_Some_conv)
  qed
  from klog_step_inv [OF k(1) this, of now lv s] k(2) show "klog_inv k'" by auto
qed

text \<open>A new kernel task's slot, and the two ways the creation can end.\<close>

definition spawned :: "u32 \<Rightarrow> u32 \<Rightarrow> u8 list \<Rightarrow> u32 \<Rightarrow> u32 \<Rightarrow> u32 \<Rightarrow> proc \<Rightarrow> proc" where
  "spawned now new_pid n fn stack sp p =
     p\<lparr>pid := new_pid, pname := n[31 := 0], pstate := PROC_READY, priority := 1, ticks_used := 0,
       proc_created_tick := now, wake_tick := 0, kstack := stack, entry := fn, p_in_use := True,
       saved_esp := sp\<rparr>"

lemma spawned_simps [simp]:
  "pid (spawned now i n fn st sp p) = i" "pname (spawned now i n fn st sp p) = n[31 := 0]"
  "pstate (spawned now i n fn st sp p) = PROC_READY" "kstack (spawned now i n fn st sp p) = st"
  "entry (spawned now i n fn st sp p) = fn" "p_in_use (spawned now i n fn st sp p)"
  "saved_esp (spawned now i n fn st sp p) = sp"
  by (simp_all add: spawned_def)

lemma process_create_kernel_cases:
  assumes "procs_ok (procs k)" "process_create_kernel now wrapper nm fn k = Some (k', r)"
  obtains (no_slot) "find_free_slot (procs k) = None" "k' = k" "r = - 1"
  | (no_page) i pg where "find_free_slot (procs k) = Some i" "pmm_alloc_page (pages k) = (pg, 0)"
      "k' = k\<lparr>pages := pg\<rparr>" "r = - 1"
  | (created) i pg st l sp m n where "find_free_slot (procs k) = Some i" "i < 16"
      "pmm_alloc_page (pages k) = (pg, st)" "st \<noteq> 0"
      "klog now KLOG_INFO (bytes ''process spawned'') (log k) = Some l"
      "initial_stack wrapper st (mem k) = (sp, m)"
      "strncpy (pname (proc_table (procs k) ! i)) nm 31 = Some n" "length n = 32"
      "k' = k\<lparr>procs := (set_proc i (spawned now (next_pid (procs k)) n fn st sp (proc_table (procs k) ! i))
          (procs k))\<lparr>next_pid := next_pid (procs k) + 1\<rparr>, pages := pg, log := l, mem := m\<rparr>"
      "r = sint (next_pid (procs k))"
proof (cases "find_free_slot (procs k)")
  case None
  with assms(2) show thesis by (intro no_slot) (simp_all add: process_create_kernel_def)
next
  case (Some i)
  obtain pg st where al: "pmm_alloc_page (pages k) = (pg, st)" by fastforce
  note i = find_free_slotD [OF Some]
  obtain n where n: "strncpy (pname (proc_table (procs k) ! i)) nm 31 = Some n" "length n = 32"
    using store_pname [OF procs_ok_name [OF assms(1) i(1)]] by blast
  obtain sp m where sp: "initial_stack wrapper st (mem k) = (sp, m)" by fastforce
  show thesis
  proof (cases "st = 0")
    case True
    with assms(2) Some al show thesis by (intro no_page) (auto simp: process_create_kernel_def)
  next
    case False
    from assms(2) Some al False n sp obtain l where
      "klog now KLOG_INFO (bytes ''process spawned'') (log k) = Some l"
      "k' = k\<lparr>procs := (set_proc i (spawned now (next_pid (procs k)) n fn st sp (proc_table (procs k) ! i))
          (procs k))\<lparr>next_pid := next_pid (procs k) + 1\<rparr>, pages := pg, log := l, mem := m\<rparr>"
      "r = sint (next_pid (procs k))"
      by (auto simp: process_create_kernel_def Let_def bind_eq_Some_conv spawned_def simp del: bytes_simps(1,2))
    with Some i(1) al False sp n created show thesis by blast
  qed
qed

lemma process_create_kernel_inv:
  assumes "kern_inv k" "process_create_kernel now wrapper nm fn k = Some (k', r)"
    and "next_pid (procs k) \<noteq> - 1"
  shows "kern_inv k'"
proof -
  have inv: "procs_ok (procs k)" "pmm_source.cells_ok (pages k) (map kstack (proc_table (procs k)))"
    "klog_inv (log k)"
    using assms(1) by (simp_all add: kern_inv_def stacks_ok_cells)
  from inv(1) assms(2) show ?thesis
  proof (cases rule: process_create_kernel_cases)
    case no_slot
    with assms(1) show ?thesis by simp
  next
    case (no_page i pg)
    with assms(1) pmm_source.cells_alloc_none [OF inv(2)] show ?thesis by simp
  next
    case (created i pg st l sp m n)
    let ?p = "spawned now (next_pid (procs k)) n fn st sp (proc_table (procs k) ! i)"
    have "procs_ok ((set_proc i ?p (procs k))\<lparr>next_pid := next_pid (procs k) + 1\<rparr>)"
      using created(8) by (intro procs_ok_new [OF inv(1) created(1) assms(3)]) simp_all
    moreover have "pmm_source.cells_ok pg ((map kstack (proc_table (procs k)))[i := st])"
      using pmm_source.cells_alloc [OF inv(2) created(3,4)] created(2) procs_ok_length [OF inv(1)] by simp
    moreover have "klog_inv l" by (rule klog_inv_step [OF inv(3) created(5)])
    ultimately show ?thesis by (simp add: kern_inv_def created stacks_ok_cells)
  qed
qed

text \<open>The older \<open>process_create\<close>, without a stack.\<close>

lemma process_create_inv:
  assumes "kern_inv k" "process_create now nm prio (procs k) = Some (ps', r)"
    and "next_pid (procs k) \<noteq> - 1"
  shows "kern_inv (k\<lparr>procs := ps'\<rparr>)"
proof (cases "find_free_slot (procs k)")
  case None
  with assms(2) have "ps' = procs k" by (simp add: process_create_def)
  with assms(1) show ?thesis by (simp add: kern_inv_def)
next
  case (Some i)
  have inv: "procs_ok (procs k)" "pmm_source.cells_ok (pages k) (map kstack (proc_table (procs k)))"
    "klog_inv (log k)"
    using assms(1) by (simp_all add: kern_inv_def stacks_ok_cells)
  note i = find_free_slotD [OF Some]
  obtain n where n: "strncpy (pname (proc_table (procs k) ! i)) nm 31 = Some n" "length n = 32"
    using store_pname [OF procs_ok_name [OF inv(1) i(1)]] by blast
  define p where "p = (proc_table (procs k) ! i)\<lparr>pid := next_pid (procs k), pname := n[31 := 0],
    pstate := PROC_READY, priority := prio, ticks_used := 0, proc_created_tick := now, wake_tick := 0,
    kstack := 0, entry := 0, p_in_use := True\<rparr>"
  have ps': "ps' = (set_proc i p (procs k))\<lparr>next_pid := next_pid (procs k) + 1\<rparr>"
    using assms(2) Some n by (simp add: process_create_def p_def)
  have "procs_ok ps'"
    unfolding ps' using n(2) by (intro procs_ok_new [OF inv(1) Some assms(3)]) (simp_all add: p_def)
  moreover have "map kstack (proc_table ps') = (map kstack (proc_table (procs k)))[i := 0]"
    by (simp add: ps' map_update p_def)
  ultimately show ?thesis using inv pmm_source.cells_clear [OF inv(2)] by (simp add: kern_inv_def stacks_ok_cells)
qed

lemma process_terminate_inv:
  assumes "kern_inv k" "process_terminate now p k = Some (k', r)"
  shows "kern_inv k'"
proof (cases "find_slot_by_pid p (procs k)")
  case None
  with assms show ?thesis by (simp add: process_terminate_def)
next
  case (Some i)
  have inv: "procs_ok (procs k)" "pmm_source.cells_ok (pages k) (map kstack (proc_table (procs k)))"
    "klog_inv (log k)"
    using assms(1) by (simp_all add: kern_inv_def stacks_ok_cells)
  note i = find_slotD [OF Some]
  have len: "length (proc_table (procs k)) = 16" by (rule procs_ok_length [OF inv(1)])
  show ?thesis
  proof (cases "p \<le> 1")
    case True
    with assms Some show ?thesis by (simp add: process_terminate_def)
  next
    case False
    define q where "q = (proc_table (procs k) ! i)\<lparr>pstate := PROC_TERMINATED, p_in_use := False\<rparr>"
    have "i \<noteq> 0"
    proof
      assume "i = 0"
      then have "p = 0" using i(3) procs_ok_slots(2) [OF inv(1)] by simp
      with False show False by simp
    qed
    moreover have "i \<noteq> 1"
    proof
      assume "i = 1"
      then have "p = 1" using i(3) procs_ok_slots(4) [OF inv(1)] by simp
      with False show False by simp
    qed
    ultimately have i1: "1 < i" by simp
    have nm: "length (pname q) = 32" using procs_ok_name [OF inv(1) i(1)] by (simp add: q_def)
    from assms(2) Some False obtain l where l: "klog now KLOG_INFO (bytes ''process terminated'') (log k) = Some l"
      "k' = (if kstack q \<noteq> 0
              then k\<lparr>procs := set_proc i (q\<lparr>kstack := 0\<rparr>) (procs k),
                     pages := pmm_free_page (kstack q) (pages k), log := l\<rparr>
              else k\<lparr>procs := set_proc i q (procs k), log := l\<rparr>)"
      by (auto simp: process_terminate_def Let_def bind_eq_Some_conv q_def simp del: bytes_simps(1,2))
    have ok: "procs_ok (set_proc i q (procs k))" "procs_ok (set_proc i (q\<lparr>kstack := 0\<rparr>) (procs k))"
      using nm by (intro procs_ok_drop [OF inv(1) i1 i(1)]; simp add: q_def)+
    have li: "klog_inv l" by (rule klog_inv_step [OF inv(3) l(1)])
    have st: "map kstack (proc_table (procs k)) ! i = kstack q" using i(1) len by (simp add: q_def)
    show ?thesis
    proof (cases "kstack q = 0")
      case True
      then have "(map kstack (proc_table (procs k)))[i := kstack q] = map kstack (proc_table (procs k))"
        using st i(1) len by (simp add: list_update_same_conv)
      with True l ok li inv(2) show ?thesis by (simp add: kern_inv_def stacks_ok_cells)
    next
      case ne: False
      have "pmm_source.cells_ok (pmm_free_page (kstack q) (pages k)) ((map kstack (proc_table (procs k)))[i := 0])"
        using pmm_source.cells_free [OF inv(2), of i] st ne i(1) len by simp
      with ne l ok li show ?thesis by (simp add: kern_inv_def stacks_ok_cells)
    qed
  qed
qed

lemma kern_inv_procs:
  assumes "kern_inv k" "procs_ok ps" "map kstack (proc_table ps) = map kstack (proc_table (procs k))"
  shows "kern_inv (k\<lparr>procs := ps\<rparr>)"
  using assms by (simp add: kern_inv_def)

lemma fold_set_proc:
  "n \<le> length (proc_table ps) \<Longrightarrow>
    fold (\<lambda>i ps. set_proc i (f (proc_table ps ! i)) ps) [0 ..< n] ps
      = ps\<lparr>proc_table := map f (take n (proc_table ps)) @ drop n (proc_table ps)\<rparr>"
proof (induction n)
  case (Suc n)
  then have "drop n (proc_table ps) = proc_table ps ! n # drop (Suc n) (proc_table ps)"
    by (simp add: Cons_nth_drop_Suc)
  with Suc show ?case
    by (simp add: set_proc_def nth_append list_update_append take_Suc_conv_app_nth)
qed simp

lemma process_tick_eq:
  assumes "procs_ok ps"
  shows "process_tick now ps = ps\<lparr>proc_table := map (wake now)
    (case find_slot_by_pid (current_pid ps) ps of None \<Rightarrow> proc_table ps
     | Some i \<Rightarrow> (proc_table ps)[i := (proc_table ps ! i)\<lparr>ticks_used := ticks_used (proc_table ps ! i) + 1\<rparr>])\<rparr>"
  using procs_ok_length [OF assms]
  by (cases "find_slot_by_pid (current_pid ps) ps")
    (simp_all add: process_tick_def Let_def fold_set_proc set_proc_def [of _ _ ps])

lemma wake_simps [simp]:
  "ident (wake now p) = ident p" "pname (wake now p) = pname p" "kstack (wake now p) = kstack p"
  "p_in_use (wake now p) = p_in_use p" "pid (wake now p) = pid p"
  "pstate (wake now p) = PROC_RUNNING \<longleftrightarrow> pstate p = PROC_RUNNING"
  by (simp_all add: wake_def ident_def)

lemma procs_ok_map:
  assumes "procs_ok ps" "\<And>p. ident (f p) = ident p" "\<And>p. pname (f p) = pname p"
    and "\<And>p. pstate (f p) = PROC_RUNNING \<longleftrightarrow> pstate p = PROC_RUNNING"
  shows "procs_ok (ps\<lparr>proc_table := map f (proc_table ps)\<rparr>)"
proof -
  have f: "pid (f p) = pid p" "p_in_use (f p) = p_in_use p" for p
    using assms(2) [of p] by (simp_all add: ident_def)
  have "running_ok (ps\<lparr>proc_table := map f (proc_table ps)\<rparr>)"
    using assms(1,4) f procs_ok_length [OF assms(1)] by (simp add: running_ok_def procs_ok_def)
  moreover have "idents (ps\<lparr>proc_table := map f (proc_table ps)\<rparr>) = idents ps"
    using assms(2) by (simp add: idents_def o_def)
  ultimately show ?thesis using assms(1,3) by (simp add: procs_ok_def)
qed

lemma process_tick_ok:
  assumes "procs_ok ps"
  shows "procs_ok (process_tick now ps)"
    and "map kstack (proc_table (process_tick now ps)) = map kstack (proc_table ps)"
proof -
  define ps1 where "ps1 = (case find_slot_by_pid (current_pid ps) ps of None \<Rightarrow> ps
     | Some i \<Rightarrow> set_proc i ((proc_table ps ! i)\<lparr>ticks_used := ticks_used (proc_table ps ! i) + 1\<rparr>) ps)"
  have ps1: "procs_ok ps1 \<and> map kstack (proc_table ps1) = map kstack (proc_table ps)"
  proof (cases "find_slot_by_pid (current_pid ps) ps")
    case (Some i)
    note i = find_slotD [OF Some]
    have "procs_ok (set_proc i ((proc_table ps ! i)\<lparr>ticks_used := ticks_used (proc_table ps ! i) + 1\<rparr>) ps)"
      using i procs_ok_name [OF assms i(1)] by (intro procs_ok_update [OF assms i(1)]) (simp_all add: ident_def)
    with Some show ?thesis using kstack_same [of "(proc_table ps ! i)\<lparr>ticks_used := ticks_used (proc_table ps ! i) + 1\<rparr>" ps i]
      by (simp add: ps1_def)
  qed (use assms in \<open>simp add: ps1_def\<close>)
  have eq: "process_tick now ps = ps1\<lparr>proc_table := map (wake now) (proc_table ps1)\<rparr>"
    using process_tick_eq [OF assms, of now]
    by (cases "find_slot_by_pid (current_pid ps) ps") (simp_all add: ps1_def set_proc_def)
  show "procs_ok (process_tick now ps)" unfolding eq using ps1 by (intro procs_ok_map) simp_all
  show "map kstack (proc_table (process_tick now ps)) = map kstack (proc_table ps)"
    using ps1 by (simp add: eq o_def)
qed

lemma pick_nextD:
  assumes "pick_next ps = Some n"
  shows "n < 16" "p_in_use (proc_table ps ! n)" "pstate (proc_table ps ! n) = PROC_READY"
proof -
  from assms obtain i where "first_from (\<lambda>i. let p = proc_table ps ! ((cur_slot ps + i) mod 16) in
      p_in_use p \<and> pstate p = PROC_READY) 1 (Suc 16) = Some i" "n = (cur_slot ps + i) mod 16"
    by (auto simp: pick_next_def)
  from first_from_SomeD [OF this(1)] this(2)
  show "n < 16" "p_in_use (proc_table ps ! n)" "pstate (proc_table ps ! n) = PROC_READY"
    by (simp_all add: Let_def)
qed

lemma cur_slot_bound: "cur_slot ps < 16"
  using find_slotD(1) by (auto simp: cur_slot_def split: option.split)

text \<open>A switch in one equation: the old slot, the new slot, the current process.\<close>

definition preempted :: "u32 \<Rightarrow> proc \<Rightarrow> proc" where
  "preempted e p = p\<lparr>pstate := (if pstate p = PROC_RUNNING then PROC_READY else pstate p), saved_esp := e\<rparr>"

lemma schedule_switch:
  assumes "procs_ok ps" "scheduling_enabled ps" "pick_next ps = Some n" "n \<noteq> cur_slot ps"
  shows "schedule e ps = (ps\<lparr>proc_table := ((proc_table ps)[cur_slot ps := preempted e (proc_table ps ! cur_slot ps)])
      [n := (proc_table ps ! n)\<lparr>pstate := PROC_RUNNING\<rparr>], current_pid := pid (proc_table ps ! n)\<rparr>,
    Some (saved_esp (proc_table ps ! n)))"
proof -
  have len: "length (proc_table ps) = 16" by (rule procs_ok_length [OF assms(1)])
  have p: "p\<lparr>saved_esp := e\<rparr> = preempted e p" if "pstate p \<noteq> PROC_RUNNING" for p
    using that by (simp add: preempted_def)
  show ?thesis
    using assms(2-4) len cur_slot_bound [of ps] pick_nextD(1) [OF assms(3)]
    by (cases "pstate (proc_table ps ! cur_slot ps) = PROC_RUNNING")
      (simp_all add: schedule_def Let_def set_proc_def preempted_def list_update_swap)
qed

lemma schedule_ok:
  assumes "procs_ok ps"
  shows "procs_ok (fst (schedule e ps))"
    and "map kstack (proc_table (fst (schedule e ps))) = map kstack (proc_table ps)"
proof -
  have "procs_ok (fst (schedule e ps)) \<and> map kstack (proc_table (fst (schedule e ps))) = map kstack (proc_table ps)"
  proof (cases "scheduling_enabled ps \<and> (\<exists>n. pick_next ps = Some n \<and> n \<noteq> cur_slot ps)")
    case False
    with assms show ?thesis by (auto simp: schedule_def split: option.split)
  next
    case True
    then obtain n where n: "scheduling_enabled ps" "pick_next ps = Some n" "n \<noteq> cur_slot ps" by blast
    let ?c = "cur_slot ps"
    let ?t = "((proc_table ps)[?c := preempted e (proc_table ps ! ?c)])
      [n := (proc_table ps ! n)\<lparr>pstate := PROC_RUNNING\<rparr>]"
    let ?ps = "ps\<lparr>proc_table := ?t, current_pid := pid (proc_table ps ! n)\<rparr>"
    have len: "length (proc_table ps) = 16" by (rule procs_ok_length [OF assms])
    note pn = pick_nextD [OF n(2)] and c = cur_slot_bound [of ps]
    have ids: "map ident ?t = map ident (proc_table ps)" "map kstack ?t = map kstack (proc_table ps)"
      "map pname ?t = map pname (proc_table ps)"
      using len pn(1) c n(3)
      by (auto intro!: nth_equalityI simp: nth_list_update ident_def preempted_def)
    have "set (map pname ?t) = set (map pname (proc_table ps))" by (simp only: ids(3))
    then have names: "\<forall>p \<in> set ?t. length (pname p) = 32"
      using assms unfolding procs_ok_def set_map by (metis (no_types, lifting) image_iff)
    have "running_ok ?ps"
      unfolding running_ok_def
    proof (intro allI impI)
      fix i assume i: "i < (16 :: nat)" "p_in_use (proc_table ?ps ! i)" "pstate (proc_table ?ps ! i) = PROC_RUNNING"
      show "i = 0 \<or> pid (proc_table ?ps ! i) = current_pid ?ps"
      proof (cases "i = n \<or> i = ?c")
        case True
        with i len pn(1) c n(3) show ?thesis
          by (auto simp: nth_list_update preempted_def split: if_splits)
      next
        case False
        with i have "p_in_use (proc_table ps ! i)" "pstate (proc_table ps ! i) = PROC_RUNNING"
          by simp_all
        with assms i(1) have "i = 0 \<or> pid (proc_table ps ! i) = current_pid ps"
          by (simp add: procs_ok_def running_ok_def)
        moreover have False if "pid (proc_table ps ! i) = current_pid ps"
        proof -
          have "find_slot_by_pid (current_pid ps) ps = Some i"
            using that i(1) \<open>p_in_use (proc_table ps ! i)\<close> by (simp add: find_slot_iff [OF assms])
          then have "?c = i" by (simp add: cur_slot_def)
          with False show False by simp
        qed
        ultimately show ?thesis by blast
      qed
    qed
    then have "procs_ok ?ps"
      using assms ids(1) names by (simp add: procs_ok_def idents_def)
    with schedule_switch [OF assms n] ids(2) show ?thesis by simp
  qed
  then show "procs_ok (fst (schedule e ps))"
    "map kstack (proc_table (fst (schedule e ps))) = map kstack (proc_table ps)" by simp_all
qed

end
