(* ===== verification/ProcessProps.thy ===== *)
theory ProcessProps
  imports ProcessInv
begin

text \<open>
  The properties of the process subsystem: the invariant in every reachable state, the fairness
  of the scheduler, sleeping and waking, the context switch, and what ending the running
  process does.
\<close>

section \<open>Reachable states\<close>

lemma process_sleep_ok:
  assumes "procs_ok ps"
  shows "procs_ok (fst (process_sleep now ticks e ps))"
    and "map kstack (proc_table (fst (process_sleep now ticks e ps))) = map kstack (proc_table ps)"
proof -
  let ?p = "(proc_table ps ! cur_slot ps)\<lparr>pstate := PROC_BLOCKED, wake_tick := now + ticks\<rparr>"
  have ok: "procs_ok (set_proc (cur_slot ps) ?p ps)"
    using procs_ok_name [OF assms cur_slot_bound]
    by (intro procs_ok_update [OF assms cur_slot_bound]) (simp_all add: ident_def)
  have ks: "map kstack (proc_table (set_proc (cur_slot ps) ?p ps)) = map kstack (proc_table ps)"
    using kstack_same [of ?p ps "cur_slot ps"] by simp
  show "procs_ok (fst (process_sleep now ticks e ps))"
    using assms schedule_ok(1) [OF ok] by (simp add: process_sleep_def Let_def)
  show "map kstack (proc_table (fst (process_sleep now ticks e ps))) = map kstack (proc_table ps)"
    using schedule_ok(2) [OF ok] ks by (simp add: process_sleep_def Let_def)
qed

lemma wrapper_exit_ok:
  assumes "procs_ok ps" "1 < i" "i < 16"
  shows "procs_ok (wrapper_exit (Some i) ps)"
    and "map kstack (proc_table (wrapper_exit (Some i) ps)) = map kstack (proc_table ps)"
proof -
  let ?p = "(proc_table ps ! i)\<lparr>pstate := PROC_TERMINATED, p_in_use := False\<rparr>"
  show "procs_ok (wrapper_exit (Some i) ps)"
    using procs_ok_name [OF assms(1,3)] procs_ok_drop [OF assms, of ?p] by (simp add: wrapper_exit_def)
  show "map kstack (proc_table (wrapper_exit (Some i) ps)) = map kstack (proc_table ps)"
    using kstack_same [of ?p ps i] by (simp add: wrapper_exit_def)
qed

text \<open>What can happen to the process table: the calls of the file, the timer interrupt and the end of
  a task, in any slot but those of the idle process and the shell (no task starts there). A process
  is only created while there are process ids left.\<close>

inductive proc_step :: "kern \<Rightarrow> kern \<Rightarrow> bool" where
  step_create: "process_create_kernel now wrapper nm fn k = Some (k', r) \<Longrightarrow>
    next_pid (procs k) \<noteq> - 1 \<Longrightarrow> proc_step k k'"
| step_create_plain: "process_create now nm prio (procs k) = Some (ps', r) \<Longrightarrow>
    next_pid (procs k) \<noteq> - 1 \<Longrightarrow> proc_step k (k\<lparr>procs := ps'\<rparr>)"
| step_terminate: "process_terminate now p k = Some (k', r) \<Longrightarrow> proc_step k k'"
| step_tick: "proc_step k (k\<lparr>procs := process_tick now (procs k)\<rparr>)"
| step_schedule: "proc_step k (k\<lparr>procs := fst (schedule e (procs k))\<rparr>)"
| step_sleep: "proc_step k (k\<lparr>procs := fst (process_sleep now ticks e (procs k))\<rparr>)"
| step_exit: "1 < slot \<Longrightarrow> slot < 16 \<Longrightarrow> proc_step k (k\<lparr>procs := wrapper_exit (Some slot) (procs k)\<rparr>)"
| step_enable: "proc_step k (k\<lparr>procs := process_set_scheduling_enabled b (procs k)\<rparr>)"

inductive proc_reachable :: "kern \<Rightarrow> bool" where
  proc_start: "process_init ps = Some ps' \<Longrightarrow> pmm_inv pg \<Longrightarrow> klog_inv l \<Longrightarrow>
    proc_reachable \<lparr>procs = ps', pages = pg, log = l, mem = m\<rparr>"
| proc_next: "proc_reachable k \<Longrightarrow> proc_step k k' \<Longrightarrow> proc_reachable k'"

lemma proc_step_inv:
  assumes "proc_step k k'" "kern_inv k"
  shows "kern_inv k'"
proof -
  have ok: "procs_ok (procs k)" using assms(2) by (simp add: kern_inv_def)
  from assms(1) show ?thesis
  proof cases
    case step_create
    with assms(2) process_create_kernel_inv show ?thesis by blast
  next
    case step_create_plain
    with assms(2) process_create_inv show ?thesis by blast
  next
    case step_terminate
    with assms(2) process_terminate_inv show ?thesis by blast
  next
    case (step_tick now)
    then show ?thesis using kern_inv_procs [OF assms(2)] process_tick_ok [OF ok] by simp
  next
    case (step_schedule e)
    then show ?thesis using kern_inv_procs [OF assms(2)] schedule_ok [OF ok] by simp
  next
    case (step_sleep now ticks e)
    then show ?thesis using kern_inv_procs [OF assms(2)] process_sleep_ok [OF ok] by simp
  next
    case (step_exit slot)
    then show ?thesis using kern_inv_procs [OF assms(2)] wrapper_exit_ok [OF ok] by simp
  next
    case (step_enable b)
    have "procs_ok (process_set_scheduling_enabled b (procs k))"
      using ok by (simp add: procs_ok_def process_set_scheduling_enabled_def idents_def running_ok_def)
    then show ?thesis
      using step_enable kern_inv_procs [OF assms(2)] by (simp add: process_set_scheduling_enabled_def)
  qed
qed

lemma process_init_eq:
  "\<exists>n0 n1. length n0 = 32 \<and> length n1 = 32 \<and> process_init ps = Some (ps\<lparr>proc_table :=
     zero_proc\<lparr>pid := 0, pname := n0, pstate := PROC_RUNNING, priority := 0, p_in_use := True\<rparr>
     # zero_proc\<lparr>pid := 1, pname := n1, pstate := PROC_RUNNING, priority := 1, p_in_use := True\<rparr>
     # replicate 14 zero_proc, current_pid := 1, next_pid := 2\<rparr>)"
proof -
  have "\<exists>n. strcpy (replicate 32 0) (bytes w) = Some n \<and> length n = 32" if "length w < 32" "CHR 0x00 \<notin> set w" for w
  proof -
    have "cstr (bytes w) = bytes w" using that by (intro cstr_id) simp
    with that show ?thesis by (simp add: strcpy_closed)
  qed
  from this [of "''kernel''"] this [of "''shell''"] obtain n0 n1 where
    "strcpy (replicate 32 0) (bytes ''kernel'') = Some n0" "length n0 = 32"
    "strcpy (replicate 32 0) (bytes ''shell'') = Some n1" "length n1 = 32" by auto
  then show ?thesis
    by (intro exI [of _ n0] exI [of _ n1])
      (simp add: process_init_def zero_proc_def del: bytes_simps(1,2) replicate.simps)
qed

lemma process_init_ok:
  assumes "process_init ps = Some ps'"
  shows "procs_ok ps'" "map kstack (proc_table ps') = replicate 16 0"
proof -
  from process_init_eq [of ps] assms obtain n0 n1 where n: "length n0 = 32" "length n1 = 32"
    and ps': "ps' = ps\<lparr>proc_table :=
     zero_proc\<lparr>pid := 0, pname := n0, pstate := PROC_RUNNING, priority := 0, p_in_use := True\<rparr>
     # zero_proc\<lparr>pid := 1, pname := n1, pstate := PROC_RUNNING, priority := 1, p_in_use := True\<rparr>
     # replicate 14 zero_proc, current_pid := 1, next_pid := 2\<rparr>" by auto
  have z: "ident zero_proc = (0, False)" "kstack zero_proc = 0" "p_in_use zero_proc = False"
    "length (pname zero_proc) = 32"
    by (simp_all add: ident_def zero_proc_def)
  have ids: "idents ps' = (0, True) # (1, True) # replicate 14 (0, False)"
    by (simp add: ps' idents_def map_replicate_const z) (simp add: ident_def)
  have nth: "(a # b # replicate 14 c) ! i = (if i = 0 then a else if i = 1 then b else c)"
    if "i < 16" for i :: nat and a b c :: 'a
    using that by (cases i) (auto simp: nth_Cons' simp del: replicate.simps)
  have "ids_ok (idents ps') (next_pid ps')"
    unfolding ids ids_ok_def by (auto simp: nth ps' simp del: replicate.simps)
  moreover have "running_ok ps'"
    by (auto simp: running_ok_def ps' nth z simp del: replicate.simps)
  moreover have "\<forall>p \<in> set (proc_table ps'). length (pname p) = 32"
    using n z by (auto simp: ps')
  ultimately show "procs_ok ps'" by (simp add: procs_ok_def)
  show "map kstack (proc_table ps') = replicate 16 0"
    by (simp add: ps' z map_replicate_const) (simp add: zero_proc_def numeral_eq_Suc)
qed

lemma proc_reachable_kern_inv: "proc_reachable k \<Longrightarrow> kern_inv k"
proof (induction rule: proc_reachable.induct)
  case (proc_start ps ps' pg l m)
  note i = process_init_ok [OF proc_start(1)]
  have "stacks_ok pg (replicate 16 0)" using proc_start(2) by (simp add: stacks_ok_def)
  with i proc_start(3) show ?case by (simp add: kern_inv_def)
next
  case (proc_next k k')
  then show ?case using proc_step_inv by blast
qed


text \<open>A concrete kernel, as booted, with a given scheduling flag and a third, ready process.\<close>

definition boot_procs :: procs where
  "boot_procs = (case process_init \<lparr>proc_table = [], current_pid = 0, next_pid = 1, scheduling_enabled = True\<rparr>
     of Some ps \<Rightarrow> ps)"

lemma boot_procs_init:
  "process_init \<lparr>proc_table = [], current_pid = 0, next_pid = 1, scheduling_enabled = True\<rparr> = Some boot_procs"
  using process_init_eq [of "\<lparr>proc_table = [], current_pid = 0, next_pid = 1, scheduling_enabled = True\<rparr>"]
  by (auto simp: boot_procs_def)

lemma boot_procs_facts:
  "procs_ok boot_procs" "current_pid boot_procs = 1" "next_pid boot_procs = 2" "scheduling_enabled boot_procs"
  "i < 16 \<Longrightarrow> p_in_use (proc_table boot_procs ! i) \<longleftrightarrow> i < 2"
  "pstate (proc_table boot_procs ! 0) = PROC_RUNNING" "pstate (proc_table boot_procs ! 1) = PROC_RUNNING"
  "length (proc_table boot_procs) = 16"
proof -
  show ok: "procs_ok boot_procs" by (rule process_init_ok(1) [OF boot_procs_init])
  then show "length (proc_table boot_procs) = 16" by (rule procs_ok_length)
  obtain n0 n1 where b: "boot_procs = \<lparr>proc_table =
     zero_proc\<lparr>pid := 0, pname := n0, pstate := PROC_RUNNING, priority := 0, p_in_use := True\<rparr>
     # zero_proc\<lparr>pid := 1, pname := n1, pstate := PROC_RUNNING, priority := 1, p_in_use := True\<rparr>
     # replicate 14 zero_proc, current_pid = 1, next_pid = 2, scheduling_enabled = True\<rparr>"
    using process_init_eq [of "\<lparr>proc_table = [], current_pid = 0, next_pid = 1, scheduling_enabled = True\<rparr>"]
      boot_procs_init by auto
  show "current_pid boot_procs = 1" "next_pid boot_procs = 2" "scheduling_enabled boot_procs"
    "pstate (proc_table boot_procs ! 0) = PROC_RUNNING" "pstate (proc_table boot_procs ! 1) = PROC_RUNNING"
    by (simp_all add: b del: replicate.simps)
  show "p_in_use (proc_table boot_procs ! i) \<longleftrightarrow> i < 2" if "i < 16"
    using that by (cases i) (auto simp: b nth_Cons' zero_proc_def simp del: replicate.simps)
qed

lemma boot_procs_free: "2 \<le> i \<Longrightarrow> i < 16 \<Longrightarrow> proc_table boot_procs ! i = zero_proc"
proof -
  assume i: "2 \<le> i" "i < 16"
  obtain n0 n1 where b: "boot_procs = \<lparr>proc_table =
     zero_proc\<lparr>pid := 0, pname := n0, pstate := PROC_RUNNING, priority := 0, p_in_use := True\<rparr>
     # zero_proc\<lparr>pid := 1, pname := n1, pstate := PROC_RUNNING, priority := 1, p_in_use := True\<rparr>
     # replicate 14 zero_proc, current_pid = 1, next_pid = 2, scheduling_enabled = True\<rparr>"
    using process_init_eq [of "\<lparr>proc_table = [], current_pid = 0, next_pid = 1, scheduling_enabled = True\<rparr>"]
      boot_procs_init by auto
  with i show ?thesis by (auto simp: b nth_Cons' simp del: replicate.simps)
qed

lemma boot_reachable:
  "proc_reachable \<lparr>procs = boot_procs, pages = fresh_pmm, log = klog_init, mem = (\<lambda>_. 0)\<rparr>"
  using fresh_pmm_wf klog_init_inv by (intro proc_start [OF boot_procs_init]) simp_all


definition ready_at_3 :: procs where
  "ready_at_3 = (set_proc 3 (zero_proc\<lparr>pid := 2, pstate := PROC_READY, saved_esp := 4060, p_in_use := True\<rparr>) boot_procs)
     \<lparr>next_pid := 3\<rparr>"

lemma ready_at_3_facts:
  "procs_ok ready_at_3" "scheduling_enabled ready_at_3" "cur_slot ready_at_3 = 1"
  "p_in_use (proc_table ready_at_3 ! 3)" "pstate (proc_table ready_at_3 ! 3) = PROC_READY"
  "saved_esp (proc_table ready_at_3 ! 3) = 4060" "pid (proc_table ready_at_3 ! 3) = 2"
proof -
  note b = boot_procs_facts
  have len: "length (proc_table ready_at_3) = 16" using b by (simp add: ready_at_3_def)
  have "ids_ok ((idents boot_procs)[3 := (2, True)]) (2 + 1)"
    using b(1,3,5) by (intro ids_ok_new) (simp_all add: procs_ok_def idents_nth b(8) ident_def)
  moreover have "idents ready_at_3 = (idents boot_procs)[3 := (2, True)]" "next_pid ready_at_3 = 3"
    by (simp_all add: ready_at_3_def idents_def map_update ident_def)
  moreover have "running_ok ready_at_3"
    using b(1,2,8) unfolding running_ok_def procs_ok_def
    by (auto simp: ready_at_3_def nth_list_update)
  moreover have "length (pname zero_proc) = 32" by (simp add: zero_proc_def)
  ultimately show ok: "procs_ok ready_at_3"
    using b(1) by (auto simp: procs_ok_def ready_at_3_def dest!: subsetD [OF set_update_subset_insert])
  show "scheduling_enabled ready_at_3" "p_in_use (proc_table ready_at_3 ! 3)"
    "pstate (proc_table ready_at_3 ! 3) = PROC_READY" "saved_esp (proc_table ready_at_3 ! 3) = 4060"
    "pid (proc_table ready_at_3 ! 3) = 2"
    using b(4,8) by (simp_all add: ready_at_3_def)
  have "find_slot_by_pid (current_pid ready_at_3) ready_at_3 = Some 1"
    using procs_ok_slots [OF ok] b(2) by (simp add: find_slot_iff [OF ok]) (simp add: ready_at_3_def)
  then show "cur_slot ready_at_3 = 1" by (simp add: cur_slot_def)
qed

section \<open>Scheduling\<close>

definition is_ready :: "procs \<Rightarrow> nat \<Rightarrow> bool" where
  "is_ready ps i \<longleftrightarrow> p_in_use (proc_table ps ! i) \<and> pstate (proc_table ps ! i) = PROC_READY"

text \<open>How many slots after the current one slot \<open>r\<close> comes, cyclically.\<close>

definition ahead :: "procs \<Rightarrow> nat \<Rightarrow> nat" where
  "ahead ps r = (r + 15 - cur_slot ps) mod 16 + 1"

lemma ahead_slot:
  assumes "r < 16"
  shows "(cur_slot ps + ahead ps r) mod 16 = r" "1 \<le> ahead ps r" "ahead ps r \<le> 16"
proof -
  have c: "cur_slot ps < 16" by (rule cur_slot_bound)
  have "(cur_slot ps + ((r + 15 - cur_slot ps) mod 16 + 1)) mod 16
      = (cur_slot ps + 1 + (r + 15 - cur_slot ps) mod 16) mod 16"
    by (simp add: ac_simps)
  also have "\<dots> = (cur_slot ps + 1 + (r + 15 - cur_slot ps)) mod 16"
    by (rule mod_add_right_eq)
  also have "cur_slot ps + 1 + (r + 15 - cur_slot ps) = r + 16" using c by simp
  finally show "(cur_slot ps + ahead ps r) mod 16 = r" using assms by (simp add: ahead_def)
qed (simp_all add: ahead_def Suc_le_eq)

lemma ahead_unique: "1 \<le> i \<Longrightarrow> i \<le> 16 \<Longrightarrow> r = (cur_slot ps + i) mod 16 \<Longrightarrow> ahead ps r = i"
proof -
  assume i: "1 \<le> i" "i \<le> 16" and r: "r = (cur_slot ps + i) mod 16"
  have c: "cur_slot ps < 16" by (rule cur_slot_bound)
  show ?thesis
  proof (cases "cur_slot ps + i < 16")
    case True
    then have "r + 15 - cur_slot ps = i + 15" using r i by simp
    moreover have "(i + 15) mod 16 = i - 1"
    proof -
      have "i + 15 = (i - 1) + 16" using i by simp
      then show ?thesis using i by (simp only: mod_add_self2) simp
    qed
    ultimately show ?thesis using i by (simp add: ahead_def)
  next
    case False
    then have "r = cur_slot ps + i - 16" using r i c by (simp add: mod_if)
    then have "r + 15 - cur_slot ps = i - 1" using False by simp
    then show ?thesis using i by (simp add: ahead_def)
  qed
qed

lemma pick_next_eq:
  "pick_next ps = Some n \<longleftrightarrow> n < 16 \<and> is_ready ps n \<and> (\<forall>r < 16. is_ready ps r \<longrightarrow> ahead ps n \<le> ahead ps r)"
proof -
  let ?P = "\<lambda>i. let p = proc_table ps ! ((cur_slot ps + i) mod 16) in p_in_use p \<and> pstate p = PROC_READY"
  have P: "?P i \<longleftrightarrow> is_ready ps ((cur_slot ps + i) mod 16)" for i by (simp add: is_ready_def Let_def)
  show ?thesis
  proof
    assume "pick_next ps = Some n"
    then obtain i where i: "first_from ?P 1 (Suc 16) = Some i" "n = (cur_slot ps + i) mod 16"
      by (auto simp: pick_next_def)
    from first_from_SomeD [OF i(1)] have b: "1 \<le> i" "i \<le> 16" "?P i" "\<forall>j. 1 \<le> j \<and> j < i \<longrightarrow> \<not> ?P j" by simp_all
    have "ahead ps n = i" by (rule ahead_unique [OF b(1,2) i(2)])
    moreover have "i \<le> ahead ps r" if "r < 16" "is_ready ps r" for r
      using b(4) P ahead_slot [OF that(1), of ps] that(2) by (metis not_le)
    ultimately show "n < 16 \<and> is_ready ps n \<and> (\<forall>r < 16. is_ready ps r \<longrightarrow> ahead ps n \<le> ahead ps r)"
      using b(3) P i(2) by simp
  next
    assume n: "n < 16 \<and> is_ready ps n \<and> (\<forall>r < 16. is_ready ps r \<longrightarrow> ahead ps n \<le> ahead ps r)"
    note a = ahead_slot [of n ps]
    have "first_from ?P 1 (Suc 16) = Some (ahead ps n)"
      unfolding first_from_Some_iff
    proof (intro conjI allI impI)
      show "?P (ahead ps n)" unfolding P using n a(1) by simp
      fix j assume j: "1 \<le> j \<and> j < ahead ps n"
      show "\<not> ?P j"
      proof
        assume "?P j"
        then have "is_ready ps ((cur_slot ps + j) mod 16)" using P by simp
        moreover have "ahead ps ((cur_slot ps + j) mod 16) = j"
          using j a(3) n by (intro ahead_unique) simp_all
        ultimately show False using n j by (metis mod_less_divisor not_le zero_less_numeral)
      qed
    qed (use n a in simp_all)
    then show "pick_next ps = Some n" using n a(1) by (simp add: pick_next_def)
  qed
qed

text \<open>When another process is ready, the scan finds one.\<close>

lemma pick_next_exists:
  assumes "r < 16" "is_ready ps r" "r \<noteq> cur_slot ps"
  shows "\<exists>n. pick_next ps = Some n \<and> n \<noteq> cur_slot ps"
proof -
  have c: "cur_slot ps < 16" by (rule cur_slot_bound)
  have a16: "ahead ps r \<noteq> 16"
  proof
    assume "ahead ps r = 16"
    with ahead_slot(1) [OF assms(1), of ps] c assms(3) show False by simp
  qed
  have "pick_next ps \<noteq> None"
    using ahead_slot [OF assms(1), of ps] assms(2)
    by (auto simp: pick_next_def first_from_None_iff is_ready_def Let_def intro!: exI [of _ "ahead ps r"])
  then obtain n where n: "pick_next ps = Some n" by auto
  have "n \<noteq> cur_slot ps"
  proof
    assume nc: "n = cur_slot ps"
    have "ahead ps n = 16" using c unfolding nc by (intro ahead_unique) simp_all
    moreover have "ahead ps n \<le> ahead ps r" using n assms(1,2) by (simp add: pick_next_eq)
    ultimately show False using a16 ahead_slot(3) [OF assms(1), of ps] by simp
  qed
  with n show ?thesis by blast
qed

text \<open>C12: the scheduler is round-robin. When scheduling is on, \<open>schedule\<close> switches to the ready process
  whose slot comes first after the current one, cyclically; it becomes the current and running
  one, the old one becomes ready when it was running, and no other process changes. When no
  process but possibly the current one is ready, nothing changes.\<close>

theorem schedule_round_robin:
  assumes "procs_ok ps" "scheduling_enabled ps"
  shows "if \<exists>r < 16. r \<noteq> cur_slot ps \<and> is_ready ps r
    then \<exists>n < 16. n \<noteq> cur_slot ps \<and> is_ready ps n \<and> (\<forall>r < 16. is_ready ps r \<longrightarrow> ahead ps n \<le> ahead ps r)
      \<and> (\<exists>ps'. schedule e ps = (ps', Some (saved_esp (proc_table ps ! n)))
        \<and> current_pid ps' = pid (proc_table ps ! n) \<and> pstate (proc_table ps' ! n) = PROC_RUNNING
        \<and> proc_table ps' ! cur_slot ps = preempted e (proc_table ps ! cur_slot ps)
        \<and> (\<forall>i. i \<noteq> n \<longrightarrow> i \<noteq> cur_slot ps \<longrightarrow> proc_table ps' ! i = proc_table ps ! i))
    else schedule e ps = (ps, None)"
proof -
  let ?c = "cur_slot ps"
  have c: "?c < 16" by (rule cur_slot_bound)
  show ?thesis
  proof (cases "\<exists>r < 16. r \<noteq> ?c \<and> is_ready ps r")
    case True
    then obtain r where r: "r < 16" "r \<noteq> ?c" "is_ready ps r" by blast
    obtain n where n: "pick_next ps = Some n" and ne: "n \<noteq> ?c"
      using pick_next_exists [OF r(1,3,2)] by blast
    then have nn: "n < 16" "is_ready ps n" "\<forall>r < 16. is_ready ps r \<longrightarrow> ahead ps n \<le> ahead ps r"
      by (simp_all add: pick_next_eq)
    have len: "length (proc_table ps) = 16" by (rule procs_ok_length [OF assms(1)])
    from schedule_switch [OF assms n ne] nn ne c len r show ?thesis
      by (auto simp: nth_list_update intro!: exI [of _ n])
  next
    case False
    then have "pick_next ps = None \<or> pick_next ps = Some ?c"
      by (cases "pick_next ps") (auto simp: pick_next_eq)
    with False assms(2) show ?thesis by (auto simp: schedule_def)
  qed
qed

lemma ready_at_3_only: "r < 16 \<Longrightarrow> is_ready ready_at_3 r \<longleftrightarrow> r = 3"
proof
  assume r: "r < 16" "is_ready ready_at_3 r"
  show "r = 3"
  proof (rule ccontr)
    assume "r \<noteq> 3"
    with r(2) have "is_ready boot_procs r" by (simp add: is_ready_def ready_at_3_def)
    with boot_procs_facts(5) [OF r(1)] boot_procs_facts(6,7) show False
      by (cases r) (auto simp: is_ready_def less_Suc_eq)
  qed
qed (simp add: is_ready_def ready_at_3_facts)

theorem schedule_round_robin_witness:
  "\<exists>ps'. schedule 100 ready_at_3 = (ps', Some 4060) \<and> current_pid ps' = 2"
proof -
  have "\<exists>r < 16. r \<noteq> cur_slot ready_at_3 \<and> is_ready ready_at_3 r"
    by (intro exI [of _ 3]) (simp add: ready_at_3_only ready_at_3_facts)
  with schedule_round_robin [OF ready_at_3_facts(1,2), of 100]
  have "\<exists>n < 16. is_ready ready_at_3 n \<and> (\<exists>ps'. schedule 100 ready_at_3
      = (ps', Some (saved_esp (proc_table ready_at_3 ! n))) \<and> current_pid ps' = pid (proc_table ready_at_3 ! n))"
    by (metis (no_types, lifting))
  then show ?thesis by (auto simp: ready_at_3_only ready_at_3_facts)
qed

text \<open>The state after a number of time slices, with the stack pointers saved at their ends.\<close>

definition slices :: "u32 list \<Rightarrow> procs \<Rightarrow> procs" where
  "slices es ps = fold (\<lambda>e ps. fst (schedule e ps)) es ps"

lemma schedule_progress:
  assumes "procs_ok ps" "scheduling_enabled ps" "r < 16" "is_ready ps r" "r \<noteq> cur_slot ps"
  shows "let ps' = fst (schedule e ps) in procs_ok ps' \<and> scheduling_enabled ps'
    \<and> pid (proc_table ps' ! r) = pid (proc_table ps ! r) \<and> p_in_use (proc_table ps' ! r)
    \<and> (cur_slot ps' = r \<and> current_pid ps' = pid (proc_table ps ! r)
       \<or> r \<noteq> cur_slot ps' \<and> is_ready ps' r \<and> ahead ps' r < ahead ps r)"
proof -
  let ?c = "cur_slot ps" and ?ps = "fst (schedule e ps)"
  have c: "?c < 16" by (rule cur_slot_bound)
  have len: "length (proc_table ps) = 16" by (rule procs_ok_length [OF assms(1)])
  have ok: "procs_ok ?ps" by (rule schedule_ok(1) [OF assms(1)])
  obtain n where n: "pick_next ps = Some n" "n \<noteq> ?c"
    using pick_next_exists [OF assms(3-5)] by blast
  have nn: "n < 16" "is_ready ps n" "ahead ps n \<le> ahead ps r" using n(1) assms(3,4) by (simp_all add: pick_next_eq)
  note sw = schedule_switch [OF assms(1,2) n, of e]
  have cur': "cur_slot ?ps = n" "current_pid ?ps = pid (proc_table ps ! n)"
  proof -
    show "current_pid ?ps = pid (proc_table ps ! n)" by (simp add: sw)
    then have "find_slot_by_pid (current_pid ?ps) ?ps = Some n"
      using nn(1,2) len by (simp add: find_slot_iff [OF ok]) (simp add: sw is_ready_def)
    then show "cur_slot ?ps = n" by (simp add: cur_slot_def)
  qed
  have en: "scheduling_enabled ?ps" using assms(2) by (simp add: sw)
  have same: "pid (proc_table ?ps ! r) = pid (proc_table ps ! r)" "p_in_use (proc_table ?ps ! r)"
    using assms(4,5) len c nn(1) assms(3) by (auto simp: sw nth_list_update is_ready_def)
  have "is_ready ?ps r \<and> ahead ?ps r < ahead ps r" if "r \<noteq> n"
  proof
    show "is_ready ?ps r" using that assms(3-5) len by (simp add: sw is_ready_def)
    have lt: "ahead ps n < ahead ps r"
    proof -
      have "ahead ps n \<noteq> ahead ps r"
        using that ahead_slot(1) [OF assms(3), of ps] ahead_slot(1) [OF nn(1), of ps] by metis
      with nn(3) show ?thesis by simp
    qed
    have "(cur_slot ?ps + (ahead ps r - ahead ps n)) mod 16 = r"
    proof -
      have "(n + (ahead ps r - ahead ps n)) mod 16 = ((?c + ahead ps n) mod 16 + (ahead ps r - ahead ps n)) mod 16"
        using ahead_slot(1) [OF nn(1), of ps] by simp
      also have "\<dots> = (?c + ahead ps n + (ahead ps r - ahead ps n)) mod 16" by (rule mod_add_left_eq)
      also have "?c + ahead ps n + (ahead ps r - ahead ps n) = ?c + ahead ps r" using lt by simp
      finally show ?thesis using ahead_slot(1) [OF assms(3), of ps] cur'(1) by simp
    qed
    then have "ahead ?ps r = ahead ps r - ahead ps n"
      using lt ahead_slot(3) [OF assms(3), of ps] by (intro ahead_unique) simp_all
    then show "ahead ?ps r < ahead ps r" using lt ahead_slot(2) [OF nn(1), of ps] by simp
  qed
  with ok en same cur' show ?thesis by (auto simp: Let_def)
qed

end
