(* ===== verification/Timer.thy ===== *)
theory Timer
  imports ProcessProps
begin

text \<open>
  The timer \<^verbatim>\<open>src/timer.c\<close> driving the scheduler: its two counters, the interrupt handler, the
  programming of the PIT, and the loops that wait for the tick count. The handler's result is
  the stack pointer the context switch loads, when it ends a slice and there is another ready
  process.
\<close>

section \<open>Definitions\<close>

abbreviation (input) TIME_SLICE_TICKS :: u32 where "TIME_SLICE_TICKS \<equiv> 10"

record timer =
  tick_count :: u32
  slice_counter :: u32

definition timer_start :: timer where
  "timer_start = \<lparr>tick_count = 0, slice_counter = 0\<rparr>"

definition timer_get_ticks :: "timer \<Rightarrow> u32" where
  "timer_get_ticks t = tick_count t"

definition timer_callback :: "u32 \<Rightarrow> timer \<times> procs \<Rightarrow> (timer \<times> procs) \<times> u32 option" where
  "timer_callback cur_esp s = (case s of (t, ps) \<Rightarrow>
     let t1 = t\<lparr>tick_count := tick_count t + 1, slice_counter := slice_counter t + 1\<rparr>;
         ps1 = process_tick (timer_get_ticks t1) ps
     in if slice_counter t1 \<ge> TIME_SLICE_TICKS
        then let t2 = t1\<lparr>slice_counter := 0\<rparr> in
          if scheduling_enabled ps1
          then (case schedule cur_esp ps1 of (ps2, new_esp) \<Rightarrow> ((t2, ps2), new_esp))
          else ((t2, ps1), None)
        else ((t1, ps1), None))"

text \<open>The programming of the PIT, as the writes to its ports; \<open>None\<close> is the division by zero.\<close>

definition timer_init :: "u32 \<Rightarrow> screen \<Rightarrow> screen option" where
  "timer_init frequency t =
     (if frequency = 0 then None
      else let divisor = 1193180 div frequency in
        Some (outb 0x40 (ucast (drop_bit 8 divisor AND 0xFF)) (outb 0x40 (ucast (divisor AND 0xFF))
          (outb 0x43 0x36 t))))"

text \<open>The loop that waits with \<open>hlt\<close> for a number of ticks to pass since \<open>start\<close>: \<open>clock n\<close> is the
  tick count after \<open>n\<close> halts; the result is the number of halts, \<open>None\<close> when the loop never ends.\<close>

partial_function (option) halt_until :: "u32 \<Rightarrow> u32 \<Rightarrow> (nat \<Rightarrow> u32) \<Rightarrow> nat \<Rightarrow> nat option" where
  "halt_until start ticks clock n =
     (if still_waiting start ticks (clock n) then halt_until start ticks clock (Suc n) else Some n)"

section \<open>The waiting loop\<close>

lemma halt_until_finds:
  assumes "\<And>j. n \<le> j \<Longrightarrow> j < k \<Longrightarrow> still_waiting start ticks (clock j)"
    and "\<not> still_waiting start ticks (clock k)" "n \<le> k"
  shows "halt_until start ticks clock n = Some k"
  using assms(3,1)
proof (induction rule: inc_induct)
  case base
  show ?case using assms(2) by (subst halt_until.simps) simp
next
  case (step m)
  have "halt_until start ticks clock (Suc m) = Some k" using step.prems by (intro step.IH) simp
  then show ?case using step.prems [of m] step.hyps by (subst halt_until.simps) simp
qed

lemma halt_until_SomeD:
  assumes "halt_until start ticks clock n = Some k"
  shows "\<not> still_waiting start ticks (clock k)"
proof (rule halt_until.raw_induct [OF _ assms])
  fix f st ti cl m y
  assume "\<And>st ti cl m y. f st ti cl m = Some y \<Longrightarrow> \<not> still_waiting st ti (cl y)"
    and "(if still_waiting st ti (cl m) then f st ti cl (Suc m) else Some m) = Some y"
  then show "\<not> still_waiting st ti (cl y)" by (auto split: if_splits)
qed

section \<open>The handler and the run queue\<close>

text \<open>The effect of a tick on what the scheduler looks at.\<close>

lemma process_tick_nth:
  assumes "procs_ok ps" "i < 16"
  shows "proc_table (process_tick now ps) ! i = wake now (if find_slot_by_pid (current_pid ps) ps = Some i
    then (proc_table ps ! i)\<lparr>ticks_used := ticks_used (proc_table ps ! i) + 1\<rparr> else proc_table ps ! i)"
  using procs_ok_length [OF assms(1)] assms(2) find_slotD(1)
  by (auto simp: process_tick_eq [OF assms(1)] nth_list_update split: option.split)

lemma process_tick_simps [simp]:
  assumes "procs_ok ps"
  shows "current_pid (process_tick now ps) = current_pid ps"
    "next_pid (process_tick now ps) = next_pid ps"
    "scheduling_enabled (process_tick now ps) = scheduling_enabled ps"
  by (simp_all add: process_tick_eq [OF assms])

lemma process_tick_cur_slot:
  assumes "procs_ok ps"
  shows "cur_slot (process_tick now ps) = cur_slot ps"
proof -
  have "find_slot_by_pid p (process_tick now ps) = find_slot_by_pid p ps" for p
    unfolding find_slot_by_pid_def
    by (intro first_from_cong) (simp add: process_tick_nth [OF assms])
  then show ?thesis using assms by (simp add: cur_slot_def)
qed

lemma process_tick_ready:
  assumes "procs_ok ps" "r < 16" "is_ready ps r"
  shows "is_ready (process_tick now ps) r"
  using assms by (simp add: is_ready_def process_tick_nth wake_def)

lemma process_tick_ahead:
  "procs_ok ps \<Longrightarrow> ahead (process_tick now ps) r = ahead ps r"
  by (simp add: ahead_def process_tick_cur_slot)

section \<open>Every ready process gets the processor\<close>

definition timer_run :: "u32 list \<Rightarrow> timer \<times> procs \<Rightarrow> timer \<times> procs" where
  "timer_run es s = fold (\<lambda>e s. fst (timer_callback e s)) es s"

text \<open>How many interrupts are left until slot \<open>r\<close> has its turn.\<close>

definition ticks_to_turn :: "nat \<Rightarrow> timer \<times> procs \<Rightarrow> nat" where
  "ticks_to_turn r s = (case s of (t, ps) \<Rightarrow> 10 * ahead ps r - unat (slice_counter t))"

definition waits_for_turn :: "nat \<Rightarrow> timer \<times> procs \<Rightarrow> bool" where
  "waits_for_turn r s \<longleftrightarrow> (case s of (t, ps) \<Rightarrow>
     procs_ok ps \<and> scheduling_enabled ps \<and> r < 16 \<and> is_ready ps r \<and> r \<noteq> cur_slot ps \<and> slice_counter t < 10)"

lemma timer_callback_progress:
  assumes "waits_for_turn r s"
  shows "(let s' = fst (timer_callback e s) in
    cur_slot (snd s') = r \<and> current_pid (snd s') = pid (proc_table (snd s) ! r)
    \<or> waits_for_turn r s' \<and> pid (proc_table (snd s') ! r) = pid (proc_table (snd s) ! r)
      \<and> ticks_to_turn r s' < ticks_to_turn r s)"
proof -
  obtain t ps where s: "s = (t, ps)" by fastforce
  have ps: "procs_ok ps" "scheduling_enabled ps" "r < 16" "is_ready ps r" "r \<noteq> cur_slot ps"
    and sl: "slice_counter t < 10"
    using assms by (simp_all add: waits_for_turn_def s)
  let ?ps1 = "process_tick (tick_count t + 1) ps"
  have ps1: "procs_ok ?ps1" "scheduling_enabled ?ps1" "is_ready ?ps1 r" "r \<noteq> cur_slot ?ps1"
    "ahead ?ps1 r = ahead ps r" "pid (proc_table ?ps1 ! r) = pid (proc_table ps ! r)"
    using ps process_tick_ok(1) [OF ps(1)]
    by (simp_all add: process_tick_ready process_tick_cur_slot process_tick_ahead process_tick_nth)
  have slice: "unat (slice_counter t) < 10" using sl by (simp add: word_less_nat_alt)
  have suc: "unat (slice_counter t + 1) = Suc (unat (slice_counter t))"
    using slice by (simp add: unat_word_ariths)
  have ahead: "1 \<le> ahead ps r" using ahead_slot(2) [OF ps(3)] .
  show ?thesis
  proof (cases "slice_counter t + 1 \<ge> 10")
    case False
    then have "fst (timer_callback e s) = (t\<lparr>tick_count := tick_count t + 1, slice_counter := slice_counter t + 1\<rparr>, ?ps1)"
      by (simp add: s timer_callback_def Let_def timer_get_ticks_def)
    with False ps(3) ps1 suc slice ahead show ?thesis
      by (simp add: s waits_for_turn_def ticks_to_turn_def not_le)
  next
    case True
    then have cb: "fst (timer_callback e s) = (t\<lparr>tick_count := tick_count t + 1, slice_counter := 0\<rparr>, fst (schedule e ?ps1))"
      using ps1(2) by (simp add: s timer_callback_def Let_def timer_get_ticks_def split: prod.split)
    from schedule_progress [OF ps1(1,2) ps(3) ps1(3,4), of e] ps(3) ps1(5,6) slice ahead cb show ?thesis
      by (auto simp: s waits_for_turn_def ticks_to_turn_def Let_def)
  qed
qed

lemma timer_run_turn:
  assumes "waits_for_turn r s" "ticks_to_turn r s \<le> length es"
  shows "\<exists>k \<le> ticks_to_turn r s. cur_slot (snd (timer_run (take k es) s)) = r
    \<and> current_pid (snd (timer_run (take k es) s)) = pid (proc_table (snd s) ! r)"
  using assms
proof (induction es arbitrary: s)
  case Nil
  then have "10 * ahead (snd s) r - unat (slice_counter (fst s)) = 0"
    by (cases s) (simp add: ticks_to_turn_def)
  moreover have "unat (slice_counter (fst s)) < 10" "1 \<le> ahead (snd s) r"
    using Nil(1) ahead_slot(2) by (cases s; simp add: waits_for_turn_def word_less_nat_alt)+
  ultimately show ?case by simp
next
  case (Cons e es)
  let ?s = "fst (timer_callback e s)"
  have run: "timer_run (take (Suc k) (e # es)) s = timer_run (take k es) ?s" for k
    by (simp add: timer_run_def)
  have pos: "0 < ticks_to_turn r s"
    using Cons.prems(1) ahead_slot(2) [of r "snd s"]
    by (cases s) (simp add: waits_for_turn_def ticks_to_turn_def word_less_nat_alt)
  from timer_callback_progress [OF Cons.prems(1), of e]
  consider "cur_slot (snd ?s) = r" "current_pid (snd ?s) = pid (proc_table (snd s) ! r)"
    | "waits_for_turn r ?s" "pid (proc_table (snd ?s) ! r) = pid (proc_table (snd s) ! r)"
      "ticks_to_turn r ?s < ticks_to_turn r s"
    by (auto simp: Let_def)
  then show ?case
  proof cases
    case 1
    then show ?thesis using pos run [of 0] by (intro exI [of _ 1]) (simp add: timer_run_def)
  next
    case 2
    with Cons.prems(2) have "ticks_to_turn r ?s \<le> length es" by simp
    from Cons.IH [OF 2(1) this] obtain k where "k \<le> ticks_to_turn r ?s"
      "cur_slot (snd (timer_run (take k es) ?s)) = r"
      "current_pid (snd (timer_run (take k es) ?s)) = pid (proc_table (snd ?s) ! r)" by blast
    with 2 run [of k] show ?thesis by (intro exI [of _ "Suc k"]) simp
  qed
qed

end
