(* ===== verification/Sched.thy ===== *)
theory Sched
  imports Timer
begin

text \<open>
  Properties of the scheduler with the timer: every ready process runs, sleeping processes wake
  in time, and where the process calls go wrong (a process visible to the scheduler before its
  stack is, the idle process's saved stack pointer, the stack of a task that returned).
\<close>

section \<open>Progress\<close>

text \<open>C10: no process starves. With scheduling on, whatever else is ready, a ready process becomes
  the current one within 150 timer interrupts (15 slices), also when the interrupts wake other
  processes.\<close>

theorem ready_process_runs:
  assumes "procs_ok ps" "scheduling_enabled ps" "r < 16" "is_ready ps r" "r \<noteq> cur_slot ps"
    and "slice_counter t < 10" "length es = 150"
  shows "\<exists>k \<le> 150. cur_slot (snd (timer_run (take k es) (t, ps))) = r
    \<and> current_pid (snd (timer_run (take k es) (t, ps))) = pid (proc_table ps ! r)"
proof -
  have w: "waits_for_turn r (t, ps)" using assms by (simp add: waits_for_turn_def)
  have "ahead ps r \<noteq> 16"
  proof
    assume "ahead ps r = 16"
    with ahead_slot(1) [OF assms(3), of ps] cur_slot_bound [of ps] assms(5) show False by simp
  qed
  then have "ahead ps r \<le> 15" using ahead_slot(3) [OF assms(3), of ps] by simp
  then have b: "ticks_to_turn r (t, ps) \<le> 150" by (simp add: ticks_to_turn_def)
  with timer_run_turn [OF w, of es] assms(7) show ?thesis by (auto intro: order_trans)
qed

theorem ready_process_runs_witness:
  "\<exists>k \<le> 150. current_pid (snd (timer_run (take k (replicate 150 0)) (timer_start, ready_at_3))) = 2"
  using ready_process_runs [OF ready_at_3_facts(1,2), of 3 timer_start "replicate 150 0"]
  by (auto simp: ready_at_3_only ready_at_3_facts timer_start_def simp del: replicate.simps)

section \<open>Sleeping\<close>

lemma sleep_slot:
  fixes now n e :: u32
  assumes "procs_ok ps" "find_slot_by_pid (current_pid ps) ps = Some c" "1 < current_pid ps"
  defines "ps' \<equiv> fst (process_sleep now n e ps)"
  shows "procs_ok ps'" "c < 16" "p_in_use (proc_table ps' ! c)" "pid (proc_table ps' ! c) = current_pid ps"
    "pstate (proc_table ps' ! c) = PROC_BLOCKED" "wake_tick (proc_table ps' ! c) = now + n"
proof -
  let ?p = "(proc_table ps ! c)\<lparr>pstate := PROC_BLOCKED, wake_tick := now + n\<rparr>"
  let ?ps = "set_proc c ?p ps"
  have cs: "cur_slot ps = c" using assms(2) by (simp add: cur_slot_def)
  have c: "c < 16" "p_in_use (proc_table ps ! c)" "pid (proc_table ps ! c) = current_pid ps"
    using find_slotD [OF assms(2)] by simp_all
  have len: "length (proc_table ps) = 16" by (rule procs_ok_length [OF assms(1)])
  have ps': "ps' = fst (schedule e ?ps)"
    using assms(2,3) cs by (simp add: ps'_def process_sleep_def sleep_busy_def not_le [symmetric] Let_def)
  have ok: "procs_ok ?ps"
    using procs_ok_name [OF assms(1) c(1)] by (intro procs_ok_update [OF assms(1) c(1)]) (simp_all add: ident_def)
  have "find_slot_by_pid (current_pid ?ps) ?ps = Some c"
    using c len by (simp add: find_slot_iff [OF ok])
  then have cs': "cur_slot ?ps = c" by (simp add: cur_slot_def)
  show "procs_ok ps'" unfolding ps' by (rule schedule_ok(1) [OF ok])
  show "c < 16" by (rule c(1))
  have "proc_table ps' ! c = ?p \<or> proc_table ps' ! c = preempted e ?p"
  proof (cases "scheduling_enabled ?ps \<and> (\<exists>m. pick_next ?ps = Some m \<and> m \<noteq> c)")
    case False
    then have "ps' = ?ps" using cs' by (auto simp: ps' schedule_def split: option.split)
    then show ?thesis using c(1) len by simp
  next
    case True
    then obtain m where m: "scheduling_enabled ?ps" "pick_next ?ps = Some m" "m \<noteq> c" by blast
    from schedule_switch [OF ok m(1,2)] m(3) cs' c(1) len show ?thesis by (simp add: ps')
  qed
  then show "p_in_use (proc_table ps' ! c)" "pid (proc_table ps' ! c) = current_pid ps"
    "pstate (proc_table ps' ! c) = PROC_BLOCKED" "wake_tick (proc_table ps' ! c) = now + n"
    using c by (auto simp: preempted_def)
qed


definition running_at_3 :: procs where
  "running_at_3 = fst (schedule 0 ready_at_3)"

lemma running_at_3_facts:
  "procs_ok running_at_3" "find_slot_by_pid (current_pid running_at_3) running_at_3 = Some 3"
  "current_pid running_at_3 = 2" "scheduling_enabled running_at_3"
  "pstate (proc_table running_at_3 ! 3) = PROC_RUNNING" "p_in_use (proc_table running_at_3 ! 3)"
proof -
  have p: "pick_next ready_at_3 = Some 3" by (auto simp: pick_next_eq ready_at_3_only)
  note sw = schedule_switch [OF ready_at_3_facts(1,2) p, of 0]
  have len: "length (proc_table ready_at_3) = 16" by (rule procs_ok_length [OF ready_at_3_facts(1)])
  show ok: "procs_ok running_at_3" unfolding running_at_3_def by (rule schedule_ok(1) [OF ready_at_3_facts(1)])
  show cur: "current_pid running_at_3 = 2" "scheduling_enabled running_at_3"
    and st: "pstate (proc_table running_at_3 ! 3) = PROC_RUNNING" "p_in_use (proc_table running_at_3 ! 3)"
    using sw len by (simp_all add: running_at_3_def ready_at_3_facts)
  show "find_slot_by_pid (current_pid running_at_3) running_at_3 = Some 3"
    using sw len by (simp add: find_slot_iff [OF ok] cur st) (simp add: running_at_3_def ready_at_3_facts)
qed


lemma still_waiting_after: "still_waiting start n (start + of_nat j) \<longleftrightarrow> of_nat j < n"
  by (simp add: still_waiting_def)

text \<open>The busy wait of \<open>process_sleep\<close> and \<open>sys_sleep\<close> is exact across the wrap-around of the tick
  counter: with one tick per halt it ends after exactly \<open>n\<close> halts. When the clock stands still
  (interrupts are off, as in an interrupt handler) it never ends, unless \<open>n\<close> is 0.\<close>

theorem halt_until_exact:
  "halt_until start n (\<lambda>j. start + of_nat j) 0 = Some (unat n)
    \<and> halt_until start n (\<lambda>_. start) 0 = (if n = 0 then Some 0 else None)"
proof
  show "halt_until start n (\<lambda>j. start + of_nat j) 0 = Some (unat n)"
  proof (rule halt_until_finds)
    fix j assume "j < unat n"
    then have "j < 4294967296" using unat_u32_bound [of n] by (rule less_trans)
    then have "unat (of_nat j :: u32) = j" by (simp add: unat_of_nat)
    with \<open>j < unat n\<close> show "still_waiting start n (start + of_nat j)"
      by (simp add: still_waiting_after word_less_nat_alt)
  qed (simp_all add: still_waiting_def)
  show "halt_until start n (\<lambda>_. start) 0 = (if n = 0 then Some 0 else None)"
  proof (cases "n = 0")
    case False
    then have "still_waiting start n start" by (simp add: still_waiting_def word_neq_0_conv)
    with halt_until_SomeD [of start n "\<lambda>_. start" 0] False show ?thesis
      by (cases "halt_until start n (\<lambda>_. start) 0") auto
  qed (simp add: halt_until.simps still_waiting_def)
qed

section \<open>Where the calls go wrong\<close>

lemma exit_cur_slot:
  assumes "procs_ok ps" "find_slot_by_pid (current_pid ps) ps = Some c" "1 < current_pid ps"
  shows "procs_ok (wrapper_exit (Some c) ps)" "cur_slot (wrapper_exit (Some c) ps) = 0" "1 < c" "c < 16"
proof -
  have c: "c < 16" "p_in_use (proc_table ps ! c)" "pid (proc_table ps ! c) = current_pid ps"
    using find_slotD [OF assms(2)] by simp_all
  have "c \<noteq> 0" "c \<noteq> 1"
    using procs_ok_slots [OF assms(1)] c(3) assms(3) by (metis word_not_simps(1), metis less_irrefl)
  then show c1: "1 < c" "c < 16" using c(1) by simp_all
  show ok: "procs_ok (wrapper_exit (Some c) ps)" by (rule wrapper_exit_ok(1) [OF assms(1) c1])
  have "find_slot_by_pid (current_pid ps) (wrapper_exit (Some c) ps) = None"
  proof (rule ccontr)
    assume "find_slot_by_pid (current_pid ps) (wrapper_exit (Some c) ps) \<noteq> None"
    then obtain j where j: "find_slot_by_pid (current_pid ps) (wrapper_exit (Some c) ps) = Some j" by blast
    from find_slotD [OF j] procs_ok_length [OF assms(1)] c
    have "j \<noteq> c" "j < 16" "p_in_use (proc_table ps ! j)" "pid (proc_table ps ! j) = current_pid ps"
      by (auto simp: wrapper_exit_def nth_list_update split: if_splits)
    with procs_ok_unique [OF assms(1)] c show False by metis
  qed
  then show "cur_slot (wrapper_exit (Some c) ps) = 0" by (simp add: cur_slot_def wrapper_exit_def)
qed

text \<open>C33: when a task has returned, its process id is no longer in the table, so the switch away from
  it takes slot 0 for the current one: the stack pointer of the dead task replaces the one of
  the idle process, which becomes ready. The next time the idle process is chosen, it continues
  on the dead task's stack.\<close>

theorem task_exit_overwrites_idle:
  assumes "procs_ok ps" "find_slot_by_pid (current_pid ps) ps = Some c" "1 < current_pid ps"
    and "scheduling_enabled ps" "r < 16" "is_ready ps r" "r \<noteq> 0" "r \<noteq> c" "pstate (proc_table ps ! 0) = PROC_RUNNING"
  shows "let ps' = fst (process_yield e (wrapper_exit (Some c) ps)) in
    saved_esp (proc_table ps' ! 0) = e \<and> is_ready ps' 0"
proof -
  note x = exit_cur_slot [OF assms(1-3)]
  let ?ps = "wrapper_exit (Some c) ps"
  have len: "length (proc_table ps) = 16" by (rule procs_ok_length [OF assms(1)])
  have rd: "is_ready ?ps r" using assms(5-8) len by (simp add: is_ready_def wrapper_exit_def)
  have en: "scheduling_enabled ?ps" using assms(4) by (simp add: wrapper_exit_def)
  have s0: "p_in_use (proc_table ?ps ! 0)" "pstate (proc_table ?ps ! 0) = PROC_RUNNING"
    using procs_ok_slots [OF assms(1)] x(3) assms(9) by (simp_all add: wrapper_exit_def)
  from pick_next_exists [OF assms(5) rd] assms(7) x(2)
  obtain n where n: "pick_next ?ps = Some n" "n \<noteq> 0" by auto
  from schedule_switch [OF x(1) en n(1)] n x(2) len s0 pick_nextD(1) [OF n(1)] show ?thesis
    by (simp add: process_yield_def Let_def preempted_def is_ready_def wrapper_exit_def)
qed

lemma running_at_3_others:
  "is_ready running_at_3 1" "pstate (proc_table running_at_3 ! 0) = PROC_RUNNING"
proof -
  have p: "pick_next ready_at_3 = Some 3" by (auto simp: pick_next_eq ready_at_3_only)
  note sw = schedule_switch [OF ready_at_3_facts(1,2) p, of 0]
  have len: "length (proc_table ready_at_3) = 16" by (rule procs_ok_length [OF ready_at_3_facts(1)])
  have "proc_table ready_at_3 ! 1 = proc_table boot_procs ! 1" "proc_table ready_at_3 ! 0 = proc_table boot_procs ! 0"
    by (simp_all add: ready_at_3_def)
  with sw len boot_procs_facts(5) [of 1] boot_procs_facts(6,7)
  show "is_ready running_at_3 1" "pstate (proc_table running_at_3 ! 0) = PROC_RUNNING"
    by (simp_all add: running_at_3_def ready_at_3_facts preempted_def is_ready_def)
qed

theorem task_exit_overwrites_idle_witness:
  "saved_esp (proc_table (fst (process_yield 777 (wrapper_exit (Some 3) running_at_3))) ! 0) = 777"
  using task_exit_overwrites_idle [OF running_at_3_facts(1,2) _ running_at_3_facts(4) _ running_at_3_others(1)
      _ _ running_at_3_others(2), of 777]
  by (simp add: running_at_3_facts Let_def)

text \<open>The stack of a task that returns is lost: when its slot is used again, the page is still
  counted as used by the allocator, but no process has it and no call can release it.\<close>

theorem task_exit_leaks_stack:
  assumes "kern_inv k" "1 < c" "c < 16" "kstack (proc_table (procs k) ! c) \<noteq> 0"
    and "find_free_slot (wrapper_exit (Some c) (procs k)) = Some c"
    and "process_create_kernel now wrapper nm fn (k\<lparr>procs := wrapper_exit (Some c) (procs k)\<rparr>) = Some (k', r)"
    and "0 \<le> r" "next_pid (procs k) \<noteq> - 1"
  shows "kstack (proc_table (procs k) ! c) \<in> pmm_owned (pages k')
    \<and> (\<forall>i < 16. kstack (proc_table (procs k') ! i) \<noteq> kstack (proc_table (procs k) ! c))"
proof -
  let ?s = "kstack (proc_table (procs k) ! c)" and ?k = "k\<lparr>procs := wrapper_exit (Some c) (procs k)\<rparr>"
  let ?q = "proc_table (procs k)"
  have pok: "procs_ok (procs k)" using assms(1) by (simp add: kern_inv_def)
  have len: "length ?q = 16" by (rule procs_ok_length [OF pok])
  have cells: "pmm_source.cells_ok (pages k) (map kstack ?q)"
    using assms(1) by (simp add: kern_inv_def stacks_ok_cells)
  have "procs_ok (procs ?k)" using wrapper_exit_ok(1) [OF pok assms(2,3)] by simp
  from this assms(6) obtain pg st p where al: "pmm_alloc_page (pages k) = (pg, st)" "st \<noteq> 0" and p: "kstack p = st"
    and k': "proc_table (procs k') = ?q[c := p]" "pages k' = pg"
  proof (cases rule: process_create_kernel_cases)
    case (created i pg st l sp m n)
    with assms(5) have "i = c" by simp
    with created show thesis by (intro that [of pg st]) (simp_all add: wrapper_exit_def)
  qed (use assms(7) in simp_all)
  have owned: "?s \<in> pmm_owned (pages k)" "pmm_inv (pages k)"
    using cells assms(3,4) len by (auto simp: pmm_source.cells_ok_def)
  have al': "st \<notin> pmm_owned (pages k)" "pmm_owned pg = insert st (pmm_owned (pages k))"
    using pmm_source.alloc_new [OF owned(2) al] by simp_all
  have "kstack (?q[c := p] ! i) \<noteq> ?s" if i: "i < 16" for i
  proof (cases "i = c")
    case True
    with p al'(1) owned(1) len assms(3) show ?thesis by auto
  next
    case False
    with cells len assms(3,4) i have "kstack (?q ! i) \<noteq> ?s"
      unfolding pmm_source.cells_ok_def by (metis length_map nth_map)
    with False show ?thesis by simp
  qed
  with k' al'(2) owned(1) show ?thesis by simp
qed

end
