(* ===== verification/Switch.thy ===== *)
theory Switch
  imports Sched
begin

text \<open>
  The context switch \<^verbatim>\<open>src/context_switch.s\<close> on the memory of the stacks: what it saves, what it
  loads, and the stack that \<^verbatim>\<open>process_create_kernel\<close> prepares for a task's first switch. The
  stack pointers are aligned, so the memory is taken as 32-bit words by their addresses.
\<close>

section \<open>Frames\<close>

text \<open>The nine words a suspended task leaves on its stack, lowest address first: the eight saved
  registers and the return address.\<close>

definition frame_addrs :: "u32 \<Rightarrow> u32 set" where
  "frame_addrs sp = (\<lambda>i. sp + 4 * i) ` set [0, 1, 2, 3, 4, 5, 6, 7, 8]"

definition resumed :: "u32 \<Rightarrow> (u32 \<Rightarrow> u32) \<Rightarrow> cpu" where
  "resumed sp m = \<lparr>eax = m (sp + 28), ebx = m (sp + 16), ecx = m (sp + 24), edx = m (sp + 20),
     esi = m (sp + 4), edi = m sp, ebp = m (sp + 8), esp = sp + 36, eip = m (sp + 32)\<rparr>"

definition stored :: "cpu \<Rightarrow> (u32 \<Rightarrow> u32) \<Rightarrow> u32 \<Rightarrow> u32" where
  "stored c m = m(esp c - 4 := eax c, esp c - 8 := ecx c, esp c - 12 := edx c, esp c - 16 := ebx c,
     esp c - 20 := esp c, esp c - 24 := ebp c, esp c - 28 := esi c, esp c - 32 := edi c)"

text \<open>What a switch writes: the pushed registers and the old task's saved stack pointer.\<close>

definition switch_writes :: "machine \<Rightarrow> u32 set" where
  "switch_writes cm = (case cm of (c, m) \<Rightarrow>
     insert (m (esp c + 4)) ((\<lambda>i. esp c - 4 * i) ` set [1, 2, 3, 4, 5, 6, 7, 8]))"

lemma push_eq: "push v (c, m) = (c\<lparr>esp := esp c - 4\<rparr>, m(esp c - 4 := v))"
  by (simp add: push_def)

lemma pushad_eq: "pushad (c, m) = (c\<lparr>esp := esp c - 32\<rparr>, stored c m)"
  by (simp add: pushad_def push_eq stored_def)

lemma resume_eq: "ret (popad (c\<lparr>esp := sp\<rparr>, m)) = (resumed sp m, m)"
  by (cases c) (simp add: ret_def popad_def resumed_def)

lemma stored_args: "stored c m (esp c + 4) = m (esp c + 4)" "stored c m (esp c + 8) = m (esp c + 8)"
  "stored c m (esp c) = m (esp c)"
  by (simp_all add: stored_def diff_conv_add_uminus del: add_uminus_conv_diff)

lemma context_switch_eq:
  assumes "m (esp c + 4) \<noteq> esp c + 8"
  shows "context_switch (c, m) =
    (let m1 = (stored c m)(m (esp c + 4) := esp c - 32) in (resumed (m (esp c + 8)) m1, m1))"
proof -
  have a: "esp c - 32 + 36 = esp c + 4" "esp c - 32 + 40 = esp c + 8" by simp_all
  have r: "ret (popad (c\<lparr>eax := v, esp := sp\<rparr>, m')) = (resumed sp m', m')" for v sp m'
    using resume_eq [where c = "c\<lparr>eax := v\<rparr>" and sp = sp and m = m'] by simp
  show ?thesis
    using assms by (simp add: context_switch_def pushad_eq Let_def a stored_args r)
qed

lemma resumed_cong: "\<forall>a \<in> frame_addrs sp. m a = m' a \<Longrightarrow> resumed sp m = resumed sp m'"
  by (simp add: frame_addrs_def resumed_def)

lemma resumed_stored: "resumed (esp c - 32) (stored c m) = c\<lparr>esp := esp c + 4, eip := m (esp c)\<rparr>"
  by (cases c) (simp add: resumed_def stored_def diff_conv_add_uminus del: add_uminus_conv_diff)

text \<open>A switch to a stack whose frame its own writes do not touch loads that frame.\<close>

lemma context_switch_loads:
  assumes "m (esp c + 4) \<noteq> esp c + 8" "switch_writes (c, m) \<inter> frame_addrs (m (esp c + 8)) = {}"
  shows "fst (context_switch (c, m)) = resumed (m (esp c + 8)) m"
proof -
  let ?m = "(stored c m)(m (esp c + 4) := esp c - 32)"
  have "?m a = m a" if "a \<notin> switch_writes (c, m)" for a
    using that by (simp add: switch_writes_def stored_def)
  with assms(2) have "\<forall>a \<in> frame_addrs (m (esp c + 8)). ?m a = m a" by blast
  then show ?thesis using assms(1) by (simp add: context_switch_eq Let_def resumed_cong)
qed

text \<open>C13: a suspended task continues where it was. The switch away from it stores a stack pointer;
  whatever runs in between, as long as the nine words above that pointer are not changed, a switch
  to this pointer from any other stack restores all eight registers and returns from the call of
  \<open>context_switch\<close>.\<close>

theorem context_switch_roundtrip:
  assumes "context_switch (c, m) = (c1, m1)" "m (esp c + 4) \<noteq> esp c + 8"
    and "m (esp c + 4) \<notin> frame_addrs (esp c - 32)"
    and "\<forall>a \<in> frame_addrs (esp c - 32). m2 a = m1 a"
    and "m2 (esp c2 + 8) = m1 (m (esp c + 4))" "m2 (esp c2 + 4) \<noteq> esp c2 + 8"
    and "switch_writes (c2, m2) \<inter> frame_addrs (esp c - 32) = {}"
  shows "fst (context_switch (c2, m2)) = c\<lparr>esp := esp c + 4, eip := m (esp c)\<rparr>"
proof -
  have m1: "m1 = (stored c m)(m (esp c + 4) := esp c - 32)"
    using assms(1,2) by (simp add: context_switch_eq Let_def)
  then have to: "m2 (esp c2 + 8) = esp c - 32" using assms(5) by simp
  have "fst (context_switch (c2, m2)) = resumed (esp c - 32) m2"
    using context_switch_loads [of m2 c2] assms(6,7) to by simp
  also have "\<dots> = resumed (esp c - 32) (stored c m)"
    using assms(3,4) m1 by (intro resumed_cong) auto
  finally show ?thesis by (simp add: resumed_stored)
qed

text \<open>Two tasks on the pages at 0x1000 and 0x2000 whose saved stack pointers lie at 0x100 and 0x104.\<close>

definition task_a :: cpu where
  "task_a = \<lparr>eax = 1, ebx = 2, ecx = 3, edx = 4, esi = 5, edi = 6, ebp = 7, esp = 0x1F00, eip = 8\<rparr>"

definition task_b :: cpu where
  "task_b = \<lparr>eax = 0, ebx = 0, ecx = 0, edx = 0, esi = 0, edi = 0, ebp = 0, esp = 0x2F00, eip = 0\<rparr>"

definition stacks :: "u32 \<Rightarrow> u32" where
  "stacks = (\<lambda>_. 0)(0x1F00 := 0x4000, 0x1F04 := 0x100, 0x1F08 := 0x2E00, 0x2F04 := 0x104, 0x2F08 := 0x1EE0)"

theorem context_switch_roundtrip_witness:
  "fst (context_switch (task_b, snd (context_switch (task_a, stacks))))
    = task_a\<lparr>esp := 0x1F04, eip := 0x4000\<rparr>"
proof -
  let ?m1 = "(stored task_a stacks)(0x100 := 0x1EE0)"
  have st: "stacks 0x1F04 = 0x100" "stacks 0x1F08 = 0x2E00" "stacks 0x1F00 = 0x4000" by (simp_all add: stacks_def)
  have sw: "context_switch (task_a, stacks) = (resumed 0x2E00 ?m1, ?m1)"
    using context_switch_eq [of stacks task_a] st by (simp add: task_a_def Let_def)
  have m1: "?m1 0x2F08 = 0x1EE0" "?m1 0x2F04 = 0x104" "?m1 0x100 = 0x1EE0"
    by (simp_all add: stored_def task_a_def stacks_def)
  have e: "esp task_a = 0x1F00" "esp task_b = 0x2F00" by (simp_all add: task_a_def task_b_def)
  have "fst (context_switch (task_b, ?m1)) = task_a\<lparr>esp := esp task_a + 4, eip := stacks (esp task_a)\<rparr>"
  proof (rule context_switch_roundtrip [OF sw])
    show "switch_writes (task_b, ?m1) \<inter> frame_addrs (esp task_a - 32) = {}"
      using m1 by (simp add: e switch_writes_def frame_addrs_def del: fun_upd_apply)
    show "stacks (esp task_a + 4) \<notin> frame_addrs (esp task_a - 32)"
      by (simp add: e st frame_addrs_def)
  qed (use m1 st in \<open>simp_all add: e del: fun_upd_apply\<close>)
  then show ?thesis by (simp add: sw e st)
qed

section \<open>A task's first switch\<close>

lemma initial_stack_eq:
  assumes "initial_stack wrapper st m = (sp, m')"
  shows "sp = st + 4060" "resumed sp m' = \<lparr>eax = 0, ebx = 0, ecx = 0, edx = 0, esi = 0, edi = 0, ebp = 0,
    esp = st + 4096, eip = wrapper\<rparr>"
proof -
  show sp: "sp = st + 4060"
    using assms by (auto simp: initial_stack_def Let_def numeral_eq_Suc)
  have "m' = m(st + 4092 := wrapper, st + 4088 := 0, st + 4084 := 0, st + 4080 := 0, st + 4076 := 0,
      st + 4072 := 0, st + 4068 := 0, st + 4064 := 0, st + 4060 := 0)"
    using assms by (auto simp add: initial_stack_def Let_def numeral_eq_Suc)
  then show "resumed sp m' = \<lparr>eax = 0, ebx = 0, ecx = 0, edx = 0, esi = 0, edi = 0, ebp = 0,
    esp = st + 4096, eip = wrapper\<rparr>"
    by (simp add: sp resumed_def)
qed

lemma find_free_boot: "find_free_slot boot_procs = Some 2"
  using boot_procs_facts(5) by (auto simp: find_free_slot_def first_from_Some_iff)

text \<open>The creation succeeds whenever there are a slot and a page.\<close>

lemma process_create_kernel_succeeds:
  assumes "kern_inv k" "klog_total (log k) < 2147483647" "find_free_slot (procs k) = Some i"
    and "snd (pmm_alloc_page (pages k)) \<noteq> 0"
  shows "\<exists>k'. process_create_kernel now wrapper nm fn k = Some (k', sint (next_pid (procs k)))"
proof -
  have inv: "procs_ok (procs k)" "klog_inv (log k)" using assms(1) by (simp_all add: kern_inv_def)
  obtain pg st where al: "pmm_alloc_page (pages k) = (pg, st)" by fastforce
  obtain l where l: "klog now KLOG_INFO (bytes ''process spawned'') (log k) = Some l"
    using klog_step_inv [OF inv(2) assms(2)] by blast
  note i = find_free_slotD [OF assms(3)]
  obtain n where n: "strncpy (pname (proc_table (procs k) ! i)) nm 31 = Some n" "length n = 32"
    using store_pname [OF procs_ok_name [OF inv(1) i(1)]] by blast
  show ?thesis
    using assms(3,4) al l n
    by (auto simp: process_create_kernel_def Let_def simp del: bytes_simps(1,2) split: prod.splits)
qed

text \<open>\<open>process_create_kernel\<close> on every branch: -1 and no change without a free slot or a free
  page, else the next process id for a ready process in the first free slot, with the name cut
  to 31 characters, a new page as its stack, on which a frame lies that enters the wrapper with
  the whole page as stack, and every other slot as before.\<close>

theorem process_create_kernel_correct:
  assumes "kern_inv k" "klog_total (log k) < 2147483647"
  shows "(let created = process_create_kernel now wrapper nm fn k; st = snd (pmm_alloc_page (pages k)) in
    case find_free_slot (procs k) of None \<Rightarrow> created = Some (k, - 1)
    | Some i \<Rightarrow> if st = 0 then created = Some (k, - 1)
        else (\<exists>k' p. created = Some (k', sint (next_pid (procs k)))
          \<and> procs k' = (procs k)\<lparr>proc_table := (proc_table (procs k))[i := p], next_pid := next_pid (procs k) + 1\<rparr>
          \<and> i < 16 \<and> p_in_use p \<and> pstate p = PROC_READY \<and> pid p = next_pid (procs k)
          \<and> cstr (pname p) = take 31 (cstr nm) \<and> kstack p = st \<and> entry p = fn
          \<and> resumed (saved_esp p) (mem k') = \<lparr>eax = 0, ebx = 0, ecx = 0, edx = 0, esi = 0, edi = 0, ebp = 0,
              esp = st + 4096, eip = wrapper\<rparr>))"
proof -
  have inv: "procs_ok (procs k)" "pmm_source.cells_ok (pages k) (map kstack (proc_table (procs k)))"
    using assms(1) by (simp_all add: kern_inv_def stacks_ok_cells)
  show ?thesis
  proof (cases "find_free_slot (procs k)")
    case None
    then show ?thesis by (simp add: process_create_kernel_def)
  next
    case (Some i)
    show ?thesis
    proof (cases "snd (pmm_alloc_page (pages k)) = 0")
      case True
      then obtain pg where pg: "pmm_alloc_page (pages k) = (pg, 0)" by (metis prod.collapse)
      with pmm_source.cells_alloc_none [OF inv(2)] have "pg = pages k" by blast
      with Some pg show ?thesis by (simp add: process_create_kernel_def)
    next
      case False
      obtain k' where cr: "process_create_kernel now wrapper nm fn k = Some (k', sint (next_pid (procs k)))"
        using process_create_kernel_succeeds [OF assms Some False] by blast
      from inv(1) cr show ?thesis
      proof (cases rule: process_create_kernel_cases)
        case (created j pg st l sp m n)
        have "cstr (n[31 := 0]) = take 31 (cstr nm)"
          using created(7,8) procs_ok_name [OF inv(1) created(2)] by (simp add: stored_name)
        with created Some False cr initial_stack_eq [OF created(6)] show ?thesis
          by (auto simp: set_proc_def Let_def intro!: exI [of _ k'])
      qed (use Some False in simp_all)
    qed
  qed
qed

definition boot_kern :: kern where
  "boot_kern = \<lparr>procs = boot_procs, pages = fresh_pmm, log = klog_init, mem = (\<lambda>_. 0)\<rparr>"

lemma boot_kern_facts:
  "kern_inv boot_kern" "klog_total (log boot_kern) < 2147483647" "find_free_slot (procs boot_kern) = Some 2"
  "snd (pmm_alloc_page (pages boot_kern)) = 4096" "next_pid (procs boot_kern) = 2"
proof -
  show "kern_inv boot_kern" unfolding boot_kern_def by (rule proc_reachable_kern_inv [OF boot_reachable])
  show "snd (pmm_alloc_page (pages boot_kern)) = 4096"
    using fresh_pmm_alloc by (simp add: boot_kern_def word_unat_eq_iff)
qed (simp_all add: boot_kern_def klog_init_inv find_free_boot boot_procs_facts)

theorem process_create_kernel_correct_witness:
  "\<exists>k' p. process_create_kernel 0 0x101000 (bytes ''counter'') 0x102000 boot_kern = Some (k', 2)
    \<and> kstack p = 4096 \<and> proc_table (procs k') = (proc_table boot_procs)[2 := p] \<and> cstr (pname p) = bytes ''counter''
    \<and> eip (resumed (saved_esp p) (mem k')) = 0x101000"
proof -
  have p: "procs boot_kern = boot_procs" by (simp add: boot_kern_def)
  have n: "take 31 (cstr (bytes ''counter'')) = bytes ''counter''"
    by (subst cstr_id) (simp_all add: zero_in_bytes del: bytes_simps(1,2))
  from process_create_kernel_correct [OF boot_kern_facts(1,2), of 0 "0x101000" "bytes ''counter''" "0x102000"]
  obtain k' q where "process_create_kernel 0 0x101000 (bytes ''counter'') 0x102000 boot_kern = Some (k', 2)"
    "proc_table (procs k') = (proc_table boot_procs)[2 := q]" "kstack q = 4096" "cstr (pname q) = bytes ''counter''"
    "resumed (saved_esp q) (mem k') = \<lparr>eax = 0, ebx = 0, ecx = 0, edx = 0, esi = 0, edi = 0, ebp = 0,
      esp = 4096 + 4096, eip = 0x101000\<rparr>"
    by (auto simp: boot_kern_facts(4) find_free_boot Let_def p boot_procs_facts n simp del: bytes_simps(1,2))
  then show ?thesis by (intro exI [of _ k'] exI [of _ q]) (simp del: bytes_simps(1,2))
qed

text \<open>C14: a new task starts in the wrapper. When the scheduler switches to a task that was just
  created, and its stack page has not been written to, the context switch enters the wrapper with
  all registers zero and the whole page as its stack, and the wrapper finds the task's function
  in the current process.\<close>

theorem new_task_first_switch:
  assumes "kern_inv k" "process_create_kernel now wrapper nm fn k = Some (k', r)" "0 \<le> r"
    and "next_pid (procs k) \<noteq> - 1" "find_free_slot (procs k) = Some i"
    and "schedule e (procs k') = (ps', Some sp)" "current_pid ps' = next_pid (procs k)"
    and "\<forall>a \<in> frame_addrs sp. m a = mem k' a" "m (esp c + 8) = sp" "m (esp c + 4) \<noteq> esp c + 8"
    and "switch_writes (c, m) \<inter> frame_addrs sp = {}"
  shows "fst (context_switch (c, m)) = \<lparr>eax = 0, ebx = 0, ecx = 0, edx = 0, esi = 0, edi = 0, ebp = 0,
      esp = kstack (proc_table (procs k') ! i) + 4096, eip = wrapper\<rparr>
    \<and> process_get_current ps' = Some i \<and> entry (proc_table ps' ! i) = fn"
proof -
  have pok: "procs_ok (procs k)" using assms(1) by (simp add: kern_inv_def)
  have len: "length (proc_table (procs k)) = 16" by (rule procs_ok_length [OF pok])
  have pok': "procs_ok (procs k')"
    using process_create_kernel_inv [OF assms(1,2,4)] by (simp add: kern_inv_def)
  from pok assms(2) show ?thesis
  proof (cases rule: process_create_kernel_cases)
    case (created j pg st l sp0 m0 n)
    with assms(5) have j: "j = i" by simp
    let ?p = "spawned now (next_pid (procs k)) n fn st sp0 (proc_table (procs k) ! i)"
    have t: "proc_table (procs k') = (proc_table (procs k))[i := ?p]" "mem k' = m0" "i < 16"
      using created j by simp_all
    from assms(6) obtain q where q: "pick_next (procs k') = Some q" "q \<noteq> cur_slot (procs k')"
      and en: "scheduling_enabled (procs k')"
      by (auto simp: schedule_def split: if_splits option.splits)
    note sw = schedule_switch [OF pok' en q, of e]
    have qi: "q = i"
    proof -
      have "pid (proc_table (procs k') ! q) = next_pid (procs k)"
        using sw assms(6,7) by auto
      moreover have "pid (proc_table (procs k') ! i) = next_pid (procs k)" "p_in_use (proc_table (procs k') ! i)"
        using t len by simp_all
      ultimately show ?thesis using procs_ok_unique [OF pok'] pick_nextD [OF q(1)] t(3) by metis
    qed
    have sp: "sp = sp0" using sw assms(6) qi t len by simp
    have ps': "procs_ok ps'" using schedule_ok(1) [OF pok', of e] assms(6) by simp
    have e: "p_in_use (proc_table ps' ! i)" "pid (proc_table ps' ! i) = current_pid ps'"
      "entry (proc_table ps' ! i) = fn"
      using sw assms(6) qi t len created(8) procs_ok_length [OF pok'] by (auto simp: q)
    have "process_get_current ps' = Some i"
      using e t(3) by (simp add: process_get_current_def find_slot_iff [OF ps'])
    moreover have "fst (context_switch (c, m)) = resumed sp m0"
      using context_switch_loads [of m c] assms(8-11) t(2) resumed_cong [of sp m m0] by simp
    ultimately show ?thesis
      using initial_stack_eq [OF created(6)] e(3) t len sp by simp
  qed (use assms(3) in simp_all)
qed

text \<open>The first task of the booted kernel.\<close>

lemma boot_first_task:
  obtains k' p where "process_create_kernel now wrapper nm fn boot_kern = Some (k', 2)" "kern_inv k'"
    "procs k' = boot_procs\<lparr>proc_table := (proc_table boot_procs)[2 := p], next_pid := 3\<rparr>"
    "pid p = 2" "p_in_use p" "pstate p = PROC_READY" "kstack p = 4096" "saved_esp p = 8156"
    "klog_total (log k') < 2147483647" "used_set (pages k') = {0, 1}"
proof -
  have p: "procs boot_kern = boot_procs" by (simp add: boot_kern_def)
  have ok: "procs_ok (procs boot_kern)" using boot_kern_facts(1) by (simp add: kern_inv_def)
  have "snd (pmm_alloc_page (pages boot_kern)) \<noteq> 0" by (simp add: boot_kern_facts)
  from process_create_kernel_succeeds [OF boot_kern_facts(1-3) this] obtain k' where
    cr: "process_create_kernel now wrapper nm fn boot_kern = Some (k', 2)"
    by (fastforce simp: boot_kern_facts)
  from ok cr show thesis
  proof (cases rule: process_create_kernel_cases)
    case (created i pg st l sp m n)
    let ?p = "spawned now 2 n fn st sp (proc_table boot_procs ! 2)"
    have st: "st = 4096" "i = 2" using created(1,3) boot_kern_facts(3,4) by simp_all
    have "used_set pg = {0, 1}"
      using pmm_alloc_page_refines [of fresh_pmm] fresh_pmm_wf fresh_pmm_alloc created(3)
      by (auto simp: boot_kern_def)
    moreover have "klog_total l < 2147483647"
      using created(5) by (auto simp: klog_def bind_eq_Some_conv boot_kern_def klog_init_inv cint_def split: if_splits)
    ultimately show thesis
      using that [OF cr process_create_kernel_inv [OF boot_kern_facts(1) cr], of ?p] created(9) st
        initial_stack_eq(1) [OF created(6)]
      by (simp add: p boot_procs_facts set_proc_def boot_kern_facts(5) [unfolded p])
  qed (use boot_kern_facts in simp_all)
qed

theorem new_task_first_switch_witness:
  "\<exists>k' ps' sp c m. process_create_kernel 0 0x101000 (bytes ''ticker'') 0x102000 boot_kern = Some (k', 2)
    \<and> schedule 0 (procs k') = (ps', Some sp) \<and> eip (fst (context_switch (c, m))) = 0x101000
    \<and> process_get_current ps' = Some 2 \<and> entry (proc_table ps' ! 2) = 0x102000"
proof -
  obtain k' p where k': "process_create_kernel 0 0x101000 (bytes ''ticker'') 0x102000 boot_kern = Some (k', 2)" "kern_inv k'"
    "procs k' = boot_procs\<lparr>proc_table := (proc_table boot_procs)[2 := p], next_pid := 3\<rparr>"
    and p: "pid p = 2" "p_in_use p" "pstate p = PROC_READY" "saved_esp p = 8156"
    by (rule boot_first_task)
  have ok: "procs_ok (procs k')" using k'(2) by (simp add: kern_inv_def)
  have en: "scheduling_enabled (procs k')" by (simp add: k'(3) boot_procs_facts)
  have rd: "is_ready (procs k') r \<longleftrightarrow> r = 2" if "r < 16" for r
    using that p boot_procs_facts(5) [of r] boot_procs_facts(6-8)
    by (cases "r = 2") (auto simp: is_ready_def k'(3) less_Suc_eq numeral_2_eq_2)
  then have pk: "pick_next (procs k') = Some 2" by (auto simp: pick_next_eq)
  have "current_pid (procs k') = 1" by (simp add: k'(3) boot_procs_facts)
  moreover have "find_slot_by_pid 1 (procs k') = Some 1"
    using procs_ok_slots [OF ok] by (simp add: find_slot_iff [OF ok])
  ultimately have cs: "cur_slot (procs k') = 1" by (simp add: cur_slot_def)
  then have "2 \<noteq> cur_slot (procs k')" by simp
  from schedule_switch [OF ok en pk this, of 0] obtain ps' where
    ps': "schedule 0 (procs k') = (ps', Some 8156)" "current_pid ps' = 2"
    using p boot_procs_facts(8) by (simp add: k'(3))
  define c where "c = task_a\<lparr>esp := 0x9000\<rparr>"
  define m where "m = (mem k')(0x9004 := 0x100, 0x9008 := 8156)"
  have "eip (fst (context_switch (c, m))) = 0x101000 \<and> process_get_current ps' = Some 2 \<and> entry (proc_table ps' ! 2) = 0x102000"
    using new_task_first_switch [OF boot_kern_facts(1) k'(1) _ _ boot_kern_facts(3) ps'(1), of m c] ps'(2)
    by (simp add: boot_kern_facts c_def m_def frame_addrs_def switch_writes_def)
  with k'(1) ps'(1) show ?thesis by blast
qed

text \<open>C32: \<open>process_create_kernel\<close> publishes the task too early. When the timer ends a slice after the
  slot is marked in use and before its stack pointer is stored, and no other process is ready,
  the scheduler switches to the new task with the stack pointer of the slot's last owner (0 in a
  slot never used).\<close>

theorem create_kernel_race:
  assumes "procs_ok ps" "scheduling_enabled ps" "find_free_slot ps = Some i" "next_pid ps \<noteq> - 1"
    and "find_slot_by_pid (current_pid ps) ps = Some c" "\<forall>r. r < 16 \<longrightarrow> is_ready ps r \<longrightarrow> r = c"
    and "task_published now nm fn stack i ps = Some ps'"
  shows "snd (schedule e ps') = Some (saved_esp (proc_table ps ! i)) \<and> current_pid (fst (schedule e ps')) = next_pid ps"
proof -
  note i = find_free_slotD [OF assms(3)]
  have len: "length (proc_table ps) = 16" by (rule procs_ok_length [OF assms(1)])
  obtain n where n: "strncpy (pname (proc_table ps ! i)) nm 31 = Some n" "length n = 32"
    using store_pname [OF procs_ok_name [OF assms(1) i(1)]] by blast
  define p where "p = (proc_table ps ! i)\<lparr>pid := next_pid ps, pname := n[31 := 0], pstate := PROC_READY,
    priority := 1, ticks_used := 0, proc_created_tick := now, wake_tick := 0, kstack := stack,
    entry := fn, p_in_use := True\<rparr>"
  have ps': "ps' = (set_proc i p ps)\<lparr>next_pid := next_pid ps + 1\<rparr>"
    using assms(7) n by (simp add: task_published_def Let_def p_def)
  have ok: "procs_ok ps'"
    unfolding ps' using n(2) by (intro procs_ok_new [OF assms(1,3,4)]) (simp_all add: p_def)
  have c: "c < 16" "p_in_use (proc_table ps ! c)" "pid (proc_table ps ! c) = current_pid ps"
    using find_slotD [OF assms(5)] by simp_all
  have ci: "c \<noteq> i" using c(2) i by blast
  have "find_slot_by_pid (current_pid ps') ps' = Some c"
    using c ci by (simp add: find_slot_iff [OF ok]) (simp add: ps')
  then have cs: "cur_slot ps' = c" by (simp add: cur_slot_def)
  have rd: "is_ready ps' i" using i(1) len by (simp add: is_ready_def ps' p_def)
  from pick_next_exists [OF i(1) rd] ci cs obtain q where q: "pick_next ps' = Some q" "q \<noteq> c" by auto
  have "q = i"
  proof (rule ccontr)
    assume "q \<noteq> i"
    then have "is_ready ps q" using pick_nextD [OF q(1)] by (simp add: is_ready_def ps')
    with assms(6) pick_nextD(1) [OF q(1)] q(2) show False by blast
  qed
  with schedule_switch [OF ok _ q(1)] q(2) cs assms(2) i(1) len show ?thesis
    by (simp add: ps' p_def)
qed

theorem create_kernel_race_witness:
  "\<exists>ps'. task_published 0 (bytes ''spinner'') 0x102000 4096 2 boot_procs = Some ps'
    \<and> snd (schedule 0 ps') = Some 0 \<and> current_pid (fst (schedule 0 ps')) = 2"
proof -
  have len: "length (pname (proc_table boot_procs ! 2)) = 32"
    by (rule procs_ok_name [OF boot_procs_facts(1)]) simp
  obtain ps' where ps': "task_published 0 (bytes ''spinner'') 0x102000 4096 2 boot_procs = Some ps'"
    using store_pname [OF len, of "bytes ''spinner''"]
    by (auto simp: task_published_def Let_def simp del: bytes_simps(1,2))
  have nr: "\<not> is_ready boot_procs r" if "r < 16" for r
    using boot_procs_facts(5) [OF that] boot_procs_facts(6,7)
    by (cases r) (auto simp: is_ready_def less_Suc_eq numeral_2_eq_2)
  have cur: "find_slot_by_pid (current_pid boot_procs) boot_procs = Some 1"
    using procs_ok_slots [OF boot_procs_facts(1)]
    by (simp add: find_slot_iff [OF boot_procs_facts(1)] boot_procs_facts)
  from create_kernel_race [OF boot_procs_facts(1,4) find_free_boot _ cur _ ps', of 0] nr ps' show ?thesis
    by (simp add: boot_procs_facts boot_procs_free zero_proc_def)
qed

theorem task_exit_leaks_stack_witness:
  "\<exists>k k' r. kstack (proc_table (procs k) ! 2) = 4096
    \<and> process_create_kernel 9 0 (bytes ''second'') 0 (k\<lparr>procs := wrapper_exit (Some 2) (procs k)\<rparr>) = Some (k', r)
    \<and> 4096 \<in> pmm_owned (pages k') \<and> (\<forall>i < 16. kstack (proc_table (procs k') ! i) \<noteq> 4096)"
proof -
  obtain k p where k: "kern_inv k" "procs k = boot_procs\<lparr>proc_table := (proc_table boot_procs)[2 := p], next_pid := 3\<rparr>"
    and p: "kstack p = 4096" "p_in_use p" and l: "klog_total (log k) < 2147483647" and u: "used_set (pages k) = {0, 1}"
    using boot_first_task [of 0 0 "bytes ''first''" 0] by metis
  let ?w = "wrapper_exit (Some 2) (procs k)" and ?k = "k\<lparr>procs := wrapper_exit (Some 2) (procs k)\<rparr>"
  have ok: "procs_ok (procs k)" using k(1) by (simp add: kern_inv_def)
  have st: "kstack (proc_table (procs k) ! 2) = 4096" using p boot_procs_facts(8) by (simp add: k(2))
  have inv: "kern_inv ?k" using kern_inv_procs [OF k(1)] wrapper_exit_ok [OF ok] by simp
  have free: "find_free_slot ?w = Some 2"
    using p boot_procs_facts(5,8)
    by (auto simp: find_free_slot_def first_from_Some_iff wrapper_exit_def k(2))
  have "pmm_wf (pages k)" using k(1) by (simp add: kern_inv_def stacks_ok_def pmm_inv_def)
  moreover have "alloc_spec {0, 1} = Some 2"
  proof -
    have "\<not> {..< 32768 :: nat} \<subseteq> {0, 1}"
    proof
      assume "{..< 32768 :: nat} \<subseteq> {0, 1}"
      then have "2 \<in> {0, 1 :: nat}" by (rule subsetD) simp
      then show False by simp
    qed
    moreover have "(LEAST n. n \<notin> {0, 1 :: nat}) = 2" by (rule Least_equality) (auto simp: numeral_2_eq_2)
    ultimately show ?thesis by (simp add: alloc_spec_def)
  qed
  ultimately have "unat (snd (pmm_alloc_page (pages k))) = 8192"
    using pmm_alloc_page_refines [of "pages k"] u by simp
  then have pg: "snd (pmm_alloc_page (pages ?k)) \<noteq> 0" by auto
  have np: "next_pid ?w = 3" by (simp add: wrapper_exit_def k(2))
  from process_create_kernel_succeeds [OF inv _ _ pg] l free np obtain k' where
    cr: "process_create_kernel 9 0 (bytes ''second'') 0 ?k = Some (k', 3)" by fastforce
  have "kstack (proc_table (procs k) ! 2) \<noteq> 0" using st by simp
  from task_exit_leaks_stack [OF k(1) _ _ this free cr] st
  have "4096 \<in> pmm_owned (pages k') \<and> (\<forall>i < 16. kstack (proc_table (procs k') ! i) \<noteq> 4096)"
    by (simp add: k(2))
  with st cr show ?thesis by blast
qed

end
