(* ===== verification/Interrupts.thy ===== *)
theory Interrupts
  imports Kprintf
begin

text \<open>
  The descriptor tables and the dispatch of interrupts: \<^verbatim>\<open>src/gdt.c\<close> and \<^verbatim>\<open>src/idt.c\<close>. The
  assembly stubs are their addresses (\<open>isr i\<close>, \<open>irq i\<close>), a registered handler is one of the three
  functions the kernel registers, and the writes to ports go to the port log of the screen's
  state. What the processor and the two interrupt controllers make of the tables and of the
  port writes is stated by decoding functions, after the manuals of these chips.
\<close>

section \<open>The segment descriptors\<close>

record gdt_entry =
  limit_low :: u16
  base_low :: u16
  base_middle :: u8
  access :: u8
  granularity :: u8
  base_high :: u8

record dt_ptr =
  dt_limit :: u16
  dt_base :: u32

record gdt =
  gdt_entries :: "gdt_entry list"
  gp :: dt_ptr

definition gdt_set_gate :: "nat \<Rightarrow> u32 \<Rightarrow> u32 \<Rightarrow> u8 \<Rightarrow> u8 \<Rightarrow> gdt \<Rightarrow> gdt option" where
  "gdt_set_gate num base limit acc gran g = do {
     es \<leftarrow> put_at (gdt_entries g) num
       \<lparr>limit_low = ucast (limit AND 0xFFFF), base_low = ucast (base AND 0xFFFF),
        base_middle = ucast (drop_bit 16 base AND 0xFF), access = acc,
        granularity = ucast (drop_bit 16 limit AND 0x0F) OR (gran AND 0xF0),
        base_high = ucast (drop_bit 24 base AND 0xFF)\<rparr>;
     Some (g\<lparr>gdt_entries := es\<rparr>)
   }"

text \<open>\<open>addr\<close> is the address of the table; the result is what \<^verbatim>\<open>gdt_flush\<close> loads.\<close>

definition gdt_init :: "u32 \<Rightarrow> gdt \<Rightarrow> gdt option" where
  "gdt_init addr g = do {
     g1 \<leftarrow> gdt_set_gate 0 0 0 0 0 (g\<lparr>gp := \<lparr>dt_limit = 8 * 3 - 1, dt_base = addr\<rparr>\<rparr>);
     g2 \<leftarrow> gdt_set_gate 1 0 0xFFFFFFFF 0x9A 0xCF g1;
     gdt_set_gate 2 0 0xFFFFFFFF 0x92 0xCF g2
   }"

text \<open>How the processor reads a descriptor.\<close>

definition seg_base :: "gdt_entry \<Rightarrow> u32" where
  "seg_base e = ucast (base_low e) OR push_bit 16 (ucast (base_middle e)) OR push_bit 24 (ucast (base_high e))"

definition seg_limit :: "gdt_entry \<Rightarrow> u32" where
  "seg_limit e =
     (let l = ucast (limit_low e) OR push_bit 16 (ucast (granularity e AND 0x0F)) in
      if bit (granularity e) 7 then push_bit 12 l OR 0xFFF else l)"

section \<open>The interrupt descriptors\<close>

record idt_entry =
  off_low :: u16
  sel :: u16
  always0 :: u8
  gate_flags :: u8
  off_high :: u16

datatype handler = Timer_Callback | Keyboard_Callback | Syscall_Handler

record idt =
  idt_entries :: "idt_entry list"
  idtp :: dt_ptr
  interrupt_handlers :: "handler option list"

definition idt_set_gate :: "u8 \<Rightarrow> u32 \<Rightarrow> u16 \<Rightarrow> u8 \<Rightarrow> idt \<Rightarrow> idt" where
  "idt_set_gate num base s fl d = d\<lparr>idt_entries := (idt_entries d)[unat num :=
     \<lparr>off_low = ucast (base AND 0xFFFF), sel = s, always0 = 0, gate_flags = fl,
      off_high = ucast (drop_bit 16 base AND 0xFFFF)\<rparr>]\<rparr>"

definition register_interrupt_handler :: "u8 \<Rightarrow> handler \<Rightarrow> idt \<Rightarrow> idt" where
  "register_interrupt_handler n h d = d\<lparr>interrupt_handlers := (interrupt_handlers d)[unat n := Some h]\<rparr>"

definition io_wait :: "screen \<Rightarrow> screen" where
  "io_wait = outb 0x80 0"

definition pic_remap :: "screen \<Rightarrow> screen" where
  "pic_remap t =
     (let cmd = (\<lambda>port v t. io_wait (outb port v t)) in
      outb 0xA1 0 (outb 0x21 0
        (cmd 0xA1 0x01 (cmd 0x21 0x01 (cmd 0xA1 0x02 (cmd 0x21 0x04
        (cmd 0xA1 0x28 (cmd 0x21 0x20 (cmd 0xA0 0x11 (cmd 0x20 0x11 t))))))))))"

definition zero_gate :: idt_entry where
  "zero_gate = \<lparr>off_low = 0, sel = 0, always0 = 0, gate_flags = 0, off_high = 0\<rparr>"

definition idt_init :: "(nat \<Rightarrow> u32) \<Rightarrow> (nat \<Rightarrow> u32) \<Rightarrow> u32 \<Rightarrow> idt \<times> screen \<Rightarrow> idt \<times> screen" where
  "idt_init isr irq addr s = (case s of (d, t) \<Rightarrow>
     let d0 = d\<lparr>idtp := \<lparr>dt_limit = 8 * 256 - 1, dt_base = addr\<rparr>,
           idt_entries := replicate 256 zero_gate, interrupt_handlers := replicate 256 None\<rparr>;
         d1 = fold (\<lambda>i. idt_set_gate (of_nat i) (isr i) 0x08 0x8E) [0 ..< 32] d0;
         d2 = fold (\<lambda>i. idt_set_gate (of_nat (32 + i)) (irq i) 0x08 0x8E) [0 ..< 16] d1
     in (d2, pic_remap t))"

section \<open>Dispatch\<close>

record registers =
  r_ds :: u32
  r_edi :: u32
  r_esi :: u32
  r_ebp :: u32
  r_esp :: u32
  r_ebx :: u32
  r_edx :: u32
  r_ecx :: u32
  r_eax :: u32
  int_no :: u32
  err_code :: u32
  r_eip :: u32
  r_cs :: u32
  r_eflags :: u32
  r_useresp :: u32
  r_ss :: u32

text \<open>What a C handler does after its port and screen output: calls the registered function,
  returns, or halts for ever.\<close>

datatype continuation = Call handler | Return | Halted

definition panic :: "u32 \<Rightarrow> screen \<Rightarrow> screen_result option" where
  "panic n t = do {
     r \<leftarrow> kprintf (10 # bytes ''  KERNEL PANIC: Exception %d  '' @ [10]) [Word n]
       (terminal_setcolor (vga_entry_color 15 4) t);
     Some (andthen r (\<lambda>t. Inr (terminal_setcolor (vga_entry_color 7 0) t)))
   }"

definition isr_handler :: "idt \<Rightarrow> registers \<Rightarrow> screen \<Rightarrow> (screen_result \<times> continuation) option" where
  "isr_handler d regs t = do {
     h \<leftarrow> get_at (interrupt_handlers d) (unat (int_no regs));
     (case h of
        Some f \<Rightarrow> Some (Inr t, Call f)
      | None \<Rightarrow> if int_no regs < 32 then do { r \<leftarrow> panic (int_no regs) t; Some (r, Halted) }
                else Some (Inr t, Return))
   }"

definition irq_handler :: "idt \<Rightarrow> registers \<Rightarrow> screen \<Rightarrow> (screen \<times> continuation) option" where
  "irq_handler d regs t =
     (let t1 = outb 0x20 0x20 (if int_no regs \<ge> 40 then outb 0xA0 0x20 t else t) in do {
      h \<leftarrow> get_at (interrupt_handlers d) (unat (int_no regs));
      Some (t1, case h of Some f \<Rightarrow> Call f | None \<Rightarrow> Return)
    })"

section \<open>Decoding\<close>

lemma base_bytes: "(ucast (ucast (b AND 0xFFFF) :: u16) OR push_bit 16 (ucast (ucast (drop_bit 16 b AND 0xFF) :: u8))
    OR push_bit 24 (ucast (ucast (drop_bit 24 b AND 0xFF) :: u8)) :: u32) = b" for b :: u32
proof (rule bit_word_eqI)
  fix n assume "n < LENGTH(32)"
  then have n: "n < 32" by simp
  have m: "(0xFFFF :: u32) = mask 16" "(0xFF :: u32) = mask 8" by (simp_all add: mask_eq_exp_minus_1)
  consider "n < 16" | "16 \<le> n" "n < 24" | "24 \<le> n" by linarith
  then show "bit (ucast (ucast (b AND 0xFFFF) :: u16) OR push_bit 16 (ucast (ucast (drop_bit 16 b AND 0xFF) :: u8))
    OR push_bit 24 (ucast (ucast (drop_bit 24 b AND 0xFF) :: u8)) :: u32) n \<longleftrightarrow> bit b n"
    using n by cases (auto simp: m bit_simps)
qed

lemma offset_halves: "(ucast (ucast (b AND 0xFFFF) :: u16) OR push_bit 16 (ucast (ucast (drop_bit 16 b AND 0xFFFF) :: u16)) :: u32) = b" for b :: u32
proof (rule bit_word_eqI)
  fix n assume "n < LENGTH(32)"
  then have n: "n < 32" by simp
  have m: "(0xFFFF :: u32) = mask 16" by (simp_all add: mask_eq_exp_minus_1)
  consider "n < 16" | "16 \<le> n" by linarith
  then show "bit (ucast (ucast (b AND 0xFFFF) :: u16) OR push_bit 16 (ucast (ucast (drop_bit 16 b AND 0xFFFF) :: u16)) :: u32) n \<longleftrightarrow> bit b n"
    using n by cases (auto simp: m bit_simps)
qed

lemma limit_bits: "(ucast (ucast (l AND 0xFFFF) :: u16) OR push_bit 16 (ucast ((ucast (drop_bit 16 l AND 0x0F) OR (g AND 0xF0)) AND 0x0F :: u8)) :: u32)
   = l AND 0xFFFFF" for l :: u32
proof (rule bit_word_eqI)
  fix n assume "n < LENGTH(32)"
  then have n: "n < 32" by simp
  have m: "(0xFFFF :: u32) = mask 16" "(0xFFFFF :: u32) = mask 20" "(0xF :: u32) = mask 4" "(0xF :: u8) = mask 4"
    "(0xF0 :: u8) = push_bit 4 (mask 4)"
     by (simp_all add: mask_eq_exp_minus_1)
  consider "n < 16" | "16 \<le> n" "n < 20" | "20 \<le> n" by linarith
  then show "bit (ucast (ucast (l AND 0xFFFF) :: u16) OR push_bit 16 (ucast ((ucast (drop_bit 16 l AND 0x0F) OR (g AND 0xF0)) AND 0x0F :: u8)) :: u32) n
   \<longleftrightarrow> bit (l AND 0xFFFFF) n"
    using n by cases (auto simp: m bit_simps)
qed

lemma gran_bit: "bit (ucast (drop_bit 16 l AND (0x0F :: u32)) OR (g AND 0xF0) :: u8) 7 = bit g 7"
proof -
  have "(0xF :: u32) = mask 4" "(0xF0 :: u8) = push_bit 4 (mask 4)" by (simp_all add: mask_eq_exp_minus_1)
  then show ?thesis by (simp add: bit_simps)
qed

lemma gdt_set_gate_decodes:
  assumes "num < length (gdt_entries g)"
  shows "\<exists>e. gdt_set_gate num base limit acc gran g = Some (g\<lparr>gdt_entries := (gdt_entries g)[num := e]\<rparr>)
    \<and> seg_base e = base \<and> seg_limit e = (if bit gran 7 then push_bit 12 (limit AND 0xFFFFF) OR 0xFFF else limit AND 0xFFFFF)
    \<and> access e = acc"
proof -
  define e where "e = \<lparr>limit_low = ucast (limit AND 0xFFFF), base_low = ucast (base AND 0xFFFF),
        base_middle = ucast (drop_bit 16 base AND 0xFF), access = acc,
        granularity = ucast (drop_bit 16 limit AND 0x0F) OR (gran AND 0xF0),
        base_high = ucast (drop_bit 24 base AND 0xFF)\<rparr>"
  have "gdt_set_gate num base limit acc gran g = Some (g\<lparr>gdt_entries := (gdt_entries g)[num := e]\<rparr>)"
    using assms by (simp add: gdt_set_gate_def put_at_def e_def)
  moreover have "seg_base e = base" unfolding seg_base_def e_def gdt_entry.simps by (rule base_bytes)
  moreover have "seg_limit e = (if bit gran 7 then push_bit 12 (limit AND 0xFFFFF) OR 0xFFF else limit AND 0xFFFFF)"
    unfolding seg_limit_def e_def gdt_entry.simps limit_bits gran_bit Let_def ..
  ultimately show ?thesis by (intro exI [of _ e]) (simp add: e_def)
qed

lemma gdt_init_segments:
  assumes "length (gdt_entries g) = 3"
  shows "\<exists>g'. gdt_init addr g = Some g' \<and> length (gdt_entries g') = 3
    \<and> dt_base (gp g') = addr \<and> unat (dt_limit (gp g')) + 1 = 8 * length (gdt_entries g')
    \<and> seg_limit (gdt_entries g' ! 0) = 0
    \<and> seg_base (gdt_entries g' ! (0x08 div 8)) = 0 \<and> seg_limit (gdt_entries g' ! (0x08 div 8)) = 0xFFFFFFFF
    \<and> seg_base (gdt_entries g' ! (0x10 div 8)) = 0 \<and> seg_limit (gdt_entries g' ! (0x10 div 8)) = 0xFFFFFFFF
    \<and> access (gdt_entries g' ! 1) = 0x9A \<and> access (gdt_entries g' ! 2) = 0x92"
proof -
  define g0 where "g0 = g\<lparr>gp := \<lparr>dt_limit = 8 * 3 - 1, dt_base = addr\<rparr>\<rparr>"
  have l0: "length (gdt_entries g0) = 3" using assms by (simp add: g0_def)
  from gdt_set_gate_decodes [of 0 g0 0 0 0 0] l0 obtain e0 where
    e0: "gdt_set_gate 0 0 0 0 0 g0 = Some (g0\<lparr>gdt_entries := (gdt_entries g0)[0 := e0]\<rparr>)" "seg_limit e0 = 0"
    by auto
  let ?g1 = "g0\<lparr>gdt_entries := (gdt_entries g0)[0 := e0]\<rparr>"
  from gdt_set_gate_decodes [of 1 ?g1 0 "0xFFFFFFFF" "0x9A" "0xCF"] l0 obtain e1 where
    e1: "gdt_set_gate 1 0 0xFFFFFFFF 0x9A 0xCF ?g1 = Some (?g1\<lparr>gdt_entries := (gdt_entries ?g1)[1 := e1]\<rparr>)"
      "seg_base e1 = 0" "seg_limit e1 = 0xFFFFFFFF" "access e1 = 0x9A"
    by auto
  let ?g2 = "?g1\<lparr>gdt_entries := (gdt_entries ?g1)[1 := e1]\<rparr>"
  from gdt_set_gate_decodes [of 2 ?g2 0 "0xFFFFFFFF" "0x92" "0xCF"] l0 obtain e2 where
    e2: "gdt_set_gate 2 0 0xFFFFFFFF 0x92 0xCF ?g2 = Some (?g2\<lparr>gdt_entries := (gdt_entries ?g2)[2 := e2]\<rparr>)"
      "seg_base e2 = 0" "seg_limit e2 = 0xFFFFFFFF" "access e2 = 0x92"
    by auto
  have "gdt_init addr g = Some (?g2\<lparr>gdt_entries := (gdt_entries ?g2)[2 := e2]\<rparr>)"
    using e0(1) e1(1) e2(1) by (simp add: gdt_init_def g0_def)
  then show ?thesis using e0 e1 e2 l0 by (simp add: g0_def)
qed

text \<open>\<open>gdt_init\<close> sets up a flat memory: the table has exactly the three descriptors it names, and
  as the processor decodes them, the selectors 0x08 (code) and 0x10 (data) start at 0 and reach
  to the end of the 4 GB, with the access rights of a present ring-0 segment.\<close>

theorem gdt_init_flat:
  assumes "length (gdt_entries g) = 3"
  shows "\<exists>g'. gdt_init addr g = Some g' \<and> length (gdt_entries g') = 3
    \<and> dt_base (gp g') = addr \<and> unat (dt_limit (gp g')) + 1 = 8 * length (gdt_entries g')
    \<and> seg_limit (gdt_entries g' ! 0) = 0
    \<and> seg_base (gdt_entries g' ! (0x08 div 8)) = 0 \<and> seg_limit (gdt_entries g' ! (0x08 div 8)) = 0xFFFFFFFF
    \<and> seg_base (gdt_entries g' ! (0x10 div 8)) = 0 \<and> seg_limit (gdt_entries g' ! (0x10 div 8)) = 0xFFFFFFFF
    \<and> access (gdt_entries g' ! 1) = 0x9A \<and> access (gdt_entries g' ! 2) = 0x92"
  by (rule gdt_init_segments [OF assms])

definition zero_gdt :: gdt where
  "zero_gdt = \<lparr>gdt_entries = replicate 3 \<lparr>limit_low = 0, base_low = 0, base_middle = 0, access = 0,
     granularity = 0, base_high = 0\<rparr>, gp = \<lparr>dt_limit = 0, dt_base = 0\<rparr>\<rparr>"

theorem gdt_init_flat_witness:
  "\<exists>g'. gdt_init 0x5000 zero_gdt = Some g' \<and> seg_limit (gdt_entries g' ! 2) = 0xFFFFFFFF"
proof -
  have "length (gdt_entries zero_gdt) = 3" by (simp add: zero_gdt_def)
  from gdt_init_flat [OF this, of "0x5000"] show ?thesis by auto
qed

section \<open>The gates\<close>

definition gate_offset :: "idt_entry \<Rightarrow> u32" where
  "gate_offset e = ucast (off_low e) OR push_bit 16 (ucast (off_high e))"

definition gate_present :: "idt_entry \<Rightarrow> bool" where
  "gate_present e \<longleftrightarrow> bit (gate_flags e) 7"

lemma idt_set_gate_nth:
  assumes "length (idt_entries d) = 256" "n < 256"
  shows "gate_offset (idt_entries (idt_set_gate num b s fl d) ! n)
      = (if n = unat num then b else gate_offset (idt_entries d ! n))"
    and "gate_flags (idt_entries (idt_set_gate num b s fl d) ! n)
      = (if n = unat num then fl else gate_flags (idt_entries d ! n))"
    and "sel (idt_entries (idt_set_gate num b s fl d) ! n)
      = (if n = unat num then s else sel (idt_entries d ! n))"
    and "length (idt_entries (idt_set_gate num b s fl d)) = 256"
    and "interrupt_handlers (idt_set_gate num b s fl d) = interrupt_handlers d"
    and "idtp (idt_set_gate num b s fl d) = idtp d"
  using assms offset_halves [of b] by (simp_all add: idt_set_gate_def gate_offset_def nth_list_update)

text \<open>A run of gates set by a loop.\<close>

lemma idt_gates_nth:
  fixes f :: "nat \<Rightarrow> u32" and s :: u16 and fl :: u8
  assumes "length (idt_entries d) = 256" "n < 256" "a + k \<le> 256"
  defines "d' \<equiv> fold (\<lambda>i. idt_set_gate (of_nat (a + i)) (f i) s fl) [0 ..< k] d"
  shows "gate_offset (idt_entries d' ! n)
      = (if a \<le> n \<and> n < a + k then f (n - a) else gate_offset (idt_entries d ! n))
    \<and> gate_flags (idt_entries d' ! n) = (if a \<le> n \<and> n < a + k then fl else gate_flags (idt_entries d ! n))
    \<and> sel (idt_entries d' ! n) = (if a \<le> n \<and> n < a + k then s else sel (idt_entries d ! n))
    \<and> length (idt_entries d') = 256 \<and> interrupt_handlers d' = interrupt_handlers d \<and> idtp d' = idtp d"
  using assms(3) unfolding d'_def
proof (induction k)
  case 0
  then show ?case using assms(1) by (auto simp: not_less)
next
  case (Suc k)
  let ?d = "fold (\<lambda>i. idt_set_gate (of_nat (a + i)) (f i) s fl) [0 ..< k] d"
  have u: "unat (of_nat (a + k) :: u8) = a + k" using Suc.prems by (simp add: unat_of_nat del: of_nat_add)
  have len: "length (idt_entries ?d) = 256" using Suc by simp
  have "n < a + Suc k \<longleftrightarrow> n < a + k \<or> n = a + k" by auto
  with Suc idt_set_gate_nth [OF len assms(2), of "of_nat (a + k)" "f k" s fl] show ?case
    by (auto simp: u simp del: of_nat_add)
qed

lemma idt_init_gates:
  fixes isr irq :: "nat \<Rightarrow> u32" and addr :: u32 and s :: "idt \<times> screen"
  assumes "n < 256"
  defines "d' \<equiv> fst (idt_init isr irq addr s)"
  shows "gate_offset (idt_entries d' ! n) = (if n < 32 then isr n else if n < 48 then irq (n - 32) else 0)"
    and "gate_flags (idt_entries d' ! n) = (if n < 48 then 0x8E else 0)"
    and "sel (idt_entries d' ! n) = (if n < 48 then 0x08 else 0)"
    and "interrupt_handlers d' = replicate 256 None" "length (idt_entries d') = 256"
    and "idtp d' = \<lparr>dt_limit = 2047, dt_base = addr\<rparr>"
proof -
  define d0 where "d0 = (fst s)\<lparr>idtp := \<lparr>dt_limit = 8 * 256 - 1, dt_base = addr\<rparr>,
    idt_entries := replicate 256 zero_gate, interrupt_handlers := replicate 256 None\<rparr>"
  define d1 where "d1 = fold (\<lambda>i. idt_set_gate (of_nat (0 + i)) (isr i) 0x08 0x8E) [0 ..< 32] d0"
  have d': "d' = fold (\<lambda>i. idt_set_gate (of_nat (32 + i)) (irq i) 0x08 0x8E) [0 ..< 16] d1"
    unfolding d'_def idt_init_def d1_def d0_def by (cases s) (simp only: Let_def prod.case fst_conv add_0)
  have l0: "length (idt_entries d0) = 256" by (simp add: d0_def)
  have z: "gate_offset (idt_entries d0 ! n) = 0" "gate_flags (idt_entries d0 ! n) = 0" "sel (idt_entries d0 ! n) = 0"
    "interrupt_handlers d0 = replicate 256 None" "idtp d0 = \<lparr>dt_limit = 2047, dt_base = addr\<rparr>"
    using assms(1) by (simp_all add: d0_def zero_gate_def gate_offset_def)
  note g1 = idt_gates_nth [OF l0 assms(1), of 0 32 isr "0x08" "0x8E", folded d1_def]
  then have l1: "length (idt_entries d1) = 256" by simp
  note g2 = idt_gates_nth [OF l1 assms(1), of 32 16 irq "0x08" "0x8E", folded d']
  show "gate_offset (idt_entries d' ! n) = (if n < 32 then isr n else if n < 48 then irq (n - 32) else 0)"
    "gate_flags (idt_entries d' ! n) = (if n < 48 then 0x8E else 0)"
    "sel (idt_entries d' ! n) = (if n < 48 then 0x08 else 0)"
    "interrupt_handlers d' = replicate 256 None" "length (idt_entries d') = 256"
    "idtp d' = \<lparr>dt_limit = 2047, dt_base = addr\<rparr>"
    using g1 g2 z by auto
qed

section \<open>The interrupt controllers\<close>

text \<open>
  An 8259 as its data sheet describes it, as far as the kernel programs it: the word 0x11 on the
  command port starts the initialisation, the next three words on the data port are the vector
  of its first line, the cascade word and the mode; then a word on the data port is the mask.
\<close>

record pic =
  expects :: nat
  first_vector :: u8
  cascade :: u8
  mode :: u8
  line_mask :: u8

definition pic_write :: "u16 \<Rightarrow> u16 \<times> u8 \<Rightarrow> pic \<Rightarrow> pic" where
  "pic_write base w p = (case w of (port, v) \<Rightarrow>
     if port = base then (if v = 0x11 then p\<lparr>expects := 2\<rparr> else p)
     else if port = base + 1
     then (if expects p = 2 then p\<lparr>first_vector := v, expects := 3\<rparr>
           else if expects p = 3 then p\<lparr>cascade := v, expects := 4\<rparr>
           else if expects p = 4 then p\<lparr>mode := v, expects := 0\<rparr>
           else p\<lparr>line_mask := v\<rparr>)
     else p)"

definition pic_run :: "u16 \<Rightarrow> (u16 \<times> u8) list \<Rightarrow> pic \<Rightarrow> pic" where
  "pic_run base = fold (pic_write base)"

definition irq_vector :: "pic \<Rightarrow> pic \<Rightarrow> nat \<Rightarrow> nat" where
  "irq_vector master slave k =
     (if k < 8 then unat (first_vector master) + k else unat (first_vector slave) + (k - 8))"

definition remap_writes :: "(u16 \<times> u8) list" where
  "remap_writes = [(0x20, 0x11), (0x80, 0), (0xA0, 0x11), (0x80, 0), (0x21, 0x20), (0x80, 0),
     (0xA1, 0x28), (0x80, 0), (0x21, 0x04), (0x80, 0), (0xA1, 0x02), (0x80, 0), (0x21, 0x01), (0x80, 0),
     (0xA1, 0x01), (0x80, 0), (0x21, 0), (0xA1, 0)]"

lemma pic_remap_writes: "port_log (pic_remap t) = port_log t @ remap_writes"
  by (simp add: pic_remap_def io_wait_def outb_def Let_def remap_writes_def)

lemma pic_remapped:
  "pic_run 0x20 remap_writes p = \<lparr>expects = 0, first_vector = 0x20, cascade = 0x04, mode = 0x01, line_mask = 0\<rparr>"
  "pic_run 0xA0 remap_writes p = \<lparr>expects = 0, first_vector = 0x28, cascade = 0x02, mode = 0x01, line_mask = 0\<rparr>"
  by (simp_all add: pic_run_def remap_writes_def pic_write_def)

lemma idt_init_log: "port_log (snd (idt_init isr irq addr s)) = port_log (snd s) @ remap_writes"
  by (cases s) (simp add: idt_init_def Let_def pic_remap_writes)

text \<open>C30: after \<open>idt_init\<close> every hardware interrupt reaches its stub: whatever the controllers' state
  was, both are operational with no line masked, and the gate of the vector that line \<open>k\<close> raises
  is present and leads to stub \<open>irq k\<close> in the kernel's code segment. The exceptions 0 to 31 lead
  to their stubs as well, and no other vector has a gate.\<close>

theorem idt_init_routes:
  assumes "idt_init isr irq addr (d, t) = (d', t')" "k < 16" "n < 256"
  defines "writes \<equiv> drop (length (port_log t)) (port_log t')"
  shows "let master = pic_run 0x20 writes p; slave = pic_run 0xA0 writes q; v = irq_vector master slave k in
      expects master = 0 \<and> expects slave = 0 \<and> line_mask master = 0 \<and> line_mask slave = 0 \<and> v = 32 + k
      \<and> gate_present (idt_entries d' ! v) \<and> gate_offset (idt_entries d' ! v) = irq k \<and> sel (idt_entries d' ! v) = 0x08
      \<and> (n < 32 \<longrightarrow> gate_present (idt_entries d' ! n) \<and> gate_offset (idt_entries d' ! n) = isr n)
      \<and> (48 \<le> n \<longrightarrow> \<not> gate_present (idt_entries d' ! n))"
proof -
  have d': "d' = fst (idt_init isr irq addr (d, t))" and t': "t' = snd (idt_init isr irq addr (d, t))"
    using assms(1) by simp_all
  have w: "writes = remap_writes" unfolding writes_def t' idt_init_log by simp
  have v: "irq_vector (pic_run 0x20 writes p) (pic_run 0xA0 writes q) k = 32 + k"
    using assms(2) by (simp add: w pic_remapped irq_vector_def)
  have g: "gate_present (idt_entries d' ! (32 + k)) \<and> gate_offset (idt_entries d' ! (32 + k)) = irq k
    \<and> sel (idt_entries d' ! (32 + k)) = 0x08"
    using idt_init_gates(1-3) [of "32 + k" isr irq addr "(d, t)"] assms(2) by (simp add: d' gate_present_def)
  show ?thesis
    using idt_init_gates(1,2) [OF assms(3), of isr irq addr "(d, t)"] g
    by (simp add: v Let_def) (simp add: w pic_remapped d' gate_present_def)
qed

definition zero_idt :: idt where
  "zero_idt = \<lparr>idt_entries = [], idtp = \<lparr>dt_limit = 0, dt_base = 0\<rparr>, interrupt_handlers = []\<rparr>"

definition some_pic :: pic where
  "some_pic = \<lparr>expects = 0, first_vector = 8, cascade = 0, mode = 0, line_mask = 0xFF\<rparr>"

theorem idt_init_routes_witness:
  "let (d, t) = idt_init (\<lambda>i. 0x1000 + of_nat i) (\<lambda>i. 0x2000 + of_nat i) 0x6000 (zero_idt, fresh_screen);
       w = drop (length (port_log fresh_screen)) (port_log t) in
     irq_vector (pic_run 0x20 w some_pic) (pic_run 0xA0 w some_pic) 9 = 41
     \<and> gate_offset (idt_entries d ! 41) = 0x2009 \<and> \<not> gate_present (idt_entries d ! 128)"
proof -
  obtain d t where i: "idt_init (\<lambda>i. 0x1000 + of_nat i) (\<lambda>i. 0x2000 + of_nat i) 0x6000 (zero_idt, fresh_screen) = (d, t)"
    by fastforce
  from idt_init_routes [OF i, of 9 128 some_pic some_pic] show ?thesis
    by (auto simp: i Let_def)
qed

section \<open>Dispatch\<close>

text \<open>Every hardware interrupt is acknowledged before its handler runs: the interrupt controller
  that raised it (and for lines 8 to 15 the one it is cascaded to) gets the end-of-interrupt word,
  and no other port is written; then the handler registered for the vector is called, if any.\<close>

theorem irq_acknowledged:
  assumes "length (interrupt_handlers d) = 256" "int_no regs = 32 + of_nat k" "k < 16"
  shows "\<exists>t'. irq_handler d regs t = Some (t', case interrupt_handlers d ! (32 + k) of Some f \<Rightarrow> Call f | None \<Rightarrow> Return)
    \<and> t' = t\<lparr>port_log := port_log t @ (if 8 \<le> k then [(0xA0, 0x20)] else []) @ [(0x20, 0x20)]\<rparr>"
proof -
  have k: "unat (of_nat k :: u32) = k" using assms(3) by (simp add: unat_of_nat)
  then have u: "unat (int_no regs) = 32 + k" using assms(2,3) by (simp add: unat_word_ariths)
  then have "int_no regs \<ge> 40 \<longleftrightarrow> 8 \<le> k" by (simp add: word_le_nat_alt)
  with u assms(1,3) show ?thesis
    by (auto simp: irq_handler_def Let_def get_at_def outb_def)
qed

definition zero_regs :: registers where
  "zero_regs = \<lparr>r_ds = 16, r_edi = 0, r_esi = 0, r_ebp = 0, r_esp = 0, r_ebx = 0, r_edx = 0, r_ecx = 0, r_eax = 0,
     int_no = 32, err_code = 0, r_eip = 0, r_cs = 8, r_eflags = 0, r_useresp = 0, r_ss = 0\<rparr>"

theorem irq_acknowledged_witness:
  "irq_handler ((register_interrupt_handler 32 Timer_Callback
      (zero_idt\<lparr>interrupt_handlers := replicate 256 None\<rparr>))) zero_regs fresh_screen
    = Some (fresh_screen\<lparr>port_log := [(0x20, 0x20)]\<rparr>, Call Timer_Callback)"
proof -
  let ?d = "register_interrupt_handler 32 Timer_Callback (zero_idt\<lparr>interrupt_handlers := replicate 256 None\<rparr>)"
  have h: "length (interrupt_handlers ?d) = 256" "interrupt_handlers ?d ! 32 = Some Timer_Callback"
    by (simp_all add: register_interrupt_handler_def)
  from irq_acknowledged [OF h(1), of zero_regs 0 fresh_screen] h(2) show ?thesis
    by (simp add: fresh_screen_def zero_regs_def)
qed

text \<open>The entry of the processor for vector \<open>n\<close>: a gate that is not present raises exception 11.\<close>

definition cpu_enter :: "idt \<Rightarrow> nat \<Rightarrow> nat" where
  "cpu_enter d n = (if gate_present (idt_entries d ! n) then n else 11)"

lemma panic_text:
  "panic 11 t = Some (andthen (terminal_write (10 # bytes ''  KERNEL PANIC: Exception 11  '' @ [10])
      (terminal_setcolor (vga_entry_color 15 4) t)) (\<lambda>t. Inr (terminal_setcolor (vga_entry_color 7 0) t)))"
  by (simp add: panic_def kprintf_def convert.simps print_int_def print_digits.simps byte_def)


end
