(* ===== verification/Syscall.thy ===== *)
theory Syscall
  imports FsSpec Switch Interrupts
begin

text \<open>
  The system calls \<^verbatim>\<open>src/syscall.c\<close>: one definition per call, on the state of the parts the calls
  reach, and the handler that dispatches on the number in \<open>eax\<close>. The calls take buffers and strings
  as byte lists (\<open>None\<close> is the null pointer), as the shell uses them; the handler reads them from
  the memory \<open>m\<close> at the addresses in the registers and stores them back. The keys that
  \<open>keyboard_getchar\<close> will deliver are those of the terminal's state. \<open>clock\<close> is the tick count seen
  by a waiting loop after each halt.
\<close>

section \<open>State and results\<close>

record sys =
  s_fs :: fs
  s_kern :: kern
  s_term :: screen
  s_timer :: timer

text \<open>The results: a stop (a fault, or waiting for ever), or a value with the new state.\<close>

definition or_fault :: "'a option \<Rightarrow> stop + 'a" where
  "or_fault r = (case r of None \<Rightarrow> Inl Fault | Some x \<Rightarrow> Inr x)"

definition err :: "errno \<Rightarrow> int" where
  "err e = - errno_code e"

definition to_int32 :: "nat \<Rightarrow> int" where
  "to_int32 n = sint (of_nat n :: u32)"

definition s_now :: "sys \<Rightarrow> u32" where
  "s_now s = timer_get_ticks (s_timer s)"

section \<open>Processes and time\<close>

definition sys_exit :: "int \<Rightarrow> sys \<Rightarrow> stop + sys \<times> int" where
  "sys_exit code s =
     (let p = current_pid (procs (s_kern s)) in
      if p > 1
      then andthen (or_fault (process_terminate (s_now s) p (s_kern s))) (\<lambda>(k, _). Inr (s\<lparr>s_kern := k\<rparr>, 0))
      else Inr (s, 0))"

definition sys_fork :: int where "sys_fork = err ENOSYS"

definition sys_waitpid :: "int \<Rightarrow> int" where "sys_waitpid p = err ENOSYS"

definition sys_execve :: "u32 \<Rightarrow> int" where "sys_execve path = err ENOSYS"

definition sys_getpid :: "sys \<Rightarrow> int" where
  "sys_getpid s = sint (current_pid (procs (s_kern s)))"

definition sys_kill :: "int \<Rightarrow> sys \<Rightarrow> stop + sys \<times> int" where
  "sys_kill p s =
     (if p \<le> 1 then Inr (s, err EPERM)
      else andthen (or_fault (process_terminate (s_now s) (word_of_int p) (s_kern s)))
             (\<lambda>(k, _). Inr (s\<lparr>s_kern := k\<rparr>, 0)))"

definition sys_sleep :: "(nat \<Rightarrow> u32) \<Rightarrow> u32 \<Rightarrow> stop + int" where
  "sys_sleep clock ticks =
     (case halt_until (clock 0) ticks clock 0 of None \<Rightarrow> Inl Waiting | Some _ \<Rightarrow> Inr 0)"

definition sys_yield :: int where "sys_yield = 0"

definition sys_uptime :: "sys \<Rightarrow> int" where "sys_uptime s = sint (s_now s)"

section \<open>Reading and writing\<close>

text \<open>Reading the keyboard into a buffer, from index \<open>i\<close> on, until a newline: the buffer, the keys
  left and the number of characters read.\<close>

fun read_keys :: "nat \<Rightarrow> nat \<Rightarrow> u8 list \<Rightarrow> u8 list \<Rightarrow> stop + u8 list \<times> u8 list \<times> nat" where
  "read_keys i 0 buf ks = Inr (buf, ks, i)"
| "read_keys i (Suc n) buf [] = Inl Waiting"
| "read_keys i (Suc n) buf (c # ks) =
     andthen (or_fault (put_at buf i c)) (\<lambda>buf.
       if c = 10 then Inr (buf, ks, i + 1) else read_keys (Suc i) n buf ks)"

definition sys_read :: "int \<Rightarrow> u8 list option \<Rightarrow> u32 \<Rightarrow> sys \<Rightarrow> stop + sys \<times> u8 list option \<times> int" where
  "sys_read fd bufp count s =
     (case bufp of
        None \<Rightarrow> Inr (s, None, err EFAULT)
      | Some buf \<Rightarrow>
          if fd = 0
          then andthen (read_keys 0 (unat count) buf (keys (s_term s))) (\<lambda>(buf, ks, n).
                 Inr (s\<lparr>s_term := (s_term s)\<lparr>keys := ks\<rparr>\<rparr>, Some buf, to_int32 n))
          else if fd \<ge> 3
          then andthen (or_fault (fs_read_fd (fd - 3) bufp count (s_fs s))) (\<lambda>(f, bufp, r).
                 Inr (s\<lparr>s_fs := f\<rparr>, bufp, ret_int r))
          else Inr (s, bufp, err EBADF))"

definition write_term :: "u8 list \<Rightarrow> u32 \<Rightarrow> screen \<Rightarrow> screen_result" where
  "write_term buf count t =
     (if unat count \<le> length buf then terminal_write (take (unat count) buf) t else Inl Fault)"

definition sys_write :: "int \<Rightarrow> u8 list option \<Rightarrow> u32 \<Rightarrow> sys \<Rightarrow> stop + sys \<times> int" where
  "sys_write fd bufp count s =
     (case bufp of
        None \<Rightarrow> Inr (s, err EFAULT)
      | Some buf \<Rightarrow>
          if fd = 1
          then andthen (write_term buf count (s_term s)) (\<lambda>t.
                 Inr (s\<lparr>s_term := t\<rparr>, to_int32 (unat count)))
          else if fd = 2
          then andthen (write_term buf count (terminal_setcolor (vga_entry_color 4 0) (s_term s))) (\<lambda>t.
                 Inr (s\<lparr>s_term := terminal_setcolor (vga_entry_color 7 0) t\<rparr>, to_int32 (unat count)))
          else if fd \<ge> 3
          then andthen (or_fault (fs_write_fd (fd - 3) bufp count (s_fs s))) (\<lambda>(f, r).
                 Inr (s\<lparr>s_fs := f\<rparr>, ret_int r))
          else Inr (s, err EBADF))"

section \<open>Files\<close>

definition sys_open :: "u8 list option \<Rightarrow> u32 \<Rightarrow> sys \<Rightarrow> stop + sys \<times> int" where
  "sys_open path flgs s =
     (if path = None then Inr (s, err EFAULT)
      else andthen (or_fault (fs_open (s_now s) path flgs (s_fs s))) (\<lambda>(f, r).
        Inr (s\<lparr>s_fs := f\<rparr>, if ret_int r \<ge> 0 then ret_int r + 3 else ret_int r)))"

definition sys_close :: "int \<Rightarrow> sys \<Rightarrow> sys \<times> int" where
  "sys_close fd s =
     (if fd < 3 then (s, err EBADF)
      else case fs_close (fd - 3) (s_fs s) of (f, r) \<Rightarrow> (s\<lparr>s_fs := f\<rparr>, ret_int r))"

definition sys_unlink :: "u8 list option \<Rightarrow> sys \<Rightarrow> sys \<times> int" where
  "sys_unlink path s =
     (case path of None \<Rightarrow> (s, err EFAULT)
      | Some nm \<Rightarrow> case fs_unlink nm (s_fs s) of (f, r) \<Rightarrow> (s\<lparr>s_fs := f\<rparr>, ret_int r))"

definition sys_chdir :: "u8 list option \<Rightarrow> sys \<Rightarrow> sys \<times> int" where
  "sys_chdir path s =
     (case path of None \<Rightarrow> (s, err EFAULT)
      | Some nm \<Rightarrow> case fs_cd nm (s_fs s) of (f, r) \<Rightarrow> (s\<lparr>s_fs := f\<rparr>, ret_int r))"

definition sys_lseek :: "int \<Rightarrow> int \<Rightarrow> int \<Rightarrow> sys \<Rightarrow> stop + sys \<times> int" where
  "sys_lseek fd off whence s =
     (if fd < 3 then Inr (s, err EBADF)
      else andthen (or_fault (fs_lseek (fd - 3) off whence (s_fs s))) (\<lambda>(f, r).
        Inr (s\<lparr>s_fs := f\<rparr>, ret_int r)))"

definition sys_mkdir :: "u8 list option \<Rightarrow> sys \<Rightarrow> stop + sys \<times> int" where
  "sys_mkdir dirname s =
     (if dirname = None then Inr (s, err EFAULT)
      else andthen (or_fault (fs_mkdir (s_now s) dirname (s_fs s))) (\<lambda>(f, r).
        Inr (s\<lparr>s_fs := f\<rparr>, ret_int r)))"

definition sys_rmdir :: "u8 list option \<Rightarrow> sys \<Rightarrow> sys \<times> int" where
  "sys_rmdir dirname s =
     (case dirname of None \<Rightarrow> (s, err EFAULT)
      | Some nm \<Rightarrow> case fs_rmdir nm (s_fs s) of (f, r) \<Rightarrow> (s\<lparr>s_fs := f\<rparr>, ret_int r))"

definition sys_stat :: "u8 list option \<Rightarrow> fs_stat_t option \<Rightarrow> sys \<Rightarrow> fs_stat_t option \<times> int" where
  "sys_stat path statbuf s =
     (if path = None \<or> statbuf = None then (statbuf, err EFAULT)
      else case fs_stat path statbuf (s_fs s) of (st, r) \<Rightarrow> (st, ret_int r))"

definition sys_getcwd :: "u8 list option \<Rightarrow> u32 \<Rightarrow> sys \<Rightarrow> stop + u8 list option \<times> int" where
  "sys_getcwd bufp len s =
     (if bufp = None then Inr (None, err EFAULT)
      else andthen (or_fault (fs_getcwd bufp len (s_fs s))) (\<lambda>(b, r). Inr (b, ret_int r)))"

section \<open>The memory the pointers point to\<close>

type_synonym memory = "u32 \<Rightarrow> u8"

text \<open>The string at an address; \<open>None\<close> when no NUL follows.\<close>

partial_function (option) cstring_at :: "memory \<Rightarrow> u32 \<Rightarrow> u8 list option" where
  "cstring_at m a = (if m a = 0 then Some [] else Option.bind (cstring_at m (a + 1)) (\<lambda>s. Some (m a # s)))"

definition bytes_at :: "memory \<Rightarrow> u32 \<Rightarrow> nat \<Rightarrow> u8 list" where
  "bytes_at m a n = map (\<lambda>i. m (a + of_nat i)) [0 ..< n]"

definition store_bytes :: "u32 \<Rightarrow> u8 list \<Rightarrow> memory \<Rightarrow> memory" where
  "store_bytes a bs m = (\<lambda>x. if unat (x - a) < length bs then bs ! unat (x - a) else m x)"

definition ptr_bytes :: "memory \<Rightarrow> u32 \<Rightarrow> u32 \<Rightarrow> u8 list option" where
  "ptr_bytes m a n = (if a = 0 then None else Some (bytes_at m a (unat n)))"

definition ptr_string :: "memory \<Rightarrow> u32 \<Rightarrow> stop + u8 list option" where
  "ptr_string m a =
     (if a = 0 then Inr None else case cstring_at m a of None \<Rightarrow> Inl Waiting | Some s \<Rightarrow> Inr (Some s))"

definition store_ptr :: "u32 \<Rightarrow> u8 list option \<Rightarrow> memory \<Rightarrow> memory" where
  "store_ptr a b m = (case b of None \<Rightarrow> m | Some bs \<Rightarrow> store_bytes a bs m)"

text \<open>The bytes of a word, and \<open>fs_stat_t\<close> as the compiler lays it out.\<close>

definition word_bytes :: "u32 \<Rightarrow> u8 list" where
  "word_bytes w = [ucast w, ucast (drop_bit 8 w), ucast (drop_bit 16 w), ucast (drop_bit 24 w)]"

definition load_stat :: "memory \<Rightarrow> u32 \<Rightarrow> fs_stat_t option" where
  "load_stat m a =
     (if a = 0 then None
      else Some \<lparr>st_type = m a, st_size = le32 m (a + 4), st_created_tick = le32 m (a + 8),
                 st_parent = sint (le32 m (a + 12))\<rparr>)"

definition store_stat :: "u32 \<Rightarrow> fs_stat_t option \<Rightarrow> memory \<Rightarrow> memory" where
  "store_stat a st m =
     (case st of None \<Rightarrow> m
      | Some v \<Rightarrow> store_bytes (a + 4) (word_bytes (st_size v) @ word_bytes (st_created_tick v)
          @ word_bytes (word_of_int (st_parent v))) (m(a := st_type v)))"

section \<open>The handler\<close>

definition with_string :: "memory \<Rightarrow> u32 \<Rightarrow> (u8 list option \<Rightarrow> stop + sys \<times> int) \<Rightarrow> stop + (sys \<times> memory) \<times> int" where
  "with_string m a f = andthen (ptr_string m a) (\<lambda>path. andthen (f path) (\<lambda>(s, r). Inr ((s, m), r)))"

definition syscall_dispatch :: "(nat \<Rightarrow> u32) \<Rightarrow> registers \<Rightarrow> sys \<times> memory \<Rightarrow> stop + (sys \<times> memory) \<times> int" where
  "syscall_dispatch clock regs sm = (case sm of (s, m) \<Rightarrow>
     let nr = r_eax regs; b = r_ebx regs; c = r_ecx regs; d = r_edx regs;
         keep = (\<lambda>(s, r). Inr ((s, m), r)) in
     if nr = 1 then andthen (sys_exit (sint b) s) keep
     else if nr = 2 then keep (s, sys_fork)
     else if nr = 3
     then andthen (sys_read (sint b) (ptr_bytes m c d) d s) (\<lambda>(s, buf, r). Inr ((s, store_ptr c buf m), r))
     else if nr = 4 then andthen (sys_write (sint b) (ptr_bytes m c d) d s) keep
     else if nr = 5 then with_string m b (\<lambda>path. sys_open path c s)
     else if nr = 6 then keep (sys_close (sint b) s)
     else if nr = 7 then keep (s, sys_waitpid (sint b))
     else if nr = 10 then with_string m b (\<lambda>path. Inr (sys_unlink path s))
     else if nr = 11 then keep (s, sys_execve b)
     else if nr = 12 then with_string m b (\<lambda>path. Inr (sys_chdir path s))
     else if nr = 19 then andthen (sys_lseek (sint b) (sint c) (sint d) s) keep
     else if nr = 20 then keep (s, sys_getpid s)
     else if nr = 37 then andthen (sys_kill (sint b) s) keep
     else if nr = 39 then with_string m b (\<lambda>path. sys_mkdir path s)
     else if nr = 40 then with_string m b (\<lambda>path. Inr (sys_rmdir path s))
     else if nr = 18
     then andthen (ptr_string m b) (\<lambda>path.
            case sys_stat path (load_stat m c) s of (st, r) \<Rightarrow>
              Inr ((s, if r = 0 then store_stat c st m else m), r))
     else if nr = 183
     then andthen (sys_getcwd (ptr_bytes m b c) c s) (\<lambda>(buf, r). Inr ((s, store_ptr b buf m), r))
     else if nr = 162 then andthen (sys_sleep clock b) (\<lambda>r. keep (s, r))
     else if nr = 158 then keep (s, sys_yield)
     else if nr = 100 then keep (s, sys_uptime s)
     else keep (s, err ENOSYS))"

definition syscall_handler :: "(nat \<Rightarrow> u32) \<Rightarrow> registers \<Rightarrow> sys \<times> memory \<Rightarrow> stop + (sys \<times> memory) \<times> registers" where
  "syscall_handler clock regs sm =
     andthen (syscall_dispatch clock regs sm) (\<lambda>(sm, r). Inr (sm, regs\<lparr>r_eax := word_of_int r\<rparr>))"

end
