(* ===== verification/SyscallProps.thy ===== *)
theory SyscallProps
  imports Syscall
begin

text \<open>
  Properties of the system calls: safety of the handler for every content of the registers and
  the memory, the file calls end to end, reading a line from the keyboard, error numbers.
\<close>

section \<open>Strings in memory\<close>

lemma cstring_at_some:
  assumes "m x = 0"
  shows "\<exists>s. cstring_at m a = Some s \<and> 0 \<notin> set s"
proof (induction "unat (x - a)" arbitrary: a)
  case 0
  then have "a = x" by (simp add: unat_eq_zero)
  with assms show ?case by (subst cstring_at.simps) simp
next
  case (Suc n)
  show ?case
  proof (cases "m a = 0")
    case True
    then show ?thesis by (subst cstring_at.simps) simp
  next
    case False
    have "unat (x - (a + 1)) = unat (x - a - 1)" by (simp add: algebra_simps)
    also have "\<dots> = unat (x - a) - 1"
      using Suc(2) by (intro unat_minus_one) (metis nat.distinct(1) unat_0)
    finally have "n = unat (x - (a + 1))" using Suc(2) by simp
    from Suc(1) [OF this] obtain s where "cstring_at m (a + 1) = Some s" "0 \<notin> set s" by blast
    with False show ?thesis by (subst cstring_at.simps) simp
  qed
qed

lemma ptr_string_some: "m x = 0 \<Longrightarrow> \<exists>p. ptr_string m a = Inr p"
  using cstring_at_some [of m x a] by (auto simp: ptr_string_def)

lemma ptr_bytes_length: "ptr_bytes m a n = Some b \<Longrightarrow> length b = unat n"
  by (auto simp: ptr_bytes_def bytes_at_def split: if_splits)

section \<open>Safety of the handler\<close>

definition sys_inv :: "sys \<Rightarrow> bool" where
  "sys_inv s \<longleftrightarrow> fs_inv (s_fs s) \<and> kern_inv (s_kern s) \<and> vga_ok (s_term s)"

lemma sys_inv_upd:
  "sys_inv s \<Longrightarrow> fs_inv f \<Longrightarrow> sys_inv (s\<lparr>s_fs := f\<rparr>)"
  "sys_inv s \<Longrightarrow> kern_inv k \<Longrightarrow> sys_inv (s\<lparr>s_kern := k\<rparr>)"
  "sys_inv s \<Longrightarrow> vga_ok t \<Longrightarrow> sys_inv (s\<lparr>s_term := t\<rparr>)"
  by (simp_all add: sys_inv_def)

text \<open>A result that is no fault, with the invariant.\<close>

definition safe :: "('a \<Rightarrow> sys) \<Rightarrow> stop + 'a \<Rightarrow> bool" where
  "safe st r \<longleftrightarrow> (case r of Inl e \<Rightarrow> e = Waiting | Inr x \<Rightarrow> sys_inv (st x))"

lemma safe_simps [simp]:
  "safe st (Inr x) = sys_inv (st x)" "safe st (Inl Waiting)" "\<not> safe st (Inl Fault)"
  by (simp_all add: safe_def)

lemma safe_andthen:
  assumes "safe st r" "\<And>x. sys_inv (st x) \<Longrightarrow> safe st' (f x)"
  shows "safe st' (andthen r f)"
  using assms by (cases r) (auto simp: safe_def)

lemma or_fault_simps [simp]: "or_fault (Some x) = Inr x" "or_fault None = Inl Fault"
  by (simp_all add: or_fault_def)

lemma process_terminate_total:
  assumes "kern_inv k" "klog_total (log k) < 2147483647"
  shows "\<exists>k' r. process_terminate now p k = Some (k', r) \<and> kern_inv k'"
proof -
  have "klog_inv (log k)" using assms(1) by (simp add: kern_inv_def)
  from klog_step_inv [OF this assms(2)] obtain l where
    "klog now KLOG_INFO (bytes ''process terminated'') (log k) = Some l" by blast
  then have "\<exists>k' r. process_terminate now p k = Some (k', r)"
    by (auto simp: process_terminate_def Let_def simp del: bytes_simps(1,2) split: option.split)
  with process_terminate_inv [OF assms(1)] show ?thesis by blast
qed

lemma sys_exit_safe:
  "sys_inv s \<Longrightarrow> klog_total (log (s_kern s)) < 2147483647 \<Longrightarrow> safe fst (sys_exit c s)"
  using process_terminate_total [of "s_kern s" "s_now s" "current_pid (procs (s_kern s))"]
  by (auto simp: sys_exit_def Let_def sys_inv_def)

lemma sys_kill_safe:
  "sys_inv s \<Longrightarrow> klog_total (log (s_kern s)) < 2147483647 \<Longrightarrow> safe fst (sys_kill p s)"
  using process_terminate_total [of "s_kern s" "s_now s" "word_of_int p"]
  by (auto simp: sys_kill_def Let_def sys_inv_def)

lemma read_keys_cases:
  assumes "i + n \<le> length buf"
  shows "read_keys i n buf ks = Inl Waiting
    \<or> (\<exists>b ks' k. read_keys i n buf ks = Inr (b, ks', k) \<and> length b = length buf \<and> i \<le> k \<and> k \<le> i + n)"
  using assms
proof (induction i n buf ks rule: read_keys.induct)
  case (3 i n buf c ks)
  have p: "put_at buf i c = Some (buf[i := c])" using 3(2) by (simp add: put_at_def)
  show ?case
  proof (cases "c = 10")
    case False
    from 3(1) [OF False, of "buf[i := c]"] 3(2) False show ?thesis by (fastforce simp: p)
  next
    case True
    with 3(2) show ?thesis by (simp add: put_at_def)
  qed
qed auto

lemma sys_read_safe:
  assumes "sys_inv s" "\<forall>b. bufp = Some b \<longrightarrow> unat count \<le> length b"
  shows "safe fst (sys_read fd bufp count s)"
proof (cases bufp)
  case None
  with assms show ?thesis by (simp add: sys_read_def)
next
  case (Some b)
  with assms read_keys_cases [of 0 "unat count" b "keys (s_term s)"] fs_read_fd_inv [of "s_fs s" bufp count "fd - 3"]
  show ?thesis by (auto simp: sys_read_def sys_inv_def vga_ok_def)
qed

lemma write_term_safe:
  assumes "vga_ok t" "unat count \<le> length b"
  shows "write_term b count t = Inl Waiting \<or> (\<exists>t'. write_term b count t = Inr t' \<and> vga_ok t')"
  using terminal_write_good [OF assms(1), of "take (unat count) b"] assms(2)
  by (auto simp: write_term_def good_outcome_def split: sum.splits stop.splits)

lemma sys_write_safe:
  assumes "sys_inv s" "\<forall>b. bufp = Some b \<longrightarrow> unat count \<le> length b"
  shows "safe fst (sys_write fd bufp count s)"
proof (cases bufp)
  case None
  with assms show ?thesis by (simp add: sys_write_def)
next
  case (Some b)
  have v: "vga_ok (s_term s)" "vga_ok (terminal_setcolor c (s_term s))" for c
    using assms(1) by (simp_all add: sys_inv_def vga_ok_def terminal_setcolor_def)
  from Some assms write_term_safe [OF v(1), of count b] write_term_safe [OF v(2), of count b "vga_entry_color 4 0"]
    fs_write_fd_inv [of "s_fs s" bufp count "fd - 3"]
  show ?thesis
    by (auto simp: sys_write_def sys_inv_def terminal_setcolor_def vga_ok_def)
qed

lemma sys_file_calls_safe:
  assumes "sys_inv s"
  shows "safe fst (sys_open path flgs s)" "safe fst (sys_mkdir path s)" "sys_inv (fst (sys_close fd s))"
    "sys_inv (fst (sys_unlink path s))" "sys_inv (fst (sys_chdir path s))" "sys_inv (fst (sys_rmdir path s))"
proof -
  have f: "fs_inv (s_fs s)" using assms by (simp add: sys_inv_def)
  from fs_open_inv [OF f, of "s_now s" path flgs] assms show "safe fst (sys_open path flgs s)"
    by (auto simp: sys_open_def sys_inv_upd)
  from fs_mkdir_inv [OF f, of "s_now s" path] assms show "safe fst (sys_mkdir path s)"
    by (auto simp: sys_mkdir_def sys_inv_upd)
  from fs_close_inv [OF f, of "fd - 3"] assms show "sys_inv (fst (sys_close fd s))"
    by (simp add: sys_close_def sys_inv_upd split_beta)
  from fs_unlink_inv [OF f] assms show "sys_inv (fst (sys_unlink path s))"
    by (auto simp: sys_unlink_def sys_inv_upd split_beta split: option.split)
  from fs_cd_inv [OF f] assms show "sys_inv (fst (sys_chdir path s))"
    by (auto simp: sys_chdir_def sys_inv_upd split_beta split: option.split)
  from fs_rmdir_inv [OF f] assms show "sys_inv (fst (sys_rmdir path s))"
    by (auto simp: sys_rmdir_def sys_inv_upd split_beta split: option.split)
qed

lemma sys_lseek_safe:
  assumes "sys_inv s" "- 2147483648 \<le> off" "off < 2147479553"
  shows "safe fst (sys_lseek fd off whence s)"
  using fs_lseek_inv [of "s_fs s" off "fd - 3" whence] assms
  by (auto simp: sys_lseek_def sys_inv_def)

lemma sys_getcwd_safe:
  assumes "sys_inv s" "\<forall>b. bufp = Some b \<longrightarrow> unat n \<le> length b"
  shows "\<exists>x. sys_getcwd bufp n s = Inr x"
proof (cases bufp)
  case None
  then show ?thesis by (simp add: sys_getcwd_def)
next
  case (Some b)
  have "fs_inv (s_fs s)" using assms(1) by (simp add: sys_inv_def)
  from fs_exec_safe [OF this, of "Getcwd bufp n" 0] assms(2) Some show ?thesis
    by (auto simp: sys_getcwd_def)
qed

lemma with_string_safe:
  assumes "m x = 0" "\<And>path. safe fst (f path)"
  shows "safe (fst \<circ> fst) (with_string m a f)"
proof -
  obtain p where "ptr_string m a = Inr p" using ptr_string_some [of m x a] assms(1) by blast
  then show ?thesis using assms(2) [of p] by (cases "f p") (auto simp: with_string_def safe_def)
qed

lemma safe_keep: "safe fst r \<Longrightarrow> safe (fst \<circ> fst) (andthen r (\<lambda>(s, v). Inr ((s, m), v)))"
  by (cases r) (auto simp: safe_def)


section \<open>Files through the system calls\<close>

lemma ret_int_nonneg: "0 \<le> ret_int r \<Longrightarrow> \<exists>n. r = Inr n \<and> ret_int r = int n"
  using ret_int_neg_iff [of r] by (cases r) auto

lemma andthen_fault_Inr:
  "andthen (or_fault r) f = Inr y \<longleftrightarrow> (\<exists>x. r = Some x \<and> f x = Inr y)"
  by (cases r) auto

lemma sys_open_fd:
  assumes "sys_open (Some nm) flgs s = Inr (s1, fd)" "0 \<le> fd"
  obtains f n where "fs_open (s_now s) (Some nm) flgs (s_fs s) = Some (f, Inr n)" "fd = int n + 3" "s1 = s\<lparr>s_fs := f\<rparr>"
proof -
  from assms(1) obtain f r where f: "fs_open (s_now s) (Some nm) flgs (s_fs s) = Some (f, r)"
    "s1 = s\<lparr>s_fs := f\<rparr>" "fd = (if ret_int r \<ge> 0 then ret_int r + 3 else ret_int r)"
    by (auto simp: sys_open_def andthen_fault_Inr)
  with assms(2) ret_int_nonneg [of r] that show thesis by (auto split: if_splits)
qed

text \<open>C18: the file calls end to end: what is written through a descriptor that \<open>sys_open\<close> returned is
  what \<open>sys_read\<close> delivers after seeking back, and the descriptor is never one of the three
  standard ones.\<close>

theorem sys_file_roundtrip:
  assumes "sys_inv s" "sys_open (Some nm) flgs s = Inr (s1, fd)" "0 \<le> fd"
    and "flgs AND 3 = O_RDWR" "flgs AND O_APPEND = 0"
    and "sys_write fd (Some buf) len s1 = Inr (s2, k)" "0 \<le> k" "unat len \<le> length buf" "nat k \<le> length buf2"
  shows "3 \<le> fd \<and> fd < 19 \<and> (\<exists>s3 s4. sys_lseek fd 0 SEEK_SET s2 = Inr (s3, 0)
    \<and> sys_read fd (Some buf2) (word_of_int k) s3 = Inr (s4, Some (take (nat k) buf @ drop (nat k) buf2), k))"
proof -
  from assms(2,3) obtain f n where o: "fs_open (s_now s) (Some nm) flgs (s_fs s) = Some (f, Inr n)" "fd = int n + 3"
    and s1: "s1 = s\<lparr>s_fs := f\<rparr>" by (rule sys_open_fd)
  have inv: "fs_inv (s_fs s)" using assms(1) by (simp add: sys_inv_def)
  have invf: "fs_inv f" using fs_open_inv [OF inv, of "s_now s" "Some nm" flgs] o(1) by auto
  from fs_open_opens [OF inv o(1)] assms(5) have fd: "n < 16" "fd_ok (int n) f" "offset (the_fd (int n) f) = 0"
    "flags (the_fd (int n) f) = flgs" by auto
  from assms(6) o(2) s1 obtain g r where w: "fs_write_fd (int n) (Some buf) len f = Some (g, r)"
    "s2 = s1\<lparr>s_fs := g\<rparr>" "k = ret_int r"
    by (auto simp: sys_write_def andthen_fault_Inr)
  with assms(7) ret_int_nonneg [of r] obtain j where j: "r = Inr j" "k = int j" by auto
  have "flags (the_fd (int n) f) AND 3 = O_RDWR" "flags (the_fd (int n) f) AND O_APPEND = 0"
    "unat (offset (the_fd (int n) f)) \<le> unat (node_size (fd_node (int n) f))" "j \<le> length buf2"
    using fd assms(4,5,9) j by simp_all
  from fs_write_then_read [OF invf fd(2) this(1,2) assms(8) this(3) w(1) [unfolded j(1)] this(4)]
  obtain g2 g3 where "fs_lseek (int n) 0 SEEK_SET g = Some (g2, Inr 0)"
    "fs_read_fd (int n) (Some buf2) (of_nat j) g2 = Some (g3, Some (take j buf @ drop j buf2), Inr j)"
    using fd(3) by auto
  then show ?thesis
    using fd(1) j by (simp add: o(2) w(2) sys_lseek_def sys_read_def)
qed

definition line_of :: "nat \<Rightarrow> u8 list \<Rightarrow> u8 list option" where
  "line_of n ks =
     (let l = takeWhile (\<lambda>c. c \<noteq> 10) (take n ks) in
      if length l = n then Some l
      else if length l < length ks \<and> length l < n then Some (l @ [10]) else None)"

lemma read_keys_line:
  assumes "i + n \<le> length buf"
  shows "read_keys i n buf ks = (case line_of n ks of
      None \<Rightarrow> Inl Waiting
    | Some l \<Rightarrow> Inr (take i buf @ l @ drop (i + length l) buf, drop (length l) ks, i + length l))"
  using assms
proof (induction i n buf ks rule: read_keys.induct)
  case (1 i buf ks)
  then show ?case by (simp add: line_of_def)
next
  case (2 i n buf)
  then show ?case by (simp add: line_of_def)
next
  case (3 i n buf c ks)
  have p: "put_at buf i c = Some (buf[i := c])" using 3(2) by (simp add: put_at_def)
  have t: "take (Suc i) (buf[i := c]) = take i buf @ [c]" using 3(2) by (simp add: take_list_update_append)
  show ?case
  proof (cases "c = 10")
    case True
    then have "line_of (Suc n) (c # ks) = Some [10]" by (simp add: line_of_def Let_def)
    moreover have "buf[i := c] = take i buf @ [c] @ drop (Suc i) buf"
      using 3(2) by (simp add: upd_conv_take_nth_drop)
    ultimately show ?thesis using True p by simp
  next
    case False
    have l: "line_of (Suc n) (c # ks) = map_option (\<lambda>l. c # l) (line_of n ks)"
      using False by (simp add: line_of_def Let_def)
    have len: "Suc i + n \<le> length (buf[i := c])" using 3(2) by simp
    from 3(1) [OF False, of "buf[i := c]"] len False p t l show ?thesis
      by (cases "line_of n ks") (simp_all add: drop_update_cancel)
  qed
qed

text \<open>C35: the keyboard as a file: \<open>sys_read\<close> on descriptor 0 takes the characters typed up to and
  including the first newline, or as many as the buffer is asked to hold if the line is longer,
  and leaves the rest for the next call; until then it waits.\<close>

theorem sys_read_keyboard_line:
  assumes "unat count \<le> length buf"
  shows "sys_read 0 (Some buf) count s = (case line_of (unat count) (keys (s_term s)) of
      None \<Rightarrow> Inl Waiting
    | Some l \<Rightarrow> Inr (s\<lparr>s_term := (s_term s)\<lparr>keys := drop (length l) (keys (s_term s))\<rparr>\<rparr>,
        Some (l @ drop (length l) buf), to_int32 (length l)))"
  using read_keys_line [of 0 "unat count" buf "keys (s_term s)"] assms
  by (auto simp: sys_read_def split: option.split)

section \<open>Numbers and errors\<close>

text \<open>Seventeen calls are implemented; every other number, also the stubs 2, 7 and 11, is answered
  with -ENOSYS in \<open>eax\<close> and has no effect.\<close>

theorem syscall_not_implemented:
  assumes "r_eax regs \<notin> {1, 3, 4, 5, 6, 10, 12, 18, 19, 20, 37, 39, 40, 100, 158, 162, 183}"
  shows "syscall_handler clock regs (s, m) = Inr ((s, m), regs\<lparr>r_eax := - 38\<rparr>)"
  using assms
  by (auto simp: syscall_handler_def syscall_dispatch_def Let_def sys_fork_def sys_waitpid_def sys_execve_def err_def)

text \<open>\<open>sys_kill\<close> ends the process it is given and no other, but it answers 0 also for a process
  that does not exist; the idle process and the shell are protected with -EPERM.\<close>

theorem sys_kill_correct:
  assumes "sys_inv s" "klog_total (log (s_kern s)) < 2147483647" "p < 2147483648"
  defines "slot \<equiv> \<lambda>s q. find_slot_by_pid q (procs (s_kern s))"
  shows "if p \<le> 1 then sys_kill p s = Inr (s, - 1)
    else \<exists>s'. sys_kill p s = Inr (s', 0) \<and> slot s' (word_of_int p) = None
      \<and> (slot s (word_of_int p) = None \<longrightarrow> s' = s) \<and> (\<forall>q. q \<noteq> word_of_int p \<longrightarrow> slot s' q = slot s q)"
proof (cases "p \<le> 1")
  case True
  then show ?thesis by (simp add: sys_kill_def err_def)
next
  case False
  let ?p = "word_of_int p :: u32" and ?k = "s_kern s"
  have kinv: "kern_inv ?k" using assms(1) by (simp add: sys_inv_def)
  then have ok: "procs_ok (procs ?k)" by (simp add: kern_inv_def)
  have len: "length (proc_table (procs ?k)) = 16" by (rule procs_ok_length [OF ok])
  have "uint ?p = p" using False assms(3) by (simp add: uint_word_of_int)
  then have p1: "\<not> ?p \<le> 1" using False by (simp add: word_le_def)
  show ?thesis
  proof (cases "slot s ?p")
    case None
    then have "sys_kill p s = Inr (s, 0)"
      using False by (simp add: sys_kill_def process_terminate_def slot_def)
    with None False show ?thesis by simp
  next
    case (Some i)
    from process_terminate_total [OF kinv assms(2), of "s_now s" ?p] obtain k' r where
      k': "process_terminate (s_now s) ?p ?k = Some (k', r)" "kern_inv k'" by blast
    have tab: "\<exists>q. proc_table (procs k') = (proc_table (procs ?k))[i := q] \<and> \<not> p_in_use q"
      and r: "r = 0"
      using k'(1) Some p1
      by (auto simp: process_terminate_def slot_def Let_def bind_eq_Some_conv simp del: bytes_simps(1,2)
          split: if_splits)
    from tab obtain q where q: "proc_table (procs k') = (proc_table (procs ?k))[i := q]" "\<not> p_in_use q" by blast
    have ok': "procs_ok (procs k')" using k'(2) by (simp add: kern_inv_def)
    have i: "i < 16" "p_in_use (proc_table (procs ?k) ! i)" "pid (proc_table (procs ?k) ! i) = ?p"
      using find_slotD [of ?p "procs ?k" i] Some by (simp_all add: slot_def)
    have other: "find_slot_by_pid x (procs k') = (if x = ?p then None else find_slot_by_pid x (procs ?k))" for x
    proof -
      have "find_slot_by_pid x (procs k') = Some j \<longleftrightarrow> x \<noteq> ?p \<and> find_slot_by_pid x (procs ?k) = Some j" for j
        using q i len procs_ok_unique [OF ok, of i j]
        by (auto simp: find_slot_iff [OF ok] find_slot_iff [OF ok'] nth_list_update)
      then show ?thesis by (metis not_None_eq)
    qed
    have "sys_kill p s = Inr (s\<lparr>s_kern := k'\<rparr>, 0)" using False k'(1) r by (simp add: sys_kill_def)
    with False Some other show ?thesis by (auto simp: slot_def)
  qed
qed

section \<open>Witnesses\<close>

text \<open>The kernel as booted, with one file and three ticks on the clock.\<close>

definition boot_sys :: sys where
  "boot_sys = \<lparr>s_fs = one_file, s_kern = boot_kern, s_term = fresh_screen,
     s_timer = timer_start\<lparr>tick_count := 3\<rparr>\<rparr>"

lemma boot_sys_facts: "sys_inv boot_sys" "klog_total (log (s_kern boot_sys)) < 2147483647" "s_now boot_sys = 3"
  using boot_kern_facts one_file_inv fresh_screen_ok
  by (simp_all add: boot_sys_def sys_inv_def s_now_def timer_get_ticks_def)


theorem syscall_not_implemented_witness:
  "syscall_handler (\<lambda>_. 0) (zero_regs\<lparr>r_eax := 2\<rparr>) (boot_sys, (\<lambda>_. 0))
    = Inr ((boot_sys, (\<lambda>_. 0)), zero_regs\<lparr>r_eax := - 38\<rparr>)"
  using syscall_not_implemented [of "zero_regs\<lparr>r_eax := 2\<rparr>" "\<lambda>_. 0" boot_sys "\<lambda>_. 0"] by simp

theorem sys_kill_correct_witness: "\<exists>s'. sys_kill 7 boot_sys = Inr (s', 0)"
  using sys_kill_correct [OF boot_sys_facts(1,2), of 7] by auto

theorem sys_read_keyboard_line_witness:
  "sys_read 0 (Some (bytes ''....'')) 4 (boot_sys\<lparr>s_term := fresh_screen\<lparr>keys := [104, 105, 10, 120]\<rparr>\<rparr>)
    = Inr (boot_sys\<lparr>s_term := fresh_screen\<lparr>keys := [120]\<rparr>\<rparr>, Some [104, 105, 10, byte CHR ''.''], 3)"
proof -
  have l: "line_of 4 [104, 105, 10, 120] = Some [104, 105, 10]" by (simp add: line_of_def)
  show ?thesis
    using sys_read_keyboard_line [of 4 "bytes ''....''" "boot_sys\<lparr>s_term := fresh_screen\<lparr>keys := [104, 105, 10, 120]\<rparr>\<rparr>"]
    by (simp add: l to_int32_def)
qed

theorem sys_file_roundtrip_witness:
  "\<exists>s1 s2 s3 s4. sys_open (Some (bytes ''a'')) O_RDWR boot_sys = Inr (s1, 3)
    \<and> sys_write 3 (Some (bytes ''QRST'')) 4 s1 = Inr (s2, 4) \<and> sys_lseek 3 0 SEEK_SET s2 = Inr (s3, 0)
    \<and> sys_read 3 (Some (bytes ''......'')) 4 s3 = Inr (s4, Some (bytes ''QRST..''), 4)"
proof -
  define f where "f = set_fd 0 (open_rw\<lparr>offset := 0\<rparr>) one_file"
  define s1 where "s1 = boot_sys\<lparr>s_fs := f\<rparr>"
  have o: "fs_open 3 (Some (bytes ''a'')) O_RDWR one_file = Some (f, Inr 0)"
    unfolding f_def by (rule one_file_open)
  then have so: "sys_open (Some (bytes ''a'')) O_RDWR boot_sys = Inr (s1, 3)"
    by (simp add: sys_open_def boot_sys_facts(3) s1_def del: bytes_simps(1,2)) (simp add: boot_sys_def)
  have inv: "fs_inv f" using fs_open_inv [OF one_file_inv(1), of 3 "Some (bytes ''a'')" O_RDWR] o by auto
  have len: "length (fs_fd_table one_file) = 16" using one_file_inv(1) by (simp add: fs_shapeD)
  have ok: "fd_ok 0 f" "the_fd 0 f = open_rw\<lparr>offset := 0\<rparr>"
    using len by (simp_all add: f_def fd_ok_def the_fd_def open_rw_def)
  have wl: "write_off (open_rw\<lparr>offset := 0\<rparr>) n = 0" "write_len (open_rw\<lparr>offset := 0\<rparr>) n 4 = 4" for n
    by (simp_all add: write_off_def write_len_def open_rw_def)
  obtain g where g: "fs_write_fd 0 (Some (bytes ''QRST'')) 4 f = Some (g, Inr 4)"
    using fs_write_fd_eq [OF fs_inv_shape [OF inv] ok(1), folded the_fd_def, unfolded ok(2), of 4 "bytes ''QRST''"]
    unfolding wl by (auto simp: open_rw_def)
  then have w: "sys_write 3 (Some (bytes ''QRST'')) 4 s1 = Inr (s1\<lparr>s_fs := g\<rparr>, 4)"
    by (simp add: sys_write_def s1_def del: bytes_simps(1,2))
  from sys_file_roundtrip [OF boot_sys_facts(1) so _ _ _ w, of "bytes ''......''"] so w
  show ?thesis by auto
qed

end
