(* ===== verification/Boot.thy ===== *)
theory Boot
  imports SyscallProps
begin

text \<open>
  The boot sequence \<^verbatim>\<open>src/kernel.c\<close>: the whole kernel's state, the initialisation of all parts in
  the order of \<open>kernel_main\<close> up to \<open>sti\<close>, and what follows the login (the status screen and the start
  of the scheduler). What the boot loader and the linker provide is the record \<open>boot_env\<close>.
\<close>

section \<open>State\<close>

record os =
  o_sys :: sys
  o_gdt :: gdt
  o_idt :: idt
  o_kbd :: kbd
  o_if :: bool

record boot_env =
  be_magic :: u32
  be_mem :: memory
  be_mbi :: multiboot_info
  be_kernel_end :: u32
  be_isr :: "nat \<Rightarrow> u32"
  be_irq :: "nat \<Rightarrow> u32"
  be_gdt :: u32
  be_idt :: u32
  be_version :: "u8 list"

definition upd_kern :: "(kern \<Rightarrow> kern) \<Rightarrow> os \<Rightarrow> os" where
  "upd_kern f os = os\<lparr>o_sys := (o_sys os)\<lparr>s_kern := f (s_kern (o_sys os))\<rparr>\<rparr>"

definition upd_term :: "(screen \<Rightarrow> screen) \<Rightarrow> os \<Rightarrow> os" where
  "upd_term f os = os\<lparr>o_sys := (o_sys os)\<lparr>s_term := f (s_term (o_sys os))\<rparr>\<rparr>"

definition klog_ok :: "u8 list \<Rightarrow> os \<Rightarrow> stop + os" where
  "klog_ok m os = andthen (or_fault (klog (s_now (o_sys os)) KLOG_OK m (log (s_kern (o_sys os)))))
     (\<lambda>l. Inr (upd_kern (\<lambda>k. k\<lparr>log := l\<rparr>) os))"

section \<open>The steps\<close>

definition screen_start :: "os \<Rightarrow> stop + os" where
  "screen_start os = andthen (terminal_initialize (s_term (o_sys os))) (\<lambda>t.
     Inr (upd_kern (\<lambda>k. k\<lparr>log := klog_init\<rparr>) (upd_term (\<lambda>_. t) os)))"

definition gdt_start :: "boot_env \<Rightarrow> os \<Rightarrow> stop + os" where
  "gdt_start env os = andthen (or_fault (gdt_init (be_gdt env) (o_gdt os))) (\<lambda>g. Inr (os\<lparr>o_gdt := g\<rparr>))"

definition idt_start :: "boot_env \<Rightarrow> os \<Rightarrow> os" where
  "idt_start env os = (case idt_init (be_isr env) (be_irq env) (be_idt env) (o_idt os, s_term (o_sys os)) of
     (d, t) \<Rightarrow> upd_term (\<lambda>_. t) (os\<lparr>o_idt := d\<rparr>))"

definition syscall_init :: "os \<Rightarrow> os" where
  "syscall_init os = os\<lparr>o_idt := register_interrupt_handler 128 Syscall_Handler (o_idt os)\<rparr>"

definition keyboard_init :: "os \<Rightarrow> os" where
  "keyboard_init os = os\<lparr>o_idt := register_interrupt_handler 33 Keyboard_Callback (o_idt os)\<rparr>"

definition process_start :: "os \<Rightarrow> stop + os" where
  "process_start os = andthen (or_fault (process_init (procs (s_kern (o_sys os))))) (\<lambda>ps.
     Inr (upd_kern (\<lambda>k. k\<lparr>procs := ps\<rparr>) os))"

definition timer_start_at :: "u32 \<Rightarrow> os \<Rightarrow> stop + os" where
  "timer_start_at freq os =
     (let os = os\<lparr>o_idt := register_interrupt_handler 32 Timer_Callback (o_idt os)\<rparr> in
      andthen (or_fault (timer_init freq (s_term (o_sys os)))) (\<lambda>t. Inr (upd_term (\<lambda>_. t) os)))"

text \<open>The walk over the memory map may not end.\<close>

definition pmm_start :: "boot_env \<Rightarrow> os \<Rightarrow> stop + os" where
  "pmm_start env os =
     (if be_magic env = 0x2BADB002
      then (case pmm_init (be_mem env) (be_kernel_end env) (be_mbi env) of
          None \<Rightarrow> Inl Waiting
        | Some p \<Rightarrow> Inr (upd_kern (\<lambda>k. k\<lparr>pages := p\<rparr>) os))
      else Inr os)"

definition fs_start :: "boot_env \<Rightarrow> os \<Rightarrow> stop + os" where
  "fs_start env os = andthen (or_fault (fs_init (s_now (o_sys os)) (be_version env))) (\<lambda>f.
     Inr (os\<lparr>o_sys := (o_sys os)\<lparr>s_fs := f\<rparr>\<rparr>))"

text \<open>\<open>kernel_main\<close> up to \<open>sti\<close>, step by step.\<close>

definition boot_messages :: "u8 list list" where
  "boot_messages = map bytes
     [''GDT loaded - 5 segments'', ''IDT installed - 256 vectors, PIC remapped to 32-47'',
      ''Syscalls registered - 19 calls via int 0x80'', ''Process subsystem initialized - 16 slots'',
      ''Timer started - PIT 8253 at 100Hz'', ''PS/2 keyboard ready'', ''Ramdisk filesystem mounted'']"

fun steps :: "('s \<Rightarrow> 'e + 's) list \<Rightarrow> 's \<Rightarrow> 'e + 's" where
  "steps [] s = Inr s"
| "steps (f # fs) s = andthen (f s) (steps fs)"

definition kernel_init :: "boot_env \<Rightarrow> os \<Rightarrow> stop + os" where
  "kernel_init env = steps
     [screen_start,
      gdt_start env, klog_ok (boot_messages ! 0),
      Inr \<circ> idt_start env, klog_ok (boot_messages ! 1),
      Inr \<circ> syscall_init, klog_ok (boot_messages ! 2),
      process_start, klog_ok (boot_messages ! 3),
      timer_start_at 100, klog_ok (boot_messages ! 4),
      Inr \<circ> keyboard_init, klog_ok (boot_messages ! 5),
      pmm_start env,
      fs_start env, klog_ok (boot_messages ! 6),
      (\<lambda>os. Inr (os\<lparr>o_if := True\<rparr>))]"

text \<open>After the login: the status screen, as colours and formatted output, and the scheduler's start.\<close>

definition ln :: "string \<Rightarrow> u8 list" where
  "ln s = bytes s @ [10]"

definition ok_line :: "u8 list \<Rightarrow> vararg list \<Rightarrow> screen_op list" where
  "ok_line f args = [SetColor (vga_entry_color 10 0), Print (bytes ''     [OK]  '') [],
     SetColor (vga_entry_color 7 0), Print f args]"

definition status_ops :: "u32 \<Rightarrow> u32 \<Rightarrow> u32 \<Rightarrow> u32 \<Rightarrow> u8 list \<Rightarrow> screen_op list" where
  "status_ops mem_kb free files dirs version =
     [Print [10, 10] [],
      SetColor (vga_entry_color 11 0), Print (ln ''                              MyMisu OS'') [],
      SetColor (vga_entry_color 8 0), Print (ln ''                    bare-metal x86 operating system'' @ [10]) [],
      SetColor (vga_entry_color 11 0),
      Print (ln ''  +--------------------------------------------------------------+'') [],
      Print (ln ''  |  System Status                                               |'') [],
      Print (ln ''  +--------------------------------------------------------------+'') [],
      SetColor (vga_entry_color 7 0)]
     @ ok_line (ln ''GDT loaded'') []
     @ ok_line (ln ''IDT installed (256 vectors, PIC remapped to 32-47)'') []
     @ ok_line (ln ''Timer @ 100Hz (PIT 8253)'') []
     @ ok_line (ln ''PS/2 keyboard ready'') []
     @ ok_line (ln ''Memory       %d KB (%d free pages)'') [Word mem_kb, Word free]
     @ ok_line (ln ''Ramdisk      %d files, %d dirs (16 fds available)'') [Word files, Word dirs]
     @ ok_line (ln ''Syscalls     19 registered (int 0x80)'') []
     @ ok_line (ln ''Scheduler    round-robin, 100ms slice (preemptive)'') []
     @ [Print [10] [], SetColor (vga_entry_color 11 0),
        Print (bytes ''                          |'' @ 92 # ln ''---/|'') [],
        Print (ln ''                          | ,_, |'') [],
        Print (bytes ''                           '' @ 92 # ln ''_`_/-..--.'') [],
        Print (bytes ''                        ___/ `   '' @ 39 # bytes '' ,+ '' @ [92, 10]) [],
        Print (bytes ''                       (__...'' @ 39 # ln ''  _/  |`._;'') [],
        Print (bytes ''                         (_,..'' @ 39 # ln ''(_,.`__)'') [],
        SetColor (vga_entry_color 8 0),
        Print (10 # ln ''                                                         %s'') [Str (Some version)],
        SetColor (vga_entry_color 7 0)]"

definition kernel_online :: "boot_env \<Rightarrow> os \<Rightarrow> stop + os" where
  "kernel_online env os =
     andthen (terminal_clear (s_term (o_sys os))) (\<lambda>t.
     andthen (case run_ops (status_ops (pmm_get_total_memory_kb (pages (s_kern (o_sys os))))
         (pmm_get_free_pages (pages (s_kern (o_sys os))))
         (of_nat (fs_get_file_count (s_fs (o_sys os)))) (of_nat (fs_get_dir_count (s_fs (o_sys os))))
         (be_version env)) t of None \<Rightarrow> Inl Fault | Some r \<Rightarrow> r) (\<lambda>t.
     klog_ok (bytes ''Scheduler online - round-robin preemptive 100ms'')
       (upd_kern (\<lambda>k. k\<lparr>procs := process_set_scheduling_enabled True (procs k)\<rparr>) (upd_term (\<lambda>_. t) os))))"

section \<open>The state after the boot\<close>

text \<open>What the log holds after the first \<open>n\<close> messages.\<close>

definition logged :: "nat \<Rightarrow> os \<Rightarrow> bool" where
  "logged n os \<longleftrightarrow> (let l = log (s_kern (o_sys os)) in klog_inv l \<and> klog_total l = int n
     \<and> klog_lines l = map (\<lambda>m. (s_now (o_sys os), KLOG_OK, m)) (take n boot_messages))"

definition same_but_log :: "os \<Rightarrow> os \<Rightarrow> bool" where
  "same_but_log os os' \<longleftrightarrow> (\<exists>l. os' = upd_kern (\<lambda>k. k\<lparr>log := l\<rparr>) os)"

lemma same_but_log_simps:
  assumes "same_but_log os os'"
  shows "o_gdt os' = o_gdt os" "o_idt os' = o_idt os" "o_kbd os' = o_kbd os" "o_if os' = o_if os"
    "s_fs (o_sys os') = s_fs (o_sys os)" "s_term (o_sys os') = s_term (o_sys os)"
    "s_timer (o_sys os') = s_timer (o_sys os)" "procs (s_kern (o_sys os')) = procs (s_kern (o_sys os))"
    "pages (s_kern (o_sys os')) = pages (s_kern (o_sys os))"
  using assms by (auto simp: same_but_log_def upd_kern_def)

lemma boot_message_short: "m \<in> set boot_messages \<Longrightarrow> take 95 (cstr m) = m"
proof -
  assume "m \<in> set boot_messages"
  then obtain w where w: "m = bytes w" "length w \<le> 95" "CHR 0x00 \<notin> set w"
    by (auto simp: boot_messages_def simp del: bytes_simps(1,2))
  then have "cstr (bytes w) = bytes w" by (intro cstr_id) simp
  with w show ?thesis by simp
qed

lemma klog_total_step: "klog t lv m l = Some l' \<Longrightarrow> klog_total l' = klog_total l + 1"
  by (auto simp: klog_def bind_eq_Some_conv cint_def split: if_splits)

lemma klog_ok_step:
  assumes "logged n os" "n < 7"
  shows "\<exists>os'. klog_ok (boot_messages ! n) os = Inr os' \<and> logged (Suc n) os' \<and> same_but_log os os'"
proof -
  let ?l = "log (s_kern (o_sys os))" and ?m = "boot_messages ! n" and ?t = "s_now (o_sys os)"
  have len: "length boot_messages = 7" by (simp add: boot_messages_def)
  have l: "klog_inv ?l" "klog_total ?l = int n"
    "klog_lines ?l = map (\<lambda>m. (?t, KLOG_OK, m)) (take n boot_messages)"
    using assms(1) by (simp_all add: logged_def Let_def)
  from l(2) assms(2) have "klog_total ?l < 2147483647" by simp
  from klog_step [OF l(1) this, of ?t KLOG_OK ?m] obtain l' where
    l': "klog ?t KLOG_OK ?m ?l = Some l'" "klog_inv l'"
      "klog_lines l' = (let ls = klog_lines ?l @ [(?t, KLOG_OK, take 95 (cstr ?m))] in drop (length ls - 64) ls)"
    by blast
  have "take 95 (cstr ?m) = ?m" using assms(2) len by (intro boot_message_short nth_mem) simp
  then have "klog_lines l' = map (\<lambda>m. (?t, KLOG_OK, m)) (take (Suc n) boot_messages)"
    using l'(3) l(3) assms(2) len by (simp add: Let_def take_Suc_conv_app_nth)
  moreover have "klog_total l' = int (Suc n)" using klog_total_step [OF l'(1)] l(2) by simp
  ultimately show ?thesis
    using l' by (intro exI [of _ "upd_kern (\<lambda>k. k\<lparr>log := l'\<rparr>) os"])
      (auto simp: klog_ok_def same_but_log_def logged_def upd_kern_def s_now_def)
qed

text \<open>A step that leaves the log and the clock alone.\<close>

lemma logged_keep:
  "logged n os \<Longrightarrow> log (s_kern (o_sys os')) = log (s_kern (o_sys os)) \<Longrightarrow> s_timer (o_sys os') = s_timer (o_sys os)
    \<Longrightarrow> logged n os'"
  by (simp add: logged_def s_now_def)

lemma upd_simps [simp]:
  "s_kern (o_sys (upd_kern f os)) = f (s_kern (o_sys os))" "s_fs (o_sys (upd_kern f os)) = s_fs (o_sys os)"
  "s_term (o_sys (upd_kern f os)) = s_term (o_sys os)" "s_timer (o_sys (upd_kern f os)) = s_timer (o_sys os)"
  "o_gdt (upd_kern f os) = o_gdt os" "o_idt (upd_kern f os) = o_idt os" "o_if (upd_kern f os) = o_if os"
  "s_kern (o_sys (upd_term g os)) = s_kern (o_sys os)" "s_fs (o_sys (upd_term g os)) = s_fs (o_sys os)"
  "s_term (o_sys (upd_term g os)) = g (s_term (o_sys os))" "s_timer (o_sys (upd_term g os)) = s_timer (o_sys os)"
  "o_gdt (upd_term g os) = o_gdt os" "o_idt (upd_term g os) = o_idt os" "o_if (upd_term g os) = o_if os"
  by (simp_all add: upd_kern_def upd_term_def)

definition boot_ready :: "boot_env \<Rightarrow> os \<Rightarrow> bool" where
  "boot_ready env os \<longleftrightarrow> length (gdt_entries (o_gdt os)) = 3 \<and> length (terminal_buffer (s_term (o_sys os))) = 2000
     \<and> be_magic env = 0x2BADB002 \<and> length (be_version env) < 4085 \<and> 0 \<notin> set (be_version env)"

text \<open>The ports do not matter to the screen.\<close>

lemma vga_ok_ports: "vga_ok (t\<lparr>port_log := ps\<rparr>) = vga_ok t"
  by (simp add: vga_ok_def)

lemma idt_init_screen: "\<exists>ps. snd (idt_init isr irq addr s) = (snd s)\<lparr>port_log := ps\<rparr>"
  by (cases s) (auto simp: idt_init_def Let_def pic_remap_def io_wait_def outb_def)

lemma steps_append: "steps (fs @ gs) s = andthen (steps fs s) (steps gs)"
proof (induction fs arbitrary: s)
  case (Cons f fs)
  then show ?case by (cases "f s") simp_all
qed simp

text \<open>The clock and the characters typed so far stay.\<close>

definition same_input :: "os \<Rightarrow> os \<Rightarrow> bool" where
  "same_input os os' \<longleftrightarrow> s_timer (o_sys os') = s_timer (o_sys os) \<and> keys (s_term (o_sys os')) = keys (s_term (o_sys os))"

abbreviation (input) os_procs :: "os \<Rightarrow> procs" where
  "os_procs os \<equiv> procs (s_kern (o_sys os))"

text \<open>The boot in three parts: the screen and the tables, the devices, memory and files.\<close>

definition boot_tables :: "boot_env \<Rightarrow> (os \<Rightarrow> stop + os) list" where
  "boot_tables env = [screen_start, gdt_start env, klog_ok (boot_messages ! 0), Inr \<circ> idt_start env,
     klog_ok (boot_messages ! 1), Inr \<circ> syscall_init, klog_ok (boot_messages ! 2)]"

definition boot_devices :: "(os \<Rightarrow> stop + os) list" where
  "boot_devices = [process_start, klog_ok (boot_messages ! 3), timer_start_at 100, klog_ok (boot_messages ! 4),
     Inr \<circ> keyboard_init, klog_ok (boot_messages ! 5)]"

definition boot_memory :: "boot_env \<Rightarrow> (os \<Rightarrow> stop + os) list" where
  "boot_memory env = [pmm_start env, fs_start env, klog_ok (boot_messages ! 6), (\<lambda>os. Inr (os\<lparr>o_if := True\<rparr>))]"

lemma kernel_init_parts: "kernel_init env = steps (boot_tables env @ boot_devices @ boot_memory env)"
  by (simp add: kernel_init_def boot_tables_def boot_devices_def boot_memory_def)

lemma boot_tables_work:
  assumes "boot_ready env os"
  shows "\<exists>os'. steps (boot_tables env) os = Inr os' \<and> logged 3 os' \<and> vga_ok (s_term (o_sys os'))
    \<and> interrupt_handlers (o_idt os') = (replicate 256 None)[128 := Some Syscall_Handler]
    \<and> os_procs os' = os_procs os \<and> same_input os os'"
proof -
  have r: "length (gdt_entries (o_gdt os)) = 3" "length (terminal_buffer (s_term (o_sys os))) = 2000"
    using assms(1) by (simp_all add: boot_ready_def)
  obtain t where t: "terminal_initialize (s_term (o_sys os)) = Inr t" "vga_ok t" "keys t = keys (s_term (o_sys os))"
    using terminal_initialize_eq [OF r(2)] by blast
  define o1 where "o1 = upd_kern (\<lambda>k. k\<lparr>log := klog_init\<rparr>) (upd_term (\<lambda>_. t) os)"
  have s1: "screen_start os = Inr o1" using t by (simp add: screen_start_def o1_def)
  have l1: "logged 0 o1" by (simp add: logged_def o1_def klog_init_inv)
  obtain g where g: "gdt_init (be_gdt env) (o_gdt o1) = Some g"
    using gdt_init_segments [of "o_gdt o1" "be_gdt env"] r(1) by (auto simp: o1_def)
  then have s2: "gdt_start env o1 = Inr (o1\<lparr>o_gdt := g\<rparr>)" by (simp add: gdt_start_def)
  obtain o2 where o2: "klog_ok (boot_messages ! 0) (o1\<lparr>o_gdt := g\<rparr>) = Inr o2" "logged 1 o2" "same_but_log (o1\<lparr>o_gdt := g\<rparr>) o2"
    using klog_ok_step [OF logged_keep [OF l1, of "o1\<lparr>o_gdt := g\<rparr>"]] by auto
  define o3 where "o3 = idt_start env o2"
  have idt: "o_idt o3 = fst (idt_init (be_isr env) (be_irq env) (be_idt env) (o_idt o2, s_term (o_sys o2)))"
    "s_term (o_sys o3) = snd (idt_init (be_isr env) (be_irq env) (be_idt env) (o_idt o2, s_term (o_sys o2)))"
    "s_kern (o_sys o3) = s_kern (o_sys o2)" "s_timer (o_sys o3) = s_timer (o_sys o2)"
    by (simp_all add: o3_def idt_start_def split_beta)
  have v3: "vga_ok (s_term (o_sys o3)) \<and> keys (s_term (o_sys o3)) = keys t"
    using idt_init_screen [of "be_isr env" "be_irq env" "be_idt env" "(o_idt o2, s_term (o_sys o2))"] t(2)
      same_but_log_simps(6) [OF o2(3)] by (auto simp: idt(2) vga_ok_ports o1_def)
  obtain o4 where o4: "klog_ok (boot_messages ! 1) o3 = Inr o4" "logged 2 o4" "same_but_log o3 o4"
    using klog_ok_step [OF logged_keep [OF o2(2), of o3]] idt by (auto simp: numeral_2_eq_2)
  obtain o5 where o5: "klog_ok (boot_messages ! 2) (syscall_init o4) = Inr o5" "logged 3 o5" "same_but_log (syscall_init o4) o5"
    using klog_ok_step [OF logged_keep [OF o4(2), of "syscall_init o4"]]
    by (auto simp: syscall_init_def numeral_3_eq_3)
  note same = same_but_log_simps [OF o2(3)] same_but_log_simps [OF o4(3)] same_but_log_simps [OF o5(3)]
  have "interrupt_handlers (o_idt o3) = replicate 256 None"
    using idt_init_gates(4) [of 0 "be_isr env" "be_irq env" "be_idt env" "(o_idt o2, s_term (o_sys o2))"] by (simp add: idt(1))
  then have "interrupt_handlers (o_idt o5) = (replicate 256 None)[128 := Some Syscall_Handler]"
    by (simp add: same syscall_init_def register_interrupt_handler_def)
  moreover have "steps (boot_tables env) os = Inr o5"
    using s1 s2 o2(1) o3_def o4(1) o5(1) by (simp add: boot_tables_def)
  ultimately show ?thesis
    using o5(2) v3 t(3) by (intro exI [of _ o5]) (simp add: same syscall_init_def idt o1_def same_input_def)
qed

lemma boot_devices_work:
  assumes "logged 3 os" "vga_ok (s_term (o_sys os))"
  shows "\<exists>os'. steps boot_devices os = Inr os' \<and> logged 6 os' \<and> vga_ok (s_term (o_sys os'))
    \<and> interrupt_handlers (o_idt os')
        = (interrupt_handlers (o_idt os))[32 := Some Timer_Callback, 33 := Some Keyboard_Callback]
    \<and> process_init (os_procs os) = Some (os_procs os') \<and> same_input os os'"
proof -
  obtain ps where ps: "process_init (os_procs os) = Some ps"
    using process_init_eq [of "os_procs os"] by auto
  define o6 where "o6 = upd_kern (\<lambda>k. k\<lparr>procs := ps\<rparr>) os"
  have s6: "process_start os = Inr o6" using ps by (simp add: process_start_def o6_def)
  obtain o7 where o7: "klog_ok (boot_messages ! 3) o6 = Inr o7" "logged 4 o7" "same_but_log o6 o7"
    using klog_ok_step [OF logged_keep [OF assms(1), of o6]] by (auto simp: o6_def eval_nat_numeral)
  obtain t8 where t8: "timer_start_at 100 o7 = Inr (upd_term (\<lambda>_. t8) (o7\<lparr>o_idt := register_interrupt_handler 32 Timer_Callback (o_idt o7)\<rparr>))"
    "\<exists>ps. t8 = (s_term (o_sys o7))\<lparr>port_log := ps\<rparr>"
    by (auto simp: timer_start_at_def timer_init_def Let_def outb_def)
  define o8 where "o8 = upd_term (\<lambda>_. t8) (o7\<lparr>o_idt := register_interrupt_handler 32 Timer_Callback (o_idt o7)\<rparr>)"
  obtain o9 where o9: "klog_ok (boot_messages ! 4) o8 = Inr o9" "logged 5 o9" "same_but_log o8 o9"
    using klog_ok_step [OF logged_keep [OF o7(2), of o8]] by (auto simp: o8_def eval_nat_numeral)
  obtain o10 where o10: "klog_ok (boot_messages ! 5) (keyboard_init o9) = Inr o10" "logged 6 o10" "same_but_log (keyboard_init o9) o10"
    using klog_ok_step [OF logged_keep [OF o9(2), of "keyboard_init o9"]]
    by (auto simp: keyboard_init_def eval_nat_numeral)
  note same = same_but_log_simps [OF o7(3)] same_but_log_simps [OF o9(3)] same_but_log_simps [OF o10(3)]
  have "steps boot_devices os = Inr o10"
    using s6 o7(1) t8(1) o8_def o9(1) o10(1) by (simp add: boot_devices_def)
  then show ?thesis
    using o10(2) t8(2) assms(2) ps
    by (intro exI [of _ o10])
      (auto simp: same keyboard_init_def o8_def o6_def register_interrupt_handler_def same_input_def vga_ok_ports)
qed

lemma boot_memory_works:
  assumes "logged 6 os" "boot_ready env os0" "pmm_init (be_mem env) (be_kernel_end env) (be_mbi env) = Some pg"
  shows "\<exists>os'. steps (boot_memory env) os = Inr os' \<and> logged 7 os' \<and> s_term (o_sys os') = s_term (o_sys os)
    \<and> o_idt os' = o_idt os \<and> pages (s_kern (o_sys os')) = pg \<and> fs_inv (s_fs (o_sys os')) \<and> o_if os'
    \<and> os_procs os' = os_procs os \<and> same_input os os'"
proof -
  have r: "be_magic env = 0x2BADB002" "length (be_version env) < 4085" "0 \<notin> set (be_version env)"
    using assms(2) by (simp_all add: boot_ready_def)
  define o11 where "o11 = upd_kern (\<lambda>k. k\<lparr>pages := pg\<rparr>) os"
  have s11: "pmm_start env os = Inr o11" using r(1) assms(3) by (simp add: pmm_start_def o11_def)
  obtain f where f: "fs_init (s_now (o_sys o11)) (be_version env) = Some f" "fs_inv f"
    using fs_init_eq [OF r(2,3)] init_nodes_entries(1) [OF r(2,3)] by blast
  define o12 where "o12 = o11\<lparr>o_sys := (o_sys o11)\<lparr>s_fs := f\<rparr>\<rparr>"
  have s12: "fs_start env o11 = Inr o12" using f by (simp add: fs_start_def o12_def)
  obtain o13 where o13: "klog_ok (boot_messages ! 6) o12 = Inr o13" "logged 7 o13" "same_but_log o12 o13"
    using klog_ok_step [OF logged_keep [OF assms(1), of o12]] by (auto simp: o12_def o11_def eval_nat_numeral)
  have "steps (boot_memory env) os = Inr (o13\<lparr>o_if := True\<rparr>)"
    using s11 s12 o13(1) by (simp add: boot_memory_def)
  then show ?thesis
    using o13(2) f(2) by (intro exI [of _ "o13\<lparr>o_if := True\<rparr>"])
      (simp add: same_but_log_simps [OF o13(3)] o12_def o11_def same_input_def logged_def s_now_def)
qed

lemma kernel_init_works:
  assumes "boot_ready env os" "pmm_init (be_mem env) (be_kernel_end env) (be_mbi env) = Some pg" "pmm_inv pg"
  shows "\<exists>os'. kernel_init env os = Inr os' \<and> logged 7 os' \<and> sys_inv (o_sys os') \<and> o_if os'
    \<and> pages (s_kern (o_sys os')) = pg \<and> same_input os os' \<and> process_init (os_procs os) = Some (os_procs os')
    \<and> (\<forall>n < 256. interrupt_handlers (o_idt os') ! n = (if n = 32 then Some Timer_Callback
        else if n = 33 then Some Keyboard_Callback else if n = 128 then Some Syscall_Handler else None))"
proof -
  obtain o1 where 1: "steps (boot_tables env) os = Inr o1" "logged 3 o1" "vga_ok (s_term (o_sys o1))"
    "interrupt_handlers (o_idt o1) = (replicate 256 None)[128 := Some Syscall_Handler]"
    "os_procs o1 = os_procs os" "same_input os o1"
    using boot_tables_work [OF assms(1)] by blast
  obtain o2 where 2: "steps boot_devices o1 = Inr o2" "logged 6 o2" "vga_ok (s_term (o_sys o2))"
    "interrupt_handlers (o_idt o2)
      = (interrupt_handlers (o_idt o1))[32 := Some Timer_Callback, 33 := Some Keyboard_Callback]"
    "process_init (os_procs o1) = Some (os_procs o2)" "same_input o1 o2"
    using boot_devices_work [OF 1(2,3)] by blast
  obtain o3 where 3: "steps (boot_memory env) o2 = Inr o3" "logged 7 o3" "s_term (o_sys o3) = s_term (o_sys o2)"
    "o_idt o3 = o_idt o2" "pages (s_kern (o_sys o3)) = pg" "fs_inv (s_fs (o_sys o3))" "o_if o3"
    "os_procs o3 = os_procs o2" "same_input o2 o3"
    using boot_memory_works [OF 2(2) assms(1,2)] by blast
  have "kernel_init env os = Inr o3"
    using 1(1) 2(1) 3(1) by (simp add: kernel_init_parts steps_append)
  moreover have "procs_ok (os_procs o3)" "map kstack (proc_table (os_procs o3)) = replicate 16 0"
    using process_init_ok [OF 2(5)] 3(8) by simp_all
  then have "sys_inv (o_sys o3)"
    using 2(3) 3(2,3,5,6) assms(3) by (simp add: sys_inv_def kern_inv_def stacks_ok_def logged_def Let_def)
  moreover have "interrupt_handlers (o_idt o3) ! n = (if n = 32 then Some Timer_Callback
        else if n = 33 then Some Keyboard_Callback else if n = 128 then Some Syscall_Handler else None)" if "n < 256" for n
    using that by (simp add: 1(4) 2(4) 3(4) nth_list_update)
  ultimately show ?thesis
    using 1(5,6) 2(5,6) 3(2,5,7,8,9) by (intro exI [of _ o3]) (simp add: same_input_def)
qed


definition boot_machine :: os where
  "boot_machine = \<lparr>o_sys = boot_sys, o_gdt = zero_gdt, o_idt = zero_idt, o_kbd = kbd_start, o_if = False\<rparr>"

definition one_region :: boot_env where
  "one_region = \<lparr>be_magic = 0x2BADB002, be_mem = map_mem, be_mbi = map_info 24, be_kernel_end = 0x200000,
     be_isr = (\<lambda>i. 0x100000 + of_nat i), be_irq = (\<lambda>i. 0x101000 + of_nat i), be_gdt = 0x102000,
     be_idt = 0x103000, be_version = bytes ''v2.0.6''\<rparr>"


section \<open>After the login\<close>

lemma run_ops_good:
  assumes "\<forall>op \<in> set ops. case op of SetColor c \<Rightarrow> True | Print f args \<Rightarrow> kprintf_chars f args \<noteq> None"
    and "vga_ok t" "\<not> pager_enabled t"
  shows "\<exists>t'. run_ops ops t = Some (Inr t') \<and> vga_ok t' \<and> \<not> pager_enabled t'"
  using assms
proof (induction ops t rule: run_ops.induct)
  case (2 c ops t)
  then show ?case by (simp add: terminal_setcolor_def vga_ok_def)
next
  case (3 f args ops t)
  then obtain out where out: "kprintf_chars f args = Some out" by auto
  with terminal_write_good [OF 3(3), of out] 3(4) obtain t' where
    t': "terminal_write out t = Inr t'" "vga_ok t'" "\<not> pager_enabled t'"
    by (auto simp: good_outcome_def split: sum.splits stop.splits)
  have k: "kprintf f args t = Some (Inr t')" using out t'(1) by (simp add: kprintf_def)
  with 3 t' show ?case by simp
qed simp

lemma print_int_some: "- 2147483648 < v \<Longrightarrow> v < 2147483648 \<Longrightarrow> \<exists>s. print_int v = Some s"
  by (auto simp: print_int_def cint_def)

lemma status_ops_formats:
  assumes "print_int (sint a) = Some a'" "print_int (sint b) = Some b'" "print_int (sint c) = Some c'"
    and "print_int (sint d) = Some d'"
  shows "\<forall>op \<in> set (status_ops a b c d v). case op of SetColor c \<Rightarrow> True | Print f args \<Rightarrow> kprintf_chars f args \<noteq> None"
  using assms by (simp add: status_ops_def ok_line_def ln_def convert.simps byte_def)

lemma print_int_small: "unat (w :: u32) < 2147483648 \<Longrightarrow> \<exists>s. print_int (sint w) = Some s"
proof -
  assume w: "unat w < 2147483648"
  obtain n where n: "n = unat w" by blast
  have "sint w = int n" unfolding n using w by (rule sint_unat_small)
  moreover have "int n < 2147483648" using w n by linarith
  ultimately show ?thesis using print_int_some [of "int n"] by simp
qed

text \<open>After the login the status screen is printed, whatever the counts of memory, pages and files
  are, without a fault, the log gets its last boot message and the scheduler is switched on; all
  invariants still hold.\<close>

theorem kernel_online_correct:
  assumes "sys_inv (o_sys os)" "\<not> pager_enabled (s_term (o_sys os))"
    and "klog_total (log (s_kern (o_sys os))) < 2147483647"
    and "unat (total_pages (pages (s_kern (o_sys os)))) \<le> 32768"
  shows "\<exists>os'. kernel_online env os = Inr os' \<and> sys_inv (o_sys os')
    \<and> scheduling_enabled (procs (s_kern (o_sys os')))"
proof -
  let ?k = "s_kern (o_sys os)" and ?f = "s_fs (o_sys os)"
  have inv: "fs_inv ?f" "kern_inv ?k" "vga_ok (s_term (o_sys os))" using assms(1) by (simp_all add: sys_inv_def)
  obtain t where t: "terminal_clear (s_term (o_sys os)) = Inr t" "vga_ok t" "\<not> pager_enabled t"
    using terminal_clear_eq [of "s_term (o_sys os)"] inv(3) assms(2) by (auto simp: vga_ok_def)
  obtain a' where a: "print_int (sint (pmm_get_total_memory_kb (pages ?k))) = Some a'"
  proof -
    have "unat (pmm_get_total_memory_kb (pages ?k)) < 2147483648"
      using assms(4) by (simp add: pmm_get_total_memory_kb_def unat_word_ariths)
    then show ?thesis using print_int_small that by blast
  qed
  obtain b' where b: "print_int (sint (pmm_get_free_pages (pages ?k))) = Some b'"
  proof -
    have "unat (pmm_get_free_pages (pages ?k)) \<le> 32768"
      using assms(4) by (auto simp: pmm_get_free_pages_def unat_sub intro: order_trans [OF diff_le_self])
    then show ?thesis using print_int_small that by fastforce
  qed
  have "fs_get_file_count ?f \<le> 64" "fs_get_dir_count ?f \<le> 64"
    unfolding fs_get_file_count_def fs_get_dir_count_def
    by (intro order_trans [OF length_filter_le]; simp)+
  then have "unat (of_nat (fs_get_file_count ?f) :: u32) < 2147483648"
    "unat (of_nat (fs_get_dir_count ?f) :: u32) < 2147483648" by simp_all
  then obtain c' d' where c: "print_int (sint (of_nat (fs_get_file_count ?f) :: u32)) = Some c'"
    "print_int (sint (of_nat (fs_get_dir_count ?f) :: u32)) = Some d'"
    using print_int_small by meson
  from run_ops_good [OF status_ops_formats [OF a b c, of "be_version env"] t(2,3)] obtain t' where
    t': "run_ops (status_ops (pmm_get_total_memory_kb (pages ?k)) (pmm_get_free_pages (pages ?k))
       (of_nat (fs_get_file_count ?f)) (of_nat (fs_get_dir_count ?f)) (be_version env)) t = Some (Inr t')" "vga_ok t'"
    by blast
  have kl: "klog_inv (log ?k)" using inv(2) by (simp add: kern_inv_def)
  from klog_step_inv [OF kl assms(3)] obtain l where
    l: "klog (s_now (o_sys os)) KLOG_OK (bytes ''Scheduler online - round-robin preemptive 100ms'') (log ?k) = Some l" "klog_inv l"
    by blast
  have ps: "procs_ok (process_set_scheduling_enabled True (procs ?k))"
    using inv(2) by (simp add: kern_inv_def procs_ok_def process_set_scheduling_enabled_def idents_def running_ok_def)
  show ?thesis
    using t(1) t' l ps inv
    by (simp add: kernel_online_def klog_ok_def s_now_def sys_inv_def kern_inv_def
        process_set_scheduling_enabled_def del: bytes_simps(1,2))
qed

theorem kernel_online_correct_witness:
  "\<exists>os'. kernel_online one_region boot_machine = Inr os' \<and> scheduling_enabled (procs (s_kern (o_sys os')))"
proof -
  have "o_sys boot_machine = boot_sys" by (simp add: boot_machine_def)
  moreover have "\<not> pager_enabled (s_term boot_sys)" "unat (total_pages (pages (s_kern boot_sys))) \<le> 32768"
    by (simp_all add: boot_sys_def fresh_screen_def boot_kern_def fresh_pmm_def empty_pmm_def pmm_set_bit_def)
  ultimately show ?thesis
    using kernel_online_correct [of boot_machine one_region] boot_sys_facts by auto
qed

end
