(* ===== verification/Shell.thy ===== *)
theory Shell
  imports Boot
begin

text \<open>
  The core of the shell \<^verbatim>\<open>src/shell.c\<close>: its state, the input loops, the history, the line editor, the
  splitting of a command line into arguments and the login. The commands are in the theories
  \<open>Screens\<close>, \<open>Files\<close>, \<open>Tasks\<close>, \<open>Apps\<close> and \<open>Games\<close>.

  The shell runs with interrupts on, but changes the machine's input and time only when it waits:
  \<open>keys\<close> of the terminal are the characters in the keyboard buffer, and \<open>halts\<close> says, for each \<open>hlt\<close>
  to come, the tick count after it and the characters typed during it. When a loop needs a halt and
  none is left, the result is \<open>Waiting\<close>.
\<close>

section \<open>State and primitives\<close>

abbreviation (input) CMD_BUFFER_SIZE :: nat where "CMD_BUFFER_SIZE \<equiv> 256"
abbreviation (input) MAX_ARGS :: nat where "MAX_ARGS \<equiv> 16"
abbreviation (input) MAX_HISTORY :: nat where "MAX_HISTORY \<equiv> 10"

type_synonym halt_events = "(u32 \<times> u8 list) list"

record shell =
  sh_sys :: sys
  halts :: halt_events
  cmd_buffer :: "u8 list"
  cmd_len :: nat
  history :: "u8 list list"
  history_count :: nat
  history_pos :: int

definition pending_keys :: "shell \<Rightarrow> u8 list" where
  "pending_keys s = keys (s_term (sh_sys s))"

definition set_keys :: "u8 list \<Rightarrow> shell \<Rightarrow> shell" where
  "set_keys ks s = s\<lparr>sh_sys := (sh_sys s)\<lparr>s_term := (s_term (sh_sys s))\<lparr>keys := ks\<rparr>\<rparr>\<rparr>"

definition set_ticks :: "u32 \<Rightarrow> shell \<Rightarrow> shell" where
  "set_ticks t s = s\<lparr>sh_sys := (sh_sys s)\<lparr>s_timer := (s_timer (sh_sys s))\<lparr>tick_count := t\<rparr>\<rparr>\<rparr>"

definition ticks :: "shell \<Rightarrow> u32" where
  "ticks s = s_now (sh_sys s)"

text \<open>One \<^verbatim>\<open>hlt\<close>.\<close>

definition after_halt :: "u32 \<Rightarrow> u8 list \<Rightarrow> halt_events \<Rightarrow> shell \<Rightarrow> shell" where
  "after_halt t ks hs s = (set_keys (pending_keys s @ ks) (set_ticks t s))\<lparr>halts := hs\<rparr>"

text \<open>Output: an operation of the terminal, a character, a colour, formatted text. \<open>ln\<close> adds a newline.\<close>

definition on_screen :: "(screen \<Rightarrow> stop + screen) \<Rightarrow> shell \<Rightarrow> stop + shell" where
  "on_screen f s = andthen (f (s_term (sh_sys s))) (\<lambda>t.
     Inr (s\<lparr>sh_sys := (sh_sys s)\<lparr>s_term := t\<rparr>\<rparr>))"

definition putc :: "u8 \<Rightarrow> shell \<Rightarrow> stop + shell" where
  "putc c = on_screen (terminal_putchar c)"

definition puts :: "u8 list \<Rightarrow> shell \<Rightarrow> stop + shell" where
  "puts str = on_screen (terminal_writestring str)"

definition colour :: "u8 \<Rightarrow> u8 \<Rightarrow> shell \<Rightarrow> stop + shell" where
  "colour fg bg = on_screen (\<lambda>t. Inr (terminal_setcolor (vga_entry_color fg bg) t))"

definition say :: "u8 list \<Rightarrow> vararg list \<Rightarrow> shell \<Rightarrow> stop + shell" where
  "say fmt args = on_screen (\<lambda>t. case kprintf fmt args t of None \<Rightarrow> Inl Fault | Some r \<Rightarrow> r)"

definition clear :: "shell \<Rightarrow> stop + shell" where
  "clear = on_screen terminal_clear"

text \<open>The colours of \<^verbatim>\<open>src/vga.h\<close>.\<close>

abbreviation (input) VGA_BLACK :: u8 where "VGA_BLACK \<equiv> 0"
abbreviation (input) VGA_GREEN :: u8 where "VGA_GREEN \<equiv> 2"
abbreviation (input) VGA_RED :: u8 where "VGA_RED \<equiv> 4"
abbreviation (input) VGA_LIGHT_GREY :: u8 where "VGA_LIGHT_GREY \<equiv> 7"
abbreviation (input) VGA_DARK_GREY :: u8 where "VGA_DARK_GREY \<equiv> 8"
abbreviation (input) VGA_LIGHT_BLUE :: u8 where "VGA_LIGHT_BLUE \<equiv> 9"
abbreviation (input) VGA_LIGHT_GREEN :: u8 where "VGA_LIGHT_GREEN \<equiv> 10"
abbreviation (input) VGA_LIGHT_CYAN :: u8 where "VGA_LIGHT_CYAN \<equiv> 11"
abbreviation (input) VGA_LIGHT_RED :: u8 where "VGA_LIGHT_RED \<equiv> 12"
abbreviation (input) VGA_LIGHT_MAGENTA :: u8 where "VGA_LIGHT_MAGENTA \<equiv> 13"
abbreviation (input) VGA_YELLOW :: u8 where "VGA_YELLOW \<equiv> 14"
abbreviation (input) VGA_WHITE :: u8 where "VGA_WHITE \<equiv> 15"

text \<open>The parts of the state the commands look at.\<close>

definition the_fs :: "shell \<Rightarrow> fs" where
  "the_fs s = s_fs (sh_sys s)"

definition the_pages :: "shell \<Rightarrow> pmm" where
  "the_pages s = pages (s_kern (sh_sys s))"

definition the_procs :: "shell \<Rightarrow> procs" where
  "the_procs s = procs (s_kern (sh_sys s))"

definition set_fs :: "fs \<Rightarrow> shell \<Rightarrow> shell" where
  "set_fs f s = s\<lparr>sh_sys := (sh_sys s)\<lparr>s_fs := f\<rparr>\<rparr>"

definition set_kern :: "kern \<Rightarrow> shell \<Rightarrow> shell" where
  "set_kern k s = s\<lparr>sh_sys := (sh_sys s)\<lparr>s_kern := k\<rparr>\<rparr>"

text \<open>A command that computes something first: its text is a list of steps that depends on the state
  it starts in.\<close>

definition with_state :: "(shell \<Rightarrow> (shell \<Rightarrow> stop + shell) list) \<Rightarrow> shell \<Rightarrow> stop + shell" where
  "with_state f s = steps (f s) s"

section \<open>Waiting and input\<close>

text \<open>\<^verbatim>\<open>while (timer_get_ticks() - start < n) hlt;\<close>\<close>

fun busy_wait_from :: "halt_events \<Rightarrow> u32 \<Rightarrow> u32 \<Rightarrow> shell \<Rightarrow> stop + shell" where
  "busy_wait_from [] start n s = (if still_waiting start n (ticks s) then Inl Waiting else Inr s)"
| "busy_wait_from ((t, ks) # hs) start n s =
     (if still_waiting start n (ticks s) then busy_wait_from hs start n (after_halt t ks hs s) else Inr s)"

definition busy_wait :: "u32 \<Rightarrow> shell \<Rightarrow> stop + shell" where
  "busy_wait n s = busy_wait_from (halts s) (ticks s) n s"

text \<open>\<open>keyboard_getchar\<close>: halts until the buffer holds a character and takes it.\<close>

fun take_key :: "shell \<Rightarrow> shell \<times> u8" where
  "take_key s = (case pending_keys s of [] \<Rightarrow> (s, 0) | c # ks \<Rightarrow> (set_keys ks s, c))"

fun wait_key :: "halt_events \<Rightarrow> shell \<Rightarrow> stop + shell \<times> u8" where
  "wait_key hs s =
     (if pending_keys s \<noteq> [] then Inr (take_key s)
      else case hs of [] \<Rightarrow> Inl Waiting | (t, ks) # hs' \<Rightarrow> wait_key hs' (after_halt t ks hs' s))"

definition getchar :: "shell \<Rightarrow> stop + shell \<times> u8" where
  "getchar s = wait_key (halts s) s"

text \<open>
  A loop around \<open>keyboard_getchar\<close>: \<open>f\<close> handles a character and says whether the loop goes on. Each
  round takes a character, so the characters that are still to come bound the number of rounds.
\<close>

definition pending :: "shell \<Rightarrow> nat" where
  "pending s = length (pending_keys s) + (\<Sum>(t, ks)\<leftarrow>halts s. length ks)"

fun key_loop :: "nat \<Rightarrow> (u8 \<Rightarrow> 'l \<times> shell \<Rightarrow> stop + bool \<times> 'l \<times> shell) \<Rightarrow> 'l \<times> shell \<Rightarrow> stop + 'l \<times> shell" where
  "key_loop 0 f ls = Inl Waiting"
| "key_loop (Suc n) f (l, s) =
     andthen (getchar s) (\<lambda>(s, c).
       andthen (f c (l, s)) (\<lambda>(go, ls). if go then key_loop n f ls else Inr ls))"

definition while_keys :: "(u8 \<Rightarrow> 'l \<times> shell \<Rightarrow> stop + bool \<times> 'l \<times> shell) \<Rightarrow> 'l \<times> shell \<Rightarrow> stop + 'l \<times> shell" where
  "while_keys f ls = key_loop (Suc (pending (snd ls))) f ls"

text \<open>\<^verbatim>\<open>while (timer_get_ticks() - start < n) { if (keyboard_haschar()) {...} hlt; }\<close>, where the handler of a
  character may leave the loop.\<close>

fun poll_wait :: "halt_events \<Rightarrow> u32 \<Rightarrow> u32 \<Rightarrow> (u8 \<Rightarrow> 'l \<Rightarrow> bool \<times> 'l) \<Rightarrow> 'l \<times> shell \<Rightarrow> stop + bool \<times> 'l \<times> shell" where
  "poll_wait hs start n f (l, s) =
     (if still_waiting start n (ticks s)
      then let (s', go, l') = (if pending_keys s \<noteq> [] then case take_key s of (s', c) \<Rightarrow> (s', f c l) else (s, True, l)) in
        if go then (case hs of
            [] \<Rightarrow> Inl Waiting
          | (t, ks) # hs' \<Rightarrow> poll_wait hs' start n f (l', after_halt t ks hs' s'))
        else Inr (False, l', s')
      else Inr (True, l, s))"

text \<open>A field typed by the user, up to \<open>lim\<close> printable characters, as the login and the apps read
  it: an array of \<open>lim + 1\<close> bytes and the index in it. \<open>echo\<close> is what is shown for a character
  (the password shows stars) and \<open>newline\<close> whether the end of the line is echoed.\<close>

definition printable :: "u8 \<Rightarrow> bool" where
  "printable c \<longleftrightarrow> 32 \<le> c \<and> c < 127"

definition field_key :: "nat \<Rightarrow> (u8 \<Rightarrow> u8) \<Rightarrow> bool \<Rightarrow> u8 \<Rightarrow> (u8 list \<times> nat) \<times> shell
    \<Rightarrow> stop + bool \<times> (u8 list \<times> nat) \<times> shell" where
  "field_key lim echo newline c ls = (case ls of ((buf, i), s) \<Rightarrow>
     if c = 10
     then andthen (if newline then putc 10 s else Inr s) (\<lambda>s.
            andthen (or_fault (put_at buf i 0)) (\<lambda>buf. Inr (False, (buf, i), s)))
     else if c = 8
     then if i > 0 then andthen (putc 8 s) (\<lambda>s. Inr (True, (buf, i - 1), s)) else Inr (True, ls)
     else if i < lim \<and> printable c
     then andthen (or_fault (put_at buf i c)) (\<lambda>buf.
            andthen (putc (echo c) s) (\<lambda>s. Inr (True, (buf, i + 1), s)))
     else Inr (True, ls))"

definition read_field :: "nat \<Rightarrow> (u8 \<Rightarrow> u8) \<Rightarrow> bool \<Rightarrow> shell \<Rightarrow> stop + (u8 list \<times> nat) \<times> shell" where
  "read_field lim echo newline s = while_keys (field_key lim echo newline) ((replicate (lim + 1) 0, 0), s)"

section \<open>History and the line editor\<close>

definition copy_history :: "nat \<Rightarrow> nat \<Rightarrow> u8 list list \<Rightarrow> u8 list list option" where
  "copy_history d i h = do {
     dest \<leftarrow> get_at h d;
     src \<leftarrow> get_at h i;
     line \<leftarrow> strcpy dest src;
     put_at h d line
   }"

definition history_add :: "u8 list \<Rightarrow> shell \<Rightarrow> shell option" where
  "history_add cmd s =
     (if history_count s < MAX_HISTORY
      then do {
        dest \<leftarrow> get_at (history s) (history_count s);
        line \<leftarrow> strcpy dest cmd;
        h \<leftarrow> put_at (history s) (history_count s) line;
        Some (s\<lparr>history := h, history_count := history_count s + 1\<rparr>)
      }
      else do {
        h \<leftarrow> fold (\<lambda>i r. do { h \<leftarrow> r; copy_history (i - 1) i h }) [1 ..< MAX_HISTORY] (Some (history s));
        dest \<leftarrow> get_at h (MAX_HISTORY - 1);
        line \<leftarrow> strcpy dest cmd;
        h \<leftarrow> put_at h (MAX_HISTORY - 1) line;
        Some (s\<lparr>history := h\<rparr>)
      })"

text \<open>\<^verbatim>\<open>while (cmd_len > 0) { terminal_putchar('\b'); cmd_len--; }\<close>\<close>

definition erase_line :: "shell \<Rightarrow> stop + shell" where
  "erase_line s = andthen (loop (\<lambda>_. putc 8) [0 ..< cmd_len s] s) (\<lambda>s. Inr (s\<lparr>cmd_len := 0\<rparr>))"

definition recall :: "int \<Rightarrow> shell \<Rightarrow> stop + shell" where
  "recall i s = andthen (erase_line (s\<lparr>history_pos := i\<rparr>)) (\<lambda>s.
     andthen (or_fault (do { line \<leftarrow> get_at (history s) (nat i); strcpy (cmd_buffer s) line })) (\<lambda>b.
       puts b (s\<lparr>cmd_buffer := b, cmd_len := strlen b\<rparr>)))"

definition edit_key :: "u8 \<Rightarrow> unit \<times> shell \<Rightarrow> stop + bool \<times> unit \<times> shell" where
  "edit_key c us = (let s = snd us; again = (\<lambda>s. Inr (True, (), s)) in
     if c = 10
     then andthen (putc 10 s) (\<lambda>s. andthen (or_fault (put_at (cmd_buffer s) (cmd_len s) 0)) (\<lambda>b.
            Inr (False, (), s\<lparr>cmd_buffer := b\<rparr>)))
     else if c = 8
     then if cmd_len s > 0 then andthen (putc 8 (s\<lparr>cmd_len := cmd_len s - 1\<rparr>)) again else again s
     else if c = 1
     then if history_pos s > 0 then andthen (recall (history_pos s - 1) s) again else again s
     else if c = 2
     then if history_pos s < int (history_count s) - 1 then andthen (recall (history_pos s + 1) s) again
          else andthen (erase_line (s\<lparr>history_pos := int (history_count s)\<rparr>)) again
     else if printable c \<and> cmd_len s < CMD_BUFFER_SIZE - 1
     then andthen (or_fault (put_at (cmd_buffer s) (cmd_len s) c)) (\<lambda>b.
            andthen (putc c (s\<lparr>cmd_buffer := b, cmd_len := cmd_len s + 1\<rparr>)) again)
     else again s)"

definition print_prompt :: "shell \<Rightarrow> stop + shell" where
  "print_prompt s = steps
     [colour VGA_LIGHT_CYAN VGA_BLACK, say (bytes ''misu'') [], colour VGA_DARK_GREY VGA_BLACK, say (bytes '':'') [],
      colour VGA_LIGHT_BLUE VGA_BLACK, say (bytes ''%s'') [Str (Some (fs_pwd (the_fs s)))],
      colour VGA_WHITE VGA_BLACK, say (bytes '' > '') [], colour VGA_LIGHT_GREEN VGA_BLACK] s"

text \<open>The prompt and the line typed at it.\<close>

definition read_line :: "shell \<Rightarrow> stop + shell" where
  "read_line s = andthen (print_prompt s) (\<lambda>s.
     andthen (while_keys edit_key ((), s\<lparr>cmd_len := 0, history_pos := int (history_count s)\<rparr>))
       (\<lambda>(_, s). Inr s))"

section \<open>Splitting a line\<close>

text \<open>The first index from \<open>i\<close> on whose character does not satisfy \<open>p\<close>.\<close>

function scan_while :: "(u8 \<Rightarrow> bool) \<Rightarrow> u8 list \<Rightarrow> nat \<Rightarrow> nat option" where
  "scan_while p buf i =
     (if i < length buf then if p (buf ! i) then scan_while p buf (i + 1) else Some i else None)"
  by pat_completeness auto
termination
  by (relation "measure (\<lambda>(p, buf, i). length buf - i)") auto

declare scan_while.simps [simp del]

text \<open>The loop over the tokens, with \<open>n\<close> places left in \<open>argv\<close>: the buffer with the NULs it stores and
  the start of each token.\<close>

fun split_args :: "nat \<Rightarrow> u8 list \<Rightarrow> nat \<Rightarrow> (u8 list \<times> nat list) option" where
  "split_args 0 buf tok = do { _ \<leftarrow> get_at buf tok; Some (buf, []) }"
| "split_args (Suc n) buf tok = do {
     c \<leftarrow> get_at buf tok;
     if c = 0 then Some (buf, [])
     else do {
       tok \<leftarrow> scan_while (\<lambda>c. c = 32) buf tok;
       c \<leftarrow> get_at buf tok;
       if c = 0 then Some (buf, [])
       else do {
         e \<leftarrow> scan_while (\<lambda>c. c \<noteq> 0 \<and> c \<noteq> 32) buf tok;
         c \<leftarrow> get_at buf e;
         (buf, e) \<leftarrow> (if c \<noteq> 0 then do { buf \<leftarrow> put_at buf e 0; Some (buf, e + 1) } else Some (buf, e));
         (buf, as) \<leftarrow> split_args n buf e;
         Some (buf, tok # as)
       }
     }
   }"

definition argv_of :: "u8 list \<Rightarrow> (u8 list \<times> u8 list list) option" where
  "argv_of input = do {
     (buf, as) \<leftarrow> split_args MAX_ARGS input 0;
     Some (buf, map (\<lambda>i. cstr (drop i buf)) as)
   }"

section \<open>The login\<close>

definition login_banner :: "u8 list \<Rightarrow> (shell \<Rightarrow> stop + shell) list" where
  "login_banner version =
     [say (10 # [10]) [], colour VGA_LIGHT_CYAN VGA_BLACK,
      say (ln ''    +============================================================+'') [],
      say (ln ''    |                                                            |'') [],
      say (bytes ''    |                       |'' @ 92 # ln ''---/|                              |'') [],
      say (ln ''    |                       | ,_, |                              |'') [],
      say (bytes ''    |                        '' @ 92 # ln ''_`_/-..--.                         |'') [],
      say (bytes ''    |                     ___/ `   '' @ 39 # bytes '' ,+ '' @ 92 # ln ''                        |'') [],
      say (bytes ''    |                    (__...'' @ 39 # ln ''  _/  |`._;                      |'') [],
      say (bytes ''    |                      (_,..'' @ 39 # ln ''(_,.`__)                        |'') [],
      say (ln ''    |                                                            |'') [],
      say (ln ''    |                        MyMisu OS                           |'') [],
      say (ln ''    |              a bare-metal x86 operating system             |'') [],
      say (ln ''    |                                                            |'') [],
      colour VGA_DARK_GREY VGA_BLACK,
      say (ln ''    |                          %s                            |'') [Str (Some version)],
      colour VGA_LIGHT_CYAN VGA_BLACK,
      say (ln ''    +============================================================+'') [], say ([10]) []]"

definition valid_login :: "u8 list \<Rightarrow> u8 list \<Rightarrow> bool" where
  "valid_login user pass \<longleftrightarrow>
     (strcmp user (bytes ''misu'') = 0 \<and> strcmp pass (bytes ''misu'') = 0)
     \<or> (strcmp user (bytes ''admin'') = 0 \<and> strcmp pass (bytes ''admin'') = 0)
     \<or> (strcmp user (bytes ''james'') = 0 \<and> strcmp pass (bytes ''1234'') = 0)"

text \<open>One field of the login: its label, then the input; the field's bytes with the state.\<close>

definition ask :: "u8 list \<Rightarrow> (u8 \<Rightarrow> u8) \<Rightarrow> shell \<Rightarrow> stop + u8 list \<times> shell" where
  "ask label echo s =
     andthen (steps [colour VGA_LIGHT_GREY VGA_BLACK, say label [], colour VGA_WHITE VGA_BLACK] s) (\<lambda>s.
       andthen (read_field 31 echo True s) (\<lambda>((buf, _), s). Inr (buf, s)))"

definition login_refused :: "int \<Rightarrow> (shell \<Rightarrow> stop + shell) list" where
  "login_refused attempts =
     [colour VGA_LIGHT_RED VGA_BLACK,
      say (10 # ln ''                       Invalid credentials (attempt %d).'') [Word (word_of_int attempts)]]
     @ (if attempts \<ge> 3
        then [colour VGA_DARK_GREY VGA_BLACK, say (ln ''                       Hint: misu/misu or admin/admin'') []]
        else []) @ [say [10] []]"

text \<open>The attempts, at most \<open>n\<close>: each takes at least the two newlines from the input.\<close>

fun login_loop :: "nat \<Rightarrow> int \<Rightarrow> shell \<Rightarrow> stop + shell" where
  "login_loop 0 attempts s = Inl Waiting"
| "login_loop (Suc n) attempts s =
     andthen (ask (bytes ''                       Username: '') (\<lambda>c. c) s) (\<lambda>(user, s).
     andthen (ask (bytes ''                       Password: '') (\<lambda>c. 42) s) (\<lambda>(pass, s).
       if valid_login user pass
       then steps [colour VGA_LIGHT_GREEN VGA_BLACK,
              say (10 # ln ''                       Authenticated. Welcome, %s.'') [Str (Some user)],
              busy_wait 150, clear] s
       else andthen (or_fault (cint (attempts + 1))) (\<lambda>attempts.
              andthen (steps (login_refused attempts) s) (login_loop n attempts))))"

definition login_screen :: "u8 list \<Rightarrow> shell \<Rightarrow> stop + shell" where
  "login_screen version s =
     andthen (clear s) (\<lambda>s. andthen (steps (login_banner version) s) (\<lambda>s. login_loop (Suc (pending s)) 0 s))"

end
