(* ===== verification/Screens.thy ===== *)
theory Screens
  imports Shell
begin

text \<open>
  The commands of \<^verbatim>\<open>src/shell.c\<close> that only print: help, the colours, the summaries of the system, the
  clock and the log. Each is its sequence of colours and formatted output; the numbers are those of
  the state in which the command starts.
\<close>

section \<open>Help and colours\<close>

definition cmd_help :: "shell \<Rightarrow> stop + shell" where
  "cmd_help = steps
     [colour VGA_WHITE VGA_BLACK, say (10 # ln ''  MyMisu OS  -  Command Reference'') [],
      colour VGA_DARK_GREY VGA_BLACK,
      say (ln ''  ----------------------------------------------------------'') [],
      colour VGA_LIGHT_CYAN VGA_BLACK, say (10 # ln ''  SYSTEM'') [], colour VGA_LIGHT_GREY VGA_BLACK,
      say (ln ''    help      Show this command reference'') [],
      say (ln ''    clear     Clear the screen'') [],
      say (ln ''    info      System info (uptime, memory, processes)'') [],
      say (ln ''    neofetch  ASCII art system summary'') [], say (ln ''    version   Print OS version'') [],
      say (ln ''    date      Show current tick / uptime as date'') [],
      say (ln ''    time      Show uptime in HH:MM:SS'') [],
      say (ln ''    history   Show command history'') [],
      say (ln ''    color     Change colors:  color <fg> <bg>  (0-15)'') [],
      say (ln ''    colors    Show all 16 VGA colors'') [], say (ln ''    echo      Echo text back'') [],
      colour VGA_LIGHT_CYAN VGA_BLACK, say (10 # ln ''  FILES'') [], colour VGA_LIGHT_GREY VGA_BLACK,
      say (ln ''    ls        List files in current directory'') [],
      say (ln ''    pwd       Print current directory path'') [],
      say (ln ''    cd        Change directory:  cd <name>  or  cd ..'') [],
      say (ln ''    cat       Show file contents:  cat <file>'') [],
      say (ln ''    touch     Create empty file:  touch <name>'') [],
      say (ln ''    write     Write text to file:  write <file> <text>'') [],
      say (ln ''    edit      Open text editor:  edit <file>'') [],
      say (ln ''    mkdir     Create directory:  mkdir <name>'') [],
      say (ln ''    rm        Delete file or empty dir:  rm <name>'') [],
      say (ln ''    tree      Show filesystem as a tree'') [], colour VGA_LIGHT_CYAN VGA_BLACK,
      say (10 # ln ''  PROCESSES'') [], colour VGA_LIGHT_GREY VGA_BLACK,
      say (ln ''    ps        Quick process list'') [],
      say (ln ''    top       Live process viewer (refreshes every 500ms)'') [],
      say (ln ''    spawn     Start a kernel task:  spawn <name>'') [],
      say (ln ''              names: counter, spinner, ticker, all'') [],
      say (ln ''    kill      Stop a process:  kill <pid>'') [],
      say (ln ''    meminfo   Show memory usage details'') [],
      say (ln ''    syscall   Run all 19 syscalls and report PASS/FAIL'') [],
      say (ln ''    dmesg     Show kernel log buffer'') [], colour VGA_LIGHT_CYAN VGA_BLACK,
      say (10 # ln ''  APPS'') [], colour VGA_LIGHT_GREY VGA_BLACK,
      say (ln ''    menu      Visual menu (arrow keys)'') [], say (ln ''    files     File browser'') [],
      say (ln ''    reader    Read text files page by page'') [],
      say (ln ''    sysmon    System monitor dashboard'') [],
      say (ln ''    calc      Calculator:  calc <a> <op> <b>'') [],
      say (ln ''    note      Notepad:  note add <text>  /  note list'') [],
      say (ln ''    cowsay    ASCII cow says something:  cowsay <text>'') [],
      say (ln ''    widgets   Desktop widgets dashboard'') [], colour VGA_LIGHT_CYAN VGA_BLACK,
      say (10 # ln ''  GAMES'') [], colour VGA_LIGHT_GREY VGA_BLACK,
      say (ln ''    snake     Classic snake (arrow keys, Q to quit)'') [],
      say (ln ''    ttt       Tic-tac-toe vs unbeatable CPU (numpad 1-9)'') [],
      say (ln ''    ttt2      Tic-tac-toe two-player'') [], say (ln ''    hangman   Word guessing game'') [],
      say (ln ''    rps       Rock paper scissors vs CPU (best of 5)'') [],
      say (ln ''    pong      Two-player pong (W/S vs I/K)'') [], colour VGA_LIGHT_CYAN VGA_BLACK,
      say (10 # ln ''  POWER'') [], colour VGA_LIGHT_GREY VGA_BLACK,
      say (ln ''    reboot    Restart the system'') [], say (ln ''    shutdown  Halt the CPU'') [],
      say (ln ''    exit      Same as shutdown'') [],
      say (ln ''    panic     Trigger a kernel panic (demo only)'') [], say ([10]) [],
      colour VGA_DARK_GREY VGA_BLACK,
      say (ln ''  Tip: try  spawn all  then  top  to see preemptive multitasking.'' @ [10]) [],
      colour VGA_LIGHT_GREY VGA_BLACK]"

definition colour_names :: "u8 list list" where
  "colour_names = map bytes
     [''0  black'', ''1  blue'', ''2  green'', ''3  cyan'', ''4  red'', ''5  magenta'', ''6  brown'', ''7  light grey'',
      ''8  dark grey'', ''9  light blue'', ''10 light green'', ''11 light cyan'',
      ''12 light red'', ''13 light magenta'', ''14 yellow'', ''15 white'']"

definition colour_row :: "nat \<Rightarrow> shell \<Rightarrow> stop + shell" where
  "colour_row i = steps
     [colour (of_nat i) VGA_BLACK, say (bytes ''    %s'') [Str (Some (colour_names ! i))],
      colour VGA_BLACK (of_nat i), say (bytes ''        '') [], colour VGA_LIGHT_GREY VGA_BLACK, say [10] []]"

definition cmd_colors :: "shell \<Rightarrow> stop + shell" where
  "cmd_colors = steps
     [colour VGA_WHITE VGA_BLACK, say (10 # ln ''  VGA Color Palette'') [], colour VGA_DARK_GREY VGA_BLACK,
      say (ln ''  -----------------'') [], loop colour_row [0 ..< 16],
      say [10] [],
      colour VGA_DARK_GREY VGA_BLACK,
      say (ln ''  Use:  color <fg> <bg>     example:  color 14 0   (yellow on black)'') [],
      say (ln ''  Reset: color 7 0'' @ [10]) [], colour VGA_LIGHT_GREY VGA_BLACK]"

section \<open>Summaries\<close>

definition num :: "nat \<Rightarrow> vararg" where
  "num n = Word (of_nat n)"

definition arg_str :: "u8 list \<Rightarrow> vararg" where
  "arg_str a = Str (Some a)"

definition swatch :: "nat \<Rightarrow> shell \<Rightarrow> stop + shell" where
  "swatch i = steps [colour VGA_BLACK (of_nat i), say (bytes ''   '') []]"

definition cmd_neofetch :: "shell \<Rightarrow> stop + shell" where
  "cmd_neofetch = with_state (\<lambda>s. let t = ticks s; sec = t div 100; m = sec div 60; sec = sec mod 60 in
     [say [10] [],
      colour VGA_LIGHT_CYAN VGA_BLACK, say (bytes ''       /'' @ 92 # bytes ''_/'' @ 92 # bytes ''    '') [],
      colour VGA_WHITE VGA_BLACK, say (ln ''misu@misu-pc'') [], colour VGA_LIGHT_CYAN VGA_BLACK,
      say (bytes ''      ( o.o )   '') [], colour VGA_DARK_GREY VGA_BLACK, say (ln ''----------------'') [],
      colour VGA_LIGHT_CYAN VGA_BLACK, say (bytes ''       > ^ <    '') [], say (bytes ''OS:      '') [],
      colour VGA_LIGHT_GREY VGA_BLACK, say (ln ''MyMisu OS v0.5.0'') [], colour VGA_LIGHT_CYAN VGA_BLACK,
      say (bytes ''      /|   |'' @ 92 # bytes ''   '') [], say (bytes ''Kernel:  '') [],
      colour VGA_LIGHT_GREY VGA_BLACK, say (ln ''MisuKernel i686'') [], colour VGA_LIGHT_CYAN VGA_BLACK,
      say (bytes ''     (_|   |_)  '') [], say (bytes ''Uptime:  '') [], colour VGA_LIGHT_GREY VGA_BLACK,
      say (ln ''%d min %d sec'') [Word m, Word sec], say (bytes ''                '') [], colour VGA_LIGHT_CYAN VGA_BLACK,
      say (bytes ''Shell:   '') [], colour VGA_LIGHT_GREY VGA_BLACK, say (ln ''misu-sh 2.0'') [],
      say (bytes ''                '') [], colour VGA_LIGHT_CYAN VGA_BLACK, say (bytes ''Memory:  '') [],
      colour VGA_LIGHT_GREY VGA_BLACK,
      say (ln ''%d/%d KB'') [Word (pmm_get_used_pages (the_pages s) * 4), Word (pmm_get_total_memory_kb (the_pages s))],
      say (bytes ''                '') [], colour VGA_LIGHT_CYAN VGA_BLACK, say (bytes ''Procs:   '') [],
      colour VGA_LIGHT_GREY VGA_BLACK, say (ln ''%d'') [num (process_get_count (the_procs s))],
      say (bytes ''                '') [], colour VGA_LIGHT_CYAN VGA_BLACK, say (bytes ''Files:   '') [],
      colour VGA_LIGHT_GREY VGA_BLACK,
      say (ln ''%d files, %d dirs'') [num (fs_get_file_count (the_fs s)), num (fs_get_dir_count (the_fs s))],
      say (bytes ''                '') [], loop swatch [0 ..< 8],
      colour VGA_LIGHT_GREY VGA_BLACK, say (10 # bytes ''                '') [], loop swatch [8 ..< 16],
      colour VGA_LIGHT_GREY VGA_BLACK, say [10, 10] []])"

definition cmd_info :: "shell \<Rightarrow> stop + shell" where
  "cmd_info = with_state (\<lambda>s.
     [colour VGA_LIGHT_CYAN VGA_BLACK, say (10 # ln ''  MyMisu OS v0.5.0'') [],
      colour VGA_LIGHT_GREY VGA_BLACK, say (ln ''  Arch: x86 (i686) | VGA 80x25 | PS/2 | PIT 100Hz'') [],
      say (ln ''  Memory: %d KB total, %d KB free'') [Word (pmm_get_total_memory_kb (the_pages s)), Word (pmm_get_free_pages (the_pages s) * 4)],
      say (ln ''  Procs: %d | FS: %d files, %d dirs'') [num (process_get_count (the_procs s)), num (fs_get_file_count (the_fs s)), num (fs_get_dir_count (the_fs s))],
      say (ln ''  Syscalls: write,read,mkdir,getpid,uptime'') [],
      say (ln ''  Built: GCC 13.2.0 | By: James Mardi, Danny + AI'' @ [10]) []])"

definition meminfo_bar :: "u32 \<Rightarrow> nat \<Rightarrow> shell \<Rightarrow> stop + shell" where
  "meminfo_bar f i = steps
     [if of_nat i < f then colour VGA_LIGHT_RED VGA_BLACK else colour VGA_GREEN VGA_BLACK,
      say (if of_nat i < f then bytes ''#'' else bytes ''-'') []]"

definition cmd_meminfo :: "shell \<Rightarrow> stop + shell" where
  "cmd_meminfo = with_state (\<lambda>s.
     let total = pmm_get_total_pages (the_pages s); used = pmm_get_used_pages (the_pages s);
         free_p = pmm_get_free_pages (the_pages s);
         f = (if total > 0 then used * 40 div total else 0) in
     [colour VGA_WHITE VGA_BLACK, say (10 # ln ''  Memory:'') [], colour VGA_LIGHT_GREY VGA_BLACK,
      say (ln ''  Total: %d KB (%d MB)'') [Word (total * 4), Word (total * 4 div 1024)], colour VGA_GREEN VGA_BLACK,
      say (ln ''  Free:  %d pages (%d KB)'') [Word free_p, Word (free_p * 4)], colour VGA_LIGHT_RED VGA_BLACK,
      say (ln ''  Used:  %d pages (%d KB)'') [Word used, Word (used * 4)], colour VGA_WHITE VGA_BLACK,
      say (bytes ''  ['') [],
      loop (meminfo_bar f) [0 ..< 40],
      colour VGA_WHITE VGA_BLACK,
      say (bytes ''] %d%%'' @ [10, 10]) [Word (if total > 0 then used * 100 div total else 0)]])"

definition cmd_version :: "shell \<Rightarrow> stop + shell" where
  "cmd_version = steps
     [colour VGA_LIGHT_CYAN VGA_BLACK, say (10 # ln ''  MyMisu OS v0.5.0'') [], colour VGA_LIGHT_GREY VGA_BLACK,
      say (ln ''  MisuKernel i686 | misu-sh 2.0 | GCC 13.2.0'' @ [10]) []]"

section \<open>Time\<close>

definition cmd_time :: "shell \<Rightarrow> stop + shell" where
  "cmd_time = with_state (\<lambda>s. let t = ticks s; sec = t div 100; m = sec div 60; sec = sec mod 60 in
     [say (10 # ln ''  %dm %ds'' @ [10]) [Word m, Word sec]])"

text \<open>The battery-backed clock: \<open>rtc\<close> gives the contents of its registers, two decimal digits a byte.\<close>

definition bcd :: "u8 \<Rightarrow> u8" where
  "bcd v = (v AND 0xF) + drop_bit 4 v * 10"

definition read_rtc :: "u8 list \<Rightarrow> shell \<Rightarrow> stop + shell" where
  "read_rtc regs = on_screen (\<lambda>t. Inr (fold (outb 0x70) regs t))"

definition cmd_date :: "(u8 \<Rightarrow> u8) \<Rightarrow> shell \<Rightarrow> stop + shell" where
  "cmd_date rtc = steps
     [read_rtc [0x00, 0x02, 0x04, 0x07, 0x08, 0x09],
      say (10 # ln ''  20%d-%d-%d %d:%d:%d'' @ [10])
        (map (\<lambda>r. Word (ucast (bcd (rtc r)))) [0x09, 0x08, 0x07, 0x04, 0x02, 0x00])]"

section \<open>Arguments shown, history, log\<close>

text \<open>The arguments joined by spaces in a buffer.\<close>

fun join_args :: "u8 list \<Rightarrow> u8 list list \<Rightarrow> u8 list option" where
  "join_args buf [] = Some buf"
| "join_args buf [a] = strcat buf a"
| "join_args buf (a # b # as) = do {
     buf \<leftarrow> strcat buf a;
     buf \<leftarrow> strcat buf (bytes '' '');
     join_args buf (b # as)
   }"

definition cmd_echo :: "u8 list list \<Rightarrow> shell \<Rightarrow> stop + shell" where
  "cmd_echo argv = steps
     [colour VGA_LIGHT_GREY VGA_BLACK,
      loop (\<lambda>i. steps (say (bytes ''%s'') [Str (Some (argv ! i))]
          # (if i < length argv - 1 then [say (bytes '' '') []] else []))) [1 ..< length argv],
      say [10] []]"

definition cmd_cowsay :: "u8 list list \<Rightarrow> shell \<Rightarrow> stop + shell" where
  "cmd_cowsay argv s =
     (let msg = replicate 256 0 in
      andthen (or_fault (if length argv < 2 then strcpy msg (bytes ''Meow!'') else join_args msg (drop 1 argv))) (\<lambda>msg.
      let dashes = loop (\<lambda>i. say (bytes ''-'') []) [0 ..< strlen msg + 2] in steps
     [colour VGA_LIGHT_GREY VGA_BLACK, say (10 # bytes ''  '') [], dashes, say [10] [],
      say (ln ''  | %s |'') [Str (Some msg)], say (bytes ''  '') [], dashes, say [10] [],
      colour VGA_LIGHT_CYAN VGA_BLACK,
      say (bytes ''    '' @ 92 # bytes ''   /'' @ 92 # bytes ''_/'' @ 92 # 10 # bytes ''     '' @ 92 # ln '' ( o.o )''
         @ ln ''       > ^ <'' @ [10]) [],
      colour VGA_LIGHT_GREY VGA_BLACK] s))"

definition cmd_history_show :: "shell \<Rightarrow> stop + shell" where
  "cmd_history_show = with_state (\<lambda>s.
     [colour VGA_WHITE VGA_BLACK, say (10 # ln ''  History:'') [],
      loop (\<lambda>i. say (ln ''  %d  %s'') [num (i + 1), Str (Some (history s ! i))]) [0 ..< history_count s],
      say [10] []])"

definition cmd_dmesg :: "shell \<Rightarrow> stop + shell" where
  "cmd_dmesg = with_state (\<lambda>s.
     let l = log (s_kern (sh_sys s)) in
     [colour VGA_WHITE VGA_BLACK,
      say (10 # ln ''  Kernel Log Buffer  (%d entries)'') [num (klog_count l)],
      colour VGA_DARK_GREY VGA_BLACK, say (ln ''  ----------------------------------------'') [],
      on_screen (\<lambda>t. case klog_print l t of None \<Rightarrow> Inl Fault | Some r \<Rightarrow> r),
      colour VGA_LIGHT_GREY VGA_BLACK, say [10] []])"

definition cmd_color :: "u8 list list \<Rightarrow> shell \<Rightarrow> stop + shell" where
  "cmd_color argv s =
     (if length argv < 3 then say (ln ''  color <fg> <bg>'') [] s
      else andthen (or_fault (atoi (argv ! 1))) (\<lambda>fg. andthen (or_fault (atoi (argv ! 2))) (\<lambda>bg.
        if fg \<ge> 0 \<and> fg < 16 \<and> bg \<ge> 0 \<and> bg < 16
        then steps [colour (word_of_int fg) (word_of_int bg), say (ln ''  Done!'') []] s
        else say (ln ''  0-15!'') [] s)))"

end
