(* ===== verification/Games.thy ===== *)
theory Games
  imports Screens
begin

text \<open>
  The games of \<^verbatim>\<open>src/shell.c\<close>: guess the number, snake, tic-tac-toe against the CPU and for two,
  hangman, rock paper scissors and pong. Each game has its state, its rules as functions on it, and
  the loop that draws, reads keys and applies the rules. Where a loop ends by the player's keys, its
  rounds are bounded by the keys (or the halts) still to come, which every round uses up.
\<close>

definition say_str :: "string \<Rightarrow> shell \<Rightarrow> stop + shell" where
  "say_str t = say (bytes t) []"

definition say_line :: "string \<Rightarrow> shell \<Rightarrow> stop + shell" where
  "say_line t = say (ln t) []"

definition int_arg :: "int \<Rightarrow> vararg" where
  "int_arg v = Word (word_of_int v)"

section \<open>Guess the number\<close>

fun game_loop :: "nat \<Rightarrow> int \<Rightarrow> shell \<Rightarrow> stop + shell" where
  "game_loop 0 secret s = steps [say (ln ''  It was %d'' @ [10]) [int_arg secret], colour VGA_LIGHT_GREY VGA_BLACK] s"
| "game_loop (Suc att) secret s =
     andthen (steps [colour VGA_YELLOW VGA_BLACK, say (bytes ''  (%d): '') [num (Suc att)],
         colour VGA_LIGHT_GREEN VGA_BLACK] s) (\<lambda>s.
     andthen (read_field 15 (\<lambda>c. c) True s) (\<lambda>((gb, _), s).
     andthen (or_fault (atoi (cstr gb))) (\<lambda>g.
       if g = secret
       then steps [colour VGA_LIGHT_GREEN VGA_BLACK, say (ln ''  Yes! %d!'' @ [10]) [int_arg secret]] s
       else andthen (if g < secret then say_line ''  Higher!'' s else say_line ''  Lower!'' s)
              (game_loop att secret))))"

definition cmd_game :: "shell \<Rightarrow> stop + shell" where
  "cmd_game s = andthen (steps [colour VGA_WHITE VGA_BLACK, say (10 # ln ''  Guess 1-20 (5 tries)'' @ [10]) []] s)
     (game_loop 5 (uint (ticks s mod 20 + 1)))"

section \<open>Snake\<close>

abbreviation (input) SNAKE_W :: int where "SNAKE_W \<equiv> 40"
abbreviation (input) SNAKE_H :: int where "SNAKE_H \<equiv> 18"
abbreviation (input) SNAKE_MAX :: nat where "SNAKE_MAX \<equiv> 200"

record snake =
  sx :: "int list"
  sy :: "int list"
  slen :: nat
  dir :: nat
  fx :: int
  fy :: int
  score :: int

definition food_x :: "u32 \<Rightarrow> int" where
  "food_x t = uint (t mod (40 - 2) + 1)"

definition food_y :: "u32 \<Rightarrow> int" where
  "food_y t = uint (t div 7 mod (18 - 2) + 1)"

text \<open>\<open>junk\<close> is what the local arrays hold before they are written.\<close>

definition snake_start :: "int list \<Rightarrow> int list \<Rightarrow> u32 \<Rightarrow> snake" where
  "snake_start junkx junky t =
     \<lparr>sx = map (\<lambda>i. SNAKE_W div 2 - int i) [0 ..< 3] @ drop 3 junkx,
      sy = replicate 3 (SNAKE_H div 2) @ drop 3 junky,
      slen = 3, dir = 3, fx = food_x t, fy = food_y t, score = 0\<rparr>"

text \<open>A key: whether the game goes on, and the direction (0 up, 1 down, 2 left, 3 right).\<close>

definition snake_key :: "u8 \<Rightarrow> snake \<Rightarrow> bool \<times> snake" where
  "snake_key c k =
     (if c = 1 \<and> dir k \<noteq> 1 then (True, k\<lparr>dir := 0\<rparr>)
      else if c = 2 \<and> dir k \<noteq> 0 then (True, k\<lparr>dir := 1\<rparr>)
      else if c = 3 \<and> dir k \<noteq> 3 then (True, k\<lparr>dir := 2\<rparr>)
      else if c = 4 \<and> dir k \<noteq> 2 then (True, k\<lparr>dir := 3\<rparr>)
      else if c = 0x1B then (False, k) else (True, k))"

text \<open>The body follows the head, from the tail on.\<close>

fun follow :: "nat \<Rightarrow> int list \<Rightarrow> int list option" where
  "follow 0 xs = Some xs"
| "follow (Suc i) xs = do { v \<leftarrow> get_at xs i; xs \<leftarrow> put_at xs (Suc i) v; follow i xs }"

text \<open>One step: whether the game is over, and the new state.\<close>

definition snake_step :: "u32 \<Rightarrow> snake \<Rightarrow> (bool \<times> snake) option" where
  "snake_step t k = do {
     xs \<leftarrow> follow (slen k - 1) (sx k);
     ys \<leftarrow> follow (slen k - 1) (sy k);
     let x = (if dir k = 2 then xs ! 0 - 1 else if dir k = 3 then xs ! 0 + 1 else xs ! 0);
         y = (if dir k = 0 then ys ! 0 - 1 else if dir k = 1 then ys ! 0 + 1 else ys ! 0) in do {
       xs \<leftarrow> put_at xs 0 x;
       ys \<leftarrow> put_at ys 0 y;
       let wall = (x \<le> 0 \<or> x \<ge> SNAKE_W - 1 \<or> y \<le> 0 \<or> y \<ge> SNAKE_H - 1);
           bite = (\<exists>i \<in> set [1 ..< slen k]. x = xs ! i \<and> y = ys ! i);
           k = k\<lparr>sx := xs, sy := ys\<rparr> in
       Some (wall \<or> bite,
         if x = fx k \<and> y = fy k
         then k\<lparr>score := score k + 10, slen := (if slen k < SNAKE_MAX then slen k + 1 else slen k),
                fx := food_x t, fy := food_y t\<rparr>
         else k)
     }
   }"

definition snake_cell :: "snake \<Rightarrow> int \<Rightarrow> int \<Rightarrow> shell \<Rightarrow> stop + shell" where
  "snake_cell k y x = steps
     (if y = 0 \<or> y = SNAKE_H - 1 \<or> x = 0 \<or> x = SNAKE_W - 1
      then [colour VGA_DARK_GREY VGA_BLACK, say_str ''#'']
      else if x = fx k \<and> y = fy k then [colour VGA_LIGHT_RED VGA_BLACK, say_str ''@'']
      else if \<exists>i \<in> set [0 ..< slen k]. sx k ! i = x \<and> sy k ! i = y
      then [colour VGA_LIGHT_GREEN VGA_BLACK, say_str ''O''] else [say_str '' ''])"

definition snake_draw :: "snake \<Rightarrow> shell \<Rightarrow> stop + shell" where
  "snake_draw k = steps
     [clear, colour VGA_WHITE VGA_BLACK, say (ln ''  SNAKE %d | ESC quit'' @ [10]) [int_arg (score k)],
      loop (\<lambda>y. steps [say_str ''  '', loop (snake_cell k y) [0 .. SNAKE_W - 1], say [10] []]) [0 .. SNAKE_H - 1]]"

fun snake_loop :: "nat \<Rightarrow> snake \<Rightarrow> shell \<Rightarrow> stop + snake \<times> shell" where
  "snake_loop 0 k s = Inl Waiting"
| "snake_loop (Suc n) k s =
     andthen (snake_draw k s) (\<lambda>s.
     andthen (poll_wait (halts s) (ticks s) 10 snake_key (k, s)) (\<lambda>(go, k, s).
       if \<not> go then Inr (k, s)
       else andthen (or_fault (snake_step (ticks s) k)) (\<lambda>(over, k).
         if over then Inr (k, s) else snake_loop n k s)))"

definition cmd_snake :: "int list \<Rightarrow> int list \<Rightarrow> shell \<Rightarrow> stop + shell" where
  "cmd_snake junkx junky s =
     andthen (snake_loop (Suc (length (halts s))) (snake_start junkx junky (ticks s)) s) (\<lambda>(k, s).
       steps [clear, colour VGA_LIGHT_RED VGA_BLACK, say (10 # ln ''  GAME OVER! %d'' @ [10]) [int_arg (score k)],
         colour VGA_LIGHT_GREY VGA_BLACK] s)"

section \<open>Tic-tac-toe\<close>

definition win_lines :: "nat list list" where
  "win_lines = [[0, 1, 2], [3, 4, 5], [6, 7, 8], [0, 3, 6], [1, 4, 7], [2, 5, 8], [0, 4, 8], [2, 4, 6]]"

abbreviation (input) MARK_X :: u8 where "MARK_X \<equiv> 88"
abbreviation (input) MARK_O :: u8 where "MARK_O \<equiv> 79"

text \<open>The winner, 0 for none: the last full line decides.\<close>

definition winner :: "u8 list \<Rightarrow> u8" where
  "winner b = fold (\<lambda>w wn. if b ! (w ! 0) \<noteq> 32 \<and> b ! (w ! 0) = b ! (w ! 1) \<and> b ! (w ! 1) = b ! (w ! 2)
     then b ! (w ! 0) else wn) win_lines 0"

definition board_full :: "u8 list \<Rightarrow> bool" where
  "board_full b \<longleftrightarrow> (\<forall>i \<in> set [0 ..< 9]. b ! i \<noteq> 32)"

text \<open>A line with two marks of \<open>ch\<close> and an empty cell: that cell (the last one found).\<close>

definition line_gap :: "u8 list \<Rightarrow> u8 \<Rightarrow> nat list \<Rightarrow> nat option" where
  "line_gap b ch w =
     (if length (filter (\<lambda>i. b ! i = ch) w) = 2
      then (case filter (\<lambda>i. b ! i \<noteq> ch \<and> b ! i = 32) w of [] \<Rightarrow> None | is \<Rightarrow> Some (last is)) else None)"

fun first_gap :: "u8 list \<Rightarrow> u8 \<Rightarrow> nat list list \<Rightarrow> nat option" where
  "first_gap b ch [] = None"
| "first_gap b ch (w # ws) = (case line_gap b ch w of Some i \<Rightarrow> Some i | None \<Rightarrow> first_gap b ch ws)"

fun first_free :: "u8 list \<Rightarrow> nat list \<Rightarrow> nat option" where
  "first_free b [] = None"
| "first_free b (i # is) = (if b ! i = 32 then Some i else first_free b is)"

text \<open>The CPU completes its own line, else blocks the player's, else takes the centre, a corner, any
  cell.\<close>

definition cpu_choice :: "u8 list \<Rightarrow> nat option" where
  "cpu_choice b =
     (case first_gap b MARK_O win_lines of Some i \<Rightarrow> Some i
      | None \<Rightarrow> (case first_gap b MARK_X win_lines of Some i \<Rightarrow> Some i
      | None \<Rightarrow> (case first_free b [4] of Some i \<Rightarrow> Some i
      | None \<Rightarrow> (case first_free b [0, 2, 6, 8] of Some i \<Rightarrow> Some i
      | None \<Rightarrow> first_free b [0 ..< 9]))))"

definition cpu_move :: "u8 list \<Rightarrow> u8 list" where
  "cpu_move b = (case cpu_choice b of None \<Rightarrow> b | Some i \<Rightarrow> b[i := MARK_O])"

text \<open>A key of a player: whether it was a move, and the board.\<close>

definition player_move :: "u8 \<Rightarrow> u8 \<Rightarrow> u8 list \<Rightarrow> bool \<times> u8 list" where
  "player_move mark c b =
     (let p = sint c - 49 in
      if p \<ge> 0 \<and> p < 9 \<and> b ! nat p = 32 then (True, b[nat p := mark]) else (False, b))"

definition ttt_cell :: "u8 \<Rightarrow> u8 list \<Rightarrow> nat \<Rightarrow> nat \<Rightarrow> shell \<Rightarrow> stop + shell" where
  "ttt_cell o_colour b r c =
     (let ch = b ! (r * 3 + c) in steps
     [colour (if ch = MARK_X then VGA_LIGHT_GREEN else if ch = MARK_O then o_colour else VGA_DARK_GREY) VGA_BLACK,
      say (bytes '' %c '') [Word (ucast (if ch = MARK_X \<or> ch = MARK_O then ch else 49 + of_nat (r * 3 + c)))],
      colour VGA_WHITE VGA_BLACK, if c < 2 then say_str ''|'' else Inr])"

definition ttt_draw :: "u8 list \<Rightarrow> u8 \<Rightarrow> u8 list \<Rightarrow> shell \<Rightarrow> stop + shell" where
  "ttt_draw title o_colour b = steps
     [colour VGA_WHITE VGA_BLACK, say title [],
      loop (\<lambda>r. steps [say_str ''       '', loop (ttt_cell o_colour b r) [0 ..< 3], say [10] [],
        if r < 2 then say_line ''       ---+---+---'' else Inr]) [0 ..< 3],
      say [10] []]"

text \<open>The end of a game: the winner's mark, or 0 for a draw; \<open>None\<close> while it goes on.\<close>

definition ttt_result :: "u8 list \<Rightarrow> u8 option" where
  "ttt_result b =
     (if winner b = MARK_X then Some MARK_X else if winner b = MARK_O then Some MARK_O
      else if board_full b then Some 0 else None)"

definition ttt_message :: "string \<Rightarrow> string \<Rightarrow> u8 \<Rightarrow> shell \<Rightarrow> stop + shell" where
  "ttt_message x_wins o_wins r =
     say (ln (if r = MARK_X then x_wins else if r = MARK_O then o_wins else ''  Draw!'') @ [10]) []"

text \<open>The rounds of a game, with its result: the CPU's rounds take no key, so there are at most twice as many
  rounds as keys.\<close>

fun ttt_loop :: "nat \<Rightarrow> bool \<Rightarrow> u8 list \<Rightarrow> shell \<Rightarrow> stop + u8 \<times> shell" where
  "ttt_loop 0 cpu b s = Inl Waiting"
| "ttt_loop (Suc n) cpu b s =
     andthen (ttt_draw (10 # ln ''  TTT You=X CPU=O'' @ [10]) VGA_LIGHT_RED b s) (\<lambda>s.
       case ttt_result b of
         Some r \<Rightarrow> andthen (ttt_message ''  You win!'' ''  CPU wins!'' r s) (\<lambda>s. Inr (r, s))
       | None \<Rightarrow>
           if cpu then ttt_loop n False (cpu_move b) s
           else andthen (say_str ''  1-9: '' s) (\<lambda>s. andthen (getchar s) (\<lambda>(s, c).
                  andthen (steps [putc c, putc 10] s) (\<lambda>s.
                    case player_move MARK_X c b of (moved, b) \<Rightarrow> ttt_loop n moved b s))))"

definition tictactoe :: "shell \<Rightarrow> stop + u8 \<times> shell" where
  "tictactoe s = ttt_loop (2 * pending s + 2) False (replicate 9 32) s"

definition cmd_tictactoe :: "shell \<Rightarrow> stop + shell" where
  "cmd_tictactoe s = andthen (tictactoe s) (\<lambda>(_, s). Inr s)"

fun ttt2_loop :: "nat \<Rightarrow> nat \<Rightarrow> u8 list \<Rightarrow> shell \<Rightarrow> stop + shell" where
  "ttt2_loop 0 turn b s = Inl Waiting"
| "ttt2_loop (Suc n) turn b s =
     andthen (ttt_draw (10 # ln ''  TTT 2P P1=X P2=O'' @ [10]) VGA_LIGHT_CYAN b s) (\<lambda>s.
       case ttt_result b of
         Some r \<Rightarrow> ttt_message ''  P1 wins!'' ''  P2 wins!'' r s
       | None \<Rightarrow> andthen (say (bytes ''  P%d 1-9: '') [num (turn + 1)] s) (\<lambda>s. andthen (getchar s) (\<lambda>(s, c).
           andthen (steps [putc c, putc 10] s) (\<lambda>s.
             case player_move (if turn \<noteq> 0 then MARK_O else MARK_X) c b of (moved, b) \<Rightarrow>
               ttt2_loop n (if moved then 1 - turn else turn) b s))))"

definition cmd_ttt2 :: "shell \<Rightarrow> stop + shell" where
  "cmd_ttt2 s = ttt2_loop (pending s + 1) 0 (replicate 9 32) s"

section \<open>Hangman\<close>

definition hangman_words :: "u8 list list" where
  "hangman_words = map bytes
     [''kernel'', ''memory'', ''process'', ''keyboard'', ''interrupt'', ''system'', ''driver'', ''shell'', ''timer'', ''stack'']"

text \<open>\<open>g\<close> is the array of guessed letters, of which the first \<open>ng\<close> are used.\<close>

definition guessed :: "u8 list \<Rightarrow> nat \<Rightarrow> u8 \<Rightarrow> bool" where
  "guessed g ng c \<longleftrightarrow> (\<exists>j \<in> set [0 ..< ng]. g ! j = c)"

definition hangman_draw :: "u8 list \<Rightarrow> u8 list \<Rightarrow> nat \<Rightarrow> nat \<Rightarrow> shell \<Rightarrow> stop + shell" where
  "hangman_draw wd g ng lives = steps
     [colour VGA_WHITE VGA_BLACK, say (10 # bytes ''  HANGMAN '') [],
      colour (if lives > 2 then VGA_LIGHT_GREEN else VGA_LIGHT_RED) VGA_BLACK,
      loop (\<lambda>_. say_str ''<3 '') [0 ..< lives], say (10 # bytes ''  '') [],
      loop (\<lambda>c. if guessed g ng c then steps [colour VGA_LIGHT_GREEN VGA_BLACK, say (bytes ''%c '') [Word (ucast c)]]
        else steps [colour VGA_DARK_GREY VGA_BLACK, say_str ''_ '']) wd,
      say [10] []]"

datatype guess = Not_A_Letter | Repeated | Hit "u8 list \<times> nat" | Miss "u8 list \<times> nat"

definition hangman_guess :: "u8 list \<Rightarrow> u8 \<Rightarrow> u8 list \<times> nat \<Rightarrow> guess option" where
  "hangman_guess wd c st = (case st of (g, ng) \<Rightarrow>
     if sint c < 97 \<or> sint c > 122 then Some Not_A_Letter
     else if guessed g ng c then Some Repeated
     else do { g \<leftarrow> put_at g ng c;
               Some (if c \<in> set wd then Hit (g, ng + 1) else Miss (g, ng + 1)) })"

text \<open>The rounds, with the result whether the word was found.\<close>

fun hangman_loop :: "nat \<Rightarrow> u8 list \<Rightarrow> u8 list \<times> nat \<Rightarrow> nat \<Rightarrow> shell \<Rightarrow> stop + bool \<times> shell" where
  "hangman_loop 0 wd st lives s = Inl Waiting"
| "hangman_loop (Suc n) wd (g, ng) lives s =
     (if lives = 0
      then andthen (steps [say (ln ''  Dead! %s'' @ [10]) [arg_str wd], colour VGA_LIGHT_GREY VGA_BLACK] s) (\<lambda>s. Inr (False, s))
      else andthen (hangman_draw wd g ng lives s) (\<lambda>s.
        if \<forall>c \<in> set wd. guessed g ng c
        then andthen (say (ln ''  Won! %s'' @ [10]) [arg_str wd] s) (\<lambda>s. Inr (True, s))
        else andthen (say_str ''  > '' s) (\<lambda>s. andthen (getchar s) (\<lambda>(s, c).
          andthen (steps [putc c, putc 10] s) (\<lambda>s.
          andthen (or_fault (hangman_guess wd c (g, ng))) (\<lambda>r. case r of
              Not_A_Letter \<Rightarrow> hangman_loop n wd (g, ng) lives s
            | Repeated \<Rightarrow> hangman_loop n wd (g, ng) lives s
            | Hit st \<Rightarrow> andthen (say_line ''  Yes!'' s) (hangman_loop n wd st lives)
            | Miss st \<Rightarrow> andthen (say_line ''  Wrong!'' s) (hangman_loop n wd st (lives - 1))))))))"

definition hangman :: "shell \<Rightarrow> stop + bool \<times> shell" where
  "hangman s = hangman_loop (pending s + 2) (hangman_words ! unat (ticks s mod 10)) (replicate 26 0, 0) 6 s"

definition cmd_hangman :: "shell \<Rightarrow> stop + shell" where
  "cmd_hangman s = andthen (hangman s) (\<lambda>(_, s). Inr s)"

section \<open>Rock, paper, scissors\<close>

definition rps_names :: "u8 list list" where
  "rps_names = map bytes [''Rock'', ''Paper'', ''Scissors'']"

definition rps_key :: "u8 \<Rightarrow> nat option" where
  "rps_key c =
     (if c = byte CHR ''r'' then Some 0 else if c = byte CHR ''p'' then Some 1
      else if c = byte CHR ''s'' then Some 2 else None)"

definition rps_cpu :: "u32 \<Rightarrow> nat \<Rightarrow> nat" where
  "rps_cpu t rd = unat ((t + of_nat (rd * 7)) mod 3)"

definition beats :: "nat \<Rightarrow> nat \<Rightarrow> bool" where
  "beats a b \<longleftrightarrow> (a = 0 \<and> b = 2) \<or> (a = 1 \<and> b = 0) \<or> (a = 2 \<and> b = 1)"

text \<open>The rounds; the result is the score of the player and of the CPU.\<close>

fun rps_loop :: "nat \<Rightarrow> nat \<Rightarrow> nat \<Rightarrow> nat \<Rightarrow> shell \<Rightarrow> stop + (nat \<times> nat) \<times> shell" where
  "rps_loop 0 pw cw rd s = Inl Waiting"
| "rps_loop (Suc n) pw cw rd s =
     (if rd \<le> 5 \<and> pw < 3 \<and> cw < 3
      then andthen (say (bytes ''  R%d (r/p/s): '') [num rd] s) (\<lambda>s. andthen (getchar s) (\<lambda>(s, c).
        andthen (steps [putc c, putc 10] s) (\<lambda>s. case rps_key c of
            None \<Rightarrow> andthen (say_line ''  r/p/s!'' s) (rps_loop n pw cw rd)
          | Some pl \<Rightarrow> let cpu = rps_cpu (ticks s) rd;
                         pw' = (if beats pl cpu then pw + 1 else pw);
                         cw' = (if pl \<noteq> cpu \<and> \<not> beats pl cpu then cw + 1 else cw) in
              andthen (steps [say (bytes ''  %s vs %s: '') [arg_str (rps_names ! pl), arg_str (rps_names ! cpu)],
                 say_line (if pl = cpu then ''Draw'' else if beats pl cpu then ''You!'' else ''CPU!''),
                 say (ln ''  %d-%d'' @ [10]) [num pw', num cw']] s)
                (rps_loop n pw' cw' (rd + 1)))))
      else Inr ((pw, cw), s))"

definition cmd_rps :: "shell \<Rightarrow> stop + shell" where
  "cmd_rps s =
     andthen (say (10 # ln ''  RPS Best of 5'' @ [10]) [] s) (\<lambda>s.
     andthen (rps_loop (pending s + 2) 0 0 1 s) (\<lambda>((pw, cw), s). steps
       [say (ln (if pw > cw then ''  You win!'' else if cw > pw then ''  CPU wins!'' else ''  Draw!'') @ [10]) [],
        colour VGA_LIGHT_GREY VGA_BLACK] s))"

section \<open>Pong\<close>

abbreviation (input) PW :: int where "PW \<equiv> 40"
abbreviation (input) PH :: int where "PH \<equiv> 20"
abbreviation (input) PAD :: int where "PAD \<equiv> 4"

record pong =
  p1y :: int
  p2y :: int
  bx :: int
  pos_y :: int
  bdx :: int
  bdy :: int
  s1 :: int
  s2 :: int

definition pong_start :: pong where
  "pong_start = \<lparr>p1y = PH div 2 - 2, p2y = PH div 2 - 2, bx = PW div 2, pos_y = PH div 2, bdx = 1, bdy = 1, s1 = 0, s2 = 0\<rparr>"

definition pong_key :: "u8 \<Rightarrow> pong \<Rightarrow> bool \<times> pong" where
  "pong_key c g =
     (if c = byte CHR ''w'' \<and> p1y g > 1 then (True, g\<lparr>p1y := p1y g - 1\<rparr>)
      else if c = byte CHR ''s'' \<and> p1y g < PH - 1 - PAD then (True, g\<lparr>p1y := p1y g + 1\<rparr>)
      else if c = byte CHR ''i'' \<and> p2y g > 1 then (True, g\<lparr>p2y := p2y g - 1\<rparr>)
      else if c = byte CHR ''k'' \<and> p2y g < PH - 1 - PAD then (True, g\<lparr>p2y := p2y g + 1\<rparr>)
      else if c = byte CHR ''q'' then (False, g) else (True, g))"

text \<open>The moves of the ball in the order of the code: the step, the walls, the paddles, the goals.\<close>

definition pong_bounce :: "pong \<Rightarrow> pong" where
  "pong_bounce g =
     (let g = g\<lparr>bx := bx g + bdx g, pos_y := pos_y g + bdy g\<rparr>;
          g = (if pos_y g \<le> 1 \<or> pos_y g \<ge> PH - 2 then g\<lparr>bdy := - bdy g\<rparr> else g);
          g = (if bx g = 2 \<and> pos_y g \<ge> p1y g \<and> pos_y g < p1y g + PAD then g\<lparr>bdx := 1\<rparr> else g) in
      if bx g = PW - 3 \<and> pos_y g \<ge> p2y g \<and> pos_y g < p2y g + PAD then g\<lparr>bdx := - 1\<rparr> else g)"

definition pong_score :: "pong \<Rightarrow> pong" where
  "pong_score g =
     (let g = (if bx g \<le> 0 then g\<lparr>s2 := s2 g + 1, bx := PW div 2, pos_y := PH div 2, bdx := 1\<rparr> else g) in
      if bx g \<ge> PW - 1 then g\<lparr>s1 := s1 g + 1, bx := PW div 2, pos_y := PH div 2, bdx := - 1\<rparr> else g)"

definition pong_over :: "pong \<Rightarrow> bool" where
  "pong_over g \<longleftrightarrow> s1 g \<ge> 5 \<or> s2 g \<ge> 5"

definition pong_cell :: "pong \<Rightarrow> int \<Rightarrow> int \<Rightarrow> shell \<Rightarrow> stop + shell" where
  "pong_cell g y x = steps
     (if y = 0 \<or> y = PH - 1 then [colour VGA_DARK_GREY VGA_BLACK, say_str ''-'']
      else if x = 1 \<and> y \<ge> p1y g \<and> y < p1y g + PAD then [colour VGA_LIGHT_GREEN VGA_BLACK, say_str ''|'']
      else if x = PW - 2 \<and> y \<ge> p2y g \<and> y < p2y g + PAD then [colour VGA_LIGHT_CYAN VGA_BLACK, say_str ''|'']
      else if x = bx g \<and> y = pos_y g then [colour VGA_LIGHT_RED VGA_BLACK, say_str ''O'']
      else if x = PW div 2 then [colour VGA_DARK_GREY VGA_BLACK, say_str '':'']
      else [say_str '' ''])"

definition pong_draw :: "pong \<Rightarrow> shell \<Rightarrow> stop + shell" where
  "pong_draw g = steps
     [clear, colour VGA_WHITE VGA_BLACK,
      say (ln ''  PONG P1(W/S):%d P2(I/K):%d Q=quit'' @ [10]) [int_arg (s1 g), int_arg (s2 g)],
      loop (\<lambda>y. steps [say_str ''  '', loop (pong_cell g y) [0 .. PW - 1], say [10] []]) [0 .. PH - 1]]"

fun pong_loop :: "nat \<Rightarrow> pong \<Rightarrow> shell \<Rightarrow> stop + pong \<times> shell" where
  "pong_loop 0 g s = Inl Waiting"
| "pong_loop (Suc n) g s =
     andthen (pong_draw g s) (\<lambda>s.
     andthen (poll_wait (halts s) (ticks s) 8 pong_key (g, s)) (\<lambda>(go, g, s).
       if \<not> go
       then andthen (steps [clear, say (10 # ln ''  %d-%d'' @ [10]) [int_arg (s1 g), int_arg (s2 g)]] s) (\<lambda>s. Inr (g, s))
       else let g = pong_score (pong_bounce g) in
         if pong_over g
         then andthen (steps [clear, say (10 # ln ''  %s wins! %d-%d'' @ [10])
                [arg_str (bytes (if s1 g > s2 g then ''P1'' else ''P2'')), int_arg (s1 g), int_arg (s2 g)]] s)
                (\<lambda>s. Inr (g, s))
         else pong_loop n g s))"

definition cmd_pong :: "shell \<Rightarrow> stop + shell" where
  "cmd_pong s = andthen (pong_loop (Suc (length (halts s))) pong_start s) (\<lambda>(_, s). Inr s)"

end
