(* ===== verification/Files.thy ===== *)
theory Files
  imports Screens
begin

text \<open>
  The file commands of \<^verbatim>\<open>src/shell.c\<close>: \<open>ls\<close>, \<open>cat\<close>, \<open>touch\<close>, \<open>mkdir\<close>, \<open>write\<close>, \<open>rm\<close>, \<open>cd\<close>, \<open>pwd\<close>,
  \<open>edit\<close>, \<open>note\<close> and \<open>tree\<close>. Local arrays start with zeros; the code never reads a byte of them that it
  has not written.
\<close>

lemma andthen_cong [fundef_cong]:
  "r = r' \<Longrightarrow> (\<And>x. r' = Inr x \<Longrightarrow> f x = f' x) \<Longrightarrow> andthen r f = andthen r' f'"
  by (cases r') auto

text \<open>The end of most commands: a green or a red message, then the normal colour.\<close>

definition report :: "bool \<Rightarrow> (shell \<Rightarrow> stop + shell) \<Rightarrow> (shell \<Rightarrow> stop + shell) \<Rightarrow> shell \<Rightarrow> stop + shell" where
  "report ok good bad = steps
     ((if ok then [colour VGA_GREEN VGA_BLACK, good] else [colour VGA_LIGHT_RED VGA_BLACK, bad])
      @ [colour VGA_LIGHT_GREY VGA_BLACK])"

section \<open>Listing\<close>

text \<open>The loop over the listing, from the part \<open>rest\<close> of the buffer on.\<close>

function ls_loop :: "u8 list \<Rightarrow> shell \<Rightarrow> stop + shell" where
  "ls_loop rest s =
     (case rest of
        [] \<Rightarrow> Inl Fault
      | c # _ \<Rightarrow>
          if c = 0 then Inr s
          else andthen (steps
              [if take 3 rest = bytes ''DIR'' then colour VGA_LIGHT_CYAN VGA_BLACK else colour VGA_LIGHT_GREEN VGA_BLACK,
               say (bytes ''  '') [], loop putc (takeWhile (\<lambda>c. c \<noteq> 0 \<and> c \<noteq> 10) rest), say [10] []] s) (\<lambda>s.
            case dropWhile (\<lambda>c. c \<noteq> 0 \<and> c \<noteq> 10) rest of
              [] \<Rightarrow> Inl Fault
            | d # r \<Rightarrow> ls_loop (if d = 10 then r else d # r) s))"
  by pat_completeness auto
termination
proof (relation "measure (\<lambda>(rest, s). length rest)")
  fix rest s c cs x d r
  assume "rest = c # cs" "c \<noteq> 0" and d: "dropWhile (\<lambda>c. c \<noteq> 0 \<and> c \<noteq> 10) rest = d # r"
  then have "d \<noteq> 10 \<Longrightarrow> length (d # r) \<le> length cs"
    by (auto split: if_splits intro: length_dropWhile_le [THEN order_trans] dest!: arg_cong [where f = length]) (metis length_dropWhile_le length_Cons)
  moreover have "length r < length rest"
    using arg_cong [OF d, of length] length_dropWhile_le [of "\<lambda>c. c \<noteq> 0 \<and> c \<noteq> 10" rest] by simp
  ultimately show "((if d = 10 then r else d # r, x), rest, s) \<in> measure (\<lambda>(rest, s). length rest)"
    using \<open>rest = c # cs\<close> by auto
qed simp

declare ls_loop.simps [simp del]

definition cmd_ls :: "shell \<Rightarrow> stop + shell" where
  "cmd_ls s = andthen (or_fault (fs_list (replicate 2048 0) 2048 (the_fs s))) (\<lambda>(buf, count). steps
     [colour VGA_WHITE VGA_BLACK, say (10 # ln ''  %s (%d entries)'') [arg_str (fs_pwd (the_fs s)), num count],
      ls_loop buf, colour VGA_LIGHT_GREY VGA_BLACK, say [10] []] s)"

text \<open>The tree, from directory \<open>dir\<close> on; \<open>n\<close> bounds the depth of the recursion.\<close>

definition tree_entry :: "fs_node \<Rightarrow> nat \<Rightarrow> (shell \<Rightarrow> stop + shell) list" where
  "tree_entry nd depth =
     [loop (\<lambda>_. say (bytes ''    '') []) [0 ..< depth], colour VGA_DARK_GREY VGA_BLACK, say (bytes ''|-- '') []]
     @ (if node_type nd = FS_TYPE_DIR
        then [colour VGA_LIGHT_CYAN VGA_BLACK, say (ln ''%s/'') [arg_str (name nd)]]
        else [colour VGA_LIGHT_GREY VGA_BLACK, say (bytes ''%s'') [arg_str (name nd)],
              colour VGA_DARK_GREY VGA_BLACK, say (ln ''  (%d bytes)'') [Word (node_size nd)]])"

fun tree_print_recurse :: "nat \<Rightarrow> nat \<Rightarrow> nat \<Rightarrow> fs_node list \<Rightarrow> shell \<Rightarrow> stop + shell" where
  "tree_print_recurse 0 dir depth nodes s = Inl Fault"
| "tree_print_recurse (Suc n) dir depth nodes s =
     loop (\<lambda>i s.
       if \<not> in_use (nodes ! i) then Inr s
       else if parent (nodes ! i) \<noteq> int dir then Inr s
       else if i = 0 then Inr s
       else andthen (steps (tree_entry (nodes ! i) depth) s) (\<lambda>s.
         if node_type (nodes ! i) = FS_TYPE_DIR then tree_print_recurse n i (depth + 1) nodes s else Inr s))
     [0 ..< FS_MAX_FILES] s"

definition cmd_tree :: "shell \<Rightarrow> stop + shell" where
  "cmd_tree = with_state (\<lambda>s.
     [colour VGA_LIGHT_CYAN VGA_BLACK, say (10 # ln ''  /'') [],
      tree_print_recurse 64 0 1 (fs_nodes (the_fs s)), colour VGA_LIGHT_GREY VGA_BLACK, say [10] []])"

section \<open>Files and directories\<close>

definition cmd_pwd :: "shell \<Rightarrow> stop + shell" where
  "cmd_pwd s = say (ln ''  %s'') [arg_str (fs_pwd (the_fs s))] s"

definition cmd_cat :: "u8 list list \<Rightarrow> shell \<Rightarrow> stop + shell" where
  "cmd_cat argv s =
     (if length argv < 2 then say (ln ''  Usage: cat <file>'') [] s
      else andthen (or_fault (fs_read_file (argv ! 1) (replicate 4096 0) 4096 (the_fs s))) (\<lambda>(buf, r). steps
        ((if ret_int r < 0
          then [colour VGA_LIGHT_RED VGA_BLACK, say (ln ''  Not found: %s'') [arg_str (argv ! 1)]]
          else [colour VGA_LIGHT_GREY VGA_BLACK, say (10 # ln ''%s'') [arg_str buf]])
         @ [colour VGA_LIGHT_GREY VGA_BLACK]) s))"

definition cmd_touch :: "u8 list list \<Rightarrow> shell \<Rightarrow> stop + shell" where
  "cmd_touch argv s =
     (if length argv < 2 then say (ln ''  Usage: touch <file>'') [] s
      else andthen (or_fault (fs_create_file (ticks s) (Some (argv ! 1)) (the_fs s))) (\<lambda>(f, r).
        report (ret_int r = 0) (say (ln ''  Created: %s'') [arg_str (argv ! 1)]) (say (ln ''  Failed'') []) (set_fs f s)))"

definition cmd_mkdir_shell :: "u8 list list \<Rightarrow> shell \<Rightarrow> stop + shell" where
  "cmd_mkdir_shell argv s =
     (if length argv < 2 then say (ln ''  Usage: mkdir <dir>'') [] s
      else andthen (or_fault (fs_mkdir (ticks s) (Some (argv ! 1)) (the_fs s))) (\<lambda>(f, r).
        report (ret_int r = 0) (say (ln ''  Created: %s'') [arg_str (argv ! 1)]) (say (ln ''  Failed'') []) (set_fs f s)))"

definition cmd_write_file :: "u8 list list \<Rightarrow> shell \<Rightarrow> stop + shell" where
  "cmd_write_file argv s =
     (if length argv < 3 then say (ln ''  Usage: write <file> <text>'') [] s
      else andthen (or_fault (do {
          txt \<leftarrow> join_args (replicate 1024 0) (drop 2 argv);
          txt \<leftarrow> strcat txt [10];
          fs_write_file (argv ! 1) txt (of_nat (strlen txt)) (the_fs s)
        })) (\<lambda>(f, r).
        report (\<not> ret_int r < 0) (say (ln ''  Wrote %d bytes'') [Word (word_of_int (ret_int r))])
          (say (ln ''  Not found (touch first)'') []) (set_fs f s)))"

definition cmd_rm :: "u8 list list \<Rightarrow> shell \<Rightarrow> stop + shell" where
  "cmd_rm argv s =
     (if length argv < 2 then say (ln ''  Usage: rm <n>'') [] s
      else case fs_delete (argv ! 1) (the_fs s) of (f, r) \<Rightarrow>
        report (ret_int r = 0) (say (ln ''  Deleted: %s'') [arg_str (argv ! 1)]) (say (ln ''  Failed'') []) (set_fs f s))"

definition cmd_cd :: "u8 list list \<Rightarrow> shell \<Rightarrow> stop + shell" where
  "cmd_cd argv s =
     (if length argv < 2 then Inr (set_fs (fst (fs_cd (bytes ''/'') (the_fs s))) s)
      else case fs_cd (argv ! 1) (the_fs s) of (f, r) \<Rightarrow> steps
        (if ret_int r < 0
         then [colour VGA_LIGHT_RED VGA_BLACK, say (ln ''  No such dir: %s'') [arg_str (argv ! 1)],
               colour VGA_LIGHT_GREY VGA_BLACK]
         else []) (set_fs f s))"

section \<open>The editor and the notes\<close>

text \<open>One key of the editor, on its array of 4096 bytes and the length of the text in it.\<close>

definition editor_key :: "u8 list \<Rightarrow> u8 \<Rightarrow> (u8 list \<times> nat) \<times> shell \<Rightarrow> stop + bool \<times> (u8 list \<times> nat) \<times> shell" where
  "editor_key file c ls = (case ls of ((buf, n), s) \<Rightarrow>
     if c = 0x1B
     then andthen (or_fault (put_at buf n 0)) (\<lambda>buf.
          andthen (or_fault (fs_write_file file buf (of_nat n) (the_fs s))) (\<lambda>(f, _).
          andthen (steps [clear, colour VGA_GREEN VGA_BLACK,
              say (ln ''  Saved %s (%d bytes)'') [arg_str file, num n], colour VGA_LIGHT_GREY VGA_BLACK] (set_fs f s)) (\<lambda>s.
            Inr (False, (buf, n), s))))
     else if c = 8
     then if n > 0 then andthen (putc 8 s) (\<lambda>s. Inr (True, (buf, n - 1), s)) else Inr (True, ls)
     else if (c = 10 \<or> printable c) \<and> n < 4094
     then andthen (or_fault (put_at buf n c)) (\<lambda>buf. andthen (putc c s) (\<lambda>s. Inr (True, (buf, n + 1), s)))
     else Inr (True, ls))"

definition editor_open :: "u8 list \<Rightarrow> shell \<Rightarrow> stop + (u8 list \<times> nat) \<times> shell" where
  "editor_open file s =
     andthen (or_fault (fs_read_file file (replicate 4096 0) 4095 (the_fs s))) (\<lambda>(buf, r).
       if ret_int r > 0 then Inr ((buf, nat (ret_int r)), s)
       else andthen (or_fault (fs_create_file (ticks s) (Some file) (the_fs s))) (\<lambda>(f, _). Inr ((buf, 0), set_fs f s)))"

definition cmd_edit :: "u8 list list \<Rightarrow> shell \<Rightarrow> stop + shell" where
  "cmd_edit argv s =
     (if length argv < 2 then say (ln ''  Usage: edit <file>'') [] s
      else andthen (editor_open (argv ! 1) s) (\<lambda>((buf, n), s).
        andthen (steps ([clear, colour VGA_BLACK VGA_LIGHT_CYAN,
            say (bytes ''  EDIT: %s  | ESC=save                                                  '') [arg_str (argv ! 1)],
            colour VGA_LIGHT_GREEN VGA_BLACK, say [10] []]
            @ (if n > 0 then [say (bytes ''%s'') [arg_str buf]] else [])) s) (\<lambda>s.
        andthen (while_keys (editor_key (argv ! 1)) ((buf, n), s)) (\<lambda>(_, s). Inr s))))"

definition notes_file :: "u8 list" where
  "notes_file = bytes ''notes.txt''"

definition note_list :: "shell \<Rightarrow> stop + shell" where
  "note_list s = andthen (or_fault (fs_read_file notes_file (replicate 4096 0) 4096 (the_fs s))) (\<lambda>(buf, r). steps
     (if ret_int r < 0 then [say (ln ''  No notes'') []]
      else [colour VGA_WHITE VGA_BLACK, say (10 # ln ''  Notes:'') [], colour VGA_LIGHT_GREY VGA_BLACK,
            say (ln ''%s'') [arg_str buf]]) s)"

text \<open>Appending to the notes: the old text is read into an array of 4096 bytes and \<open>txt\<close> put after it.\<close>

definition note_append :: "u8 list \<Rightarrow> fs \<Rightarrow> fs option" where
  "note_append txt f = do {
     (ex, el) \<leftarrow> fs_read_file notes_file (replicate 4096 0) 4096 f;
     (if ret_int el > 0
      then do {
        ex \<leftarrow> strcat ex txt;
        (f, _) \<leftarrow> fs_write_file notes_file ex (of_nat (strlen ex)) f;
        Some f
      }
      else do { (f, _) \<leftarrow> fs_write_file notes_file txt (of_nat (strlen txt)) f; Some f })
   }"

definition cmd_note :: "u8 list list \<Rightarrow> shell \<Rightarrow> stop + shell" where
  "cmd_note argv s =
     (if length argv < 2 then note_list s
      else andthen (or_fault (do {
          (f, _) \<leftarrow> fs_create_file (ticks s) (Some notes_file) (the_fs s);
          txt \<leftarrow> join_args (replicate 1024 0) (drop 1 argv);
          txt \<leftarrow> strcat txt [10];
          note_append txt f
        })) (\<lambda>f. steps [colour VGA_GREEN VGA_BLACK, say (ln ''  Saved!'') [], colour VGA_LIGHT_GREY VGA_BLACK] (set_fs f s)))"

end
