(* ===== verification/Tasks.thy ===== *)
theory Tasks
  imports Files
begin

text \<open>
  The process commands of \<^verbatim>\<open>src/shell.c\<close>: \<open>ps\<close>, \<open>spawn\<close> with the demo tasks, \<open>kill\<close>, \<open>alloc\<close>, the
  live \<open>top\<close> and the test suite of the system calls. \<open>tasks\<close> names the addresses of the functions
  that the linker places.
\<close>

record task_addresses =
  t_wrapper :: u32
  t_counter :: u32
  t_spinner :: u32
  t_ticker :: u32

section \<open>Processes\<close>

fun state_name :: "proc_state \<Rightarrow> u8 list" where
  "state_name PROC_UNUSED = bytes ''----''"
| "state_name PROC_RUNNING = bytes ''RUN ''"
| "state_name PROC_READY = bytes ''WAIT''"
| "state_name PROC_BLOCKED = bytes ''BLCK''"
| "state_name PROC_TERMINATED = bytes ''DEAD''"

definition ps_row :: "proc \<Rightarrow> shell \<Rightarrow> stop + shell" where
  "ps_row p =
     (if p_in_use p
      then steps [colour (if pstate p = PROC_RUNNING then VGA_LIGHT_GREEN else VGA_LIGHT_GREY) VGA_BLACK,
             say (ln ''  %d    %s     %s'') [Word (pid p), arg_str (state_name (pstate p)), arg_str (pname p)]]
      else Inr)"

definition cmd_ps :: "shell \<Rightarrow> stop + shell" where
  "cmd_ps = with_state (\<lambda>s.
     [colour VGA_WHITE VGA_BLACK, say (10 # ln ''  PID  STATE    NAME'') [],
      colour VGA_DARK_GREY VGA_BLACK, say (ln ''  ---  ------   ----'') [],
      loop (\<lambda>i. ps_row (proc_table (the_procs s) ! i)) [0 ..< MAX_PROCESSES],
      colour VGA_LIGHT_GREY VGA_BLACK, say [10] []])"

definition spawn_task :: "task_addresses \<Rightarrow> u8 list \<Rightarrow> u32 \<Rightarrow> shell \<Rightarrow> stop + int \<times> shell" where
  "spawn_task tasks nm fn s =
     andthen (or_fault (process_create_kernel (ticks s) (t_wrapper tasks) nm fn (s_kern (sh_sys s)))) (\<lambda>(k, r).
       Inr (r, set_kern k s))"

text \<open>The process id of the last task started, \<open>None\<close> for an unknown name.\<close>

definition spawn_named :: "task_addresses \<Rightarrow> u8 list \<Rightarrow> shell \<Rightarrow> stop + int option \<times> shell" where
  "spawn_named tasks nm s =
     (let start = (\<lambda>n fn s. andthen (spawn_task tasks (bytes n) fn s) (\<lambda>(r, s). Inr (Some r, s))) in
      if strcmp nm (bytes ''counter'') = 0 then start ''counter'' (t_counter tasks) s
      else if strcmp nm (bytes ''spinner'') = 0 then start ''spinner'' (t_spinner tasks) s
      else if strcmp nm (bytes ''ticker'') = 0 then start ''ticker'' (t_ticker tasks) s
      else if strcmp nm (bytes ''all'') = 0
      then andthen (start ''counter'' (t_counter tasks) s) (\<lambda>(_, s).
           andthen (start ''spinner'' (t_spinner tasks) s) (\<lambda>(_, s).
             start ''ticker'' (t_ticker tasks) s))
      else Inr (None, s))"

definition cmd_spawn :: "task_addresses \<Rightarrow> u8 list list \<Rightarrow> shell \<Rightarrow> stop + shell" where
  "cmd_spawn tasks argv s =
     (if length argv < 2
      then steps [say (ln ''  Usage: spawn <name>'') [], say (ln ''  Available: counter, spinner, ticker, all'') []] s
      else andthen (spawn_named tasks (argv ! 1) s) (\<lambda>(r, s). case r of
          None \<Rightarrow> steps [colour VGA_LIGHT_RED VGA_BLACK, say (ln ''  Unknown task: %s'') [arg_str (argv ! 1)],
              colour VGA_LIGHT_GREY VGA_BLACK] s
        | Some new_pid \<Rightarrow> report (new_pid \<ge> 0)
            (say (bytes ''  Spawned PID %d. Use '' @ 39 # bytes ''kill <pid>'' @ 39 # bytes '' to stop. Run '' @ 39 # bytes ''ps'' @ 39 # ln '' to see state.'')
              [Word (word_of_int new_pid)])
            (say (ln ''  Failed to spawn'') []) s))"

text \<open>One round of a demo task: it prints its line and sleeps for \<open>n\<close> ticks. The second result is the
  stack pointer \<open>schedule\<close> switches to, if it does; \<open>cur_esp\<close> is the one it saves.\<close>

definition demo_round :: "u8 \<Rightarrow> u8 list \<Rightarrow> vararg list \<Rightarrow> u32 \<Rightarrow> u32 \<Rightarrow> shell \<Rightarrow> stop + shell \<times> u32 option" where
  "demo_round fg text args n cur_esp s =
     andthen (steps [colour fg VGA_BLACK, say text args, colour VGA_LIGHT_GREY VGA_BLACK] s) (\<lambda>s.
       case process_sleep (ticks s) n cur_esp (the_procs s) of (ps, sw) \<Rightarrow>
         Inr (set_kern ((s_kern (sh_sys s))\<lparr>procs := ps\<rparr>) s, sw))"

definition self_pid :: "shell \<Rightarrow> vararg" where
  "self_pid s = Word (word_of_int (sys_getpid (sh_sys s)))"

definition demo_counter_round :: "int \<Rightarrow> u32 \<Rightarrow> shell \<Rightarrow> stop + shell \<times> u32 option" where
  "demo_counter_round n cur_esp s =
     demo_round VGA_LIGHT_CYAN (10 # ln ''[counter pid=%d n=%d]'') [self_pid s, Word (word_of_int n)] 200 cur_esp s"

definition demo_spinner_round :: "int \<Rightarrow> u32 \<Rightarrow> shell \<Rightarrow> stop + shell \<times> u32 option" where
  "demo_spinner_round i cur_esp s =
     demo_round VGA_LIGHT_MAGENTA (10 # ln ''[spinner pid=%d frame=%d]'') [self_pid s, Word (word_of_int i)] 250 cur_esp s"

definition demo_ticker_round :: "u32 \<Rightarrow> shell \<Rightarrow> stop + shell \<times> u32 option" where
  "demo_ticker_round cur_esp s =
     demo_round VGA_YELLOW (10 # ln ''[ticker pid=%d uptime=%d]'')
       [self_pid s, Word (word_of_int (sys_uptime (sh_sys s)))] 300 cur_esp s"

definition cmd_kill :: "u8 list list \<Rightarrow> shell \<Rightarrow> stop + shell" where
  "cmd_kill argv s =
     (if length argv < 2 then say (ln ''  Usage: kill <pid>'') [] s
      else andthen (or_fault (atoi (argv ! 1))) (\<lambda>v.
        let p = (word_of_int v :: u32) in
        if p \<le> 1
        then steps [colour VGA_LIGHT_RED VGA_BLACK, say (ln ''  Cannot kill PID %d (protected)'') [Word p],
               colour VGA_LIGHT_GREY VGA_BLACK] s
        else andthen (or_fault (process_terminate (ticks s) p (s_kern (sh_sys s)))) (\<lambda>(k, rc).
          report (rc = 0) (say (ln ''  Killed PID %d'') [Word p]) (say (ln ''  No such process: PID %d'') [Word p])
            (set_kern k s))))"

definition cmd_alloc :: "shell \<Rightarrow> stop + shell" where
  "cmd_alloc s = (case pmm_alloc_page (the_pages s) of (p, a) \<Rightarrow>
     (if a \<noteq> 0 then say (ln ''  0x%x'') [Word a] else say (ln ''  OOM!'') [])
       (set_kern ((s_kern (sh_sys s))\<lparr>pages := p\<rparr>) s))"

section \<open>The process viewer\<close>

definition pad_str :: "u8 list \<Rightarrow> nat \<Rightarrow> shell \<Rightarrow> stop + shell" where
  "pad_str str width = steps [puts str, loop (\<lambda>_. putc 32) [strlen str ..< width]]"

text \<open>\<^verbatim>\<open>while (x > 0 && len < 15)\<close>: at most \<open>n\<close> digits, the last one first.\<close>

fun low_digits :: "nat \<Rightarrow> int \<Rightarrow> u8 list" where
  "low_digits 0 x = []"
| "low_digits (Suc n) x = (if x > 0 then word_of_int (48 + x mod 10) # low_digits n (x div 10) else [])"

definition int_text :: "int \<Rightarrow> u8 list option" where
  "int_text v =
     (if v = 0 then Some [48]
      else do { x \<leftarrow> (if v < 0 then cint (- v) else Some v);
                Some (rev (low_digits 15 x @ (if v < 0 then [45] else []))) })"

definition pad_int :: "int \<Rightarrow> nat \<Rightarrow> shell \<Rightarrow> stop + shell" where
  "pad_int v width s = andthen (or_fault (int_text v)) (\<lambda>buf.
     steps [puts buf, loop (\<lambda>_. putc 32) [length buf ..< width]] s)"

fun top_state :: "proc_state \<Rightarrow> u8 list \<times> u8" where
  "top_state PROC_RUNNING = (bytes ''RUNNING'', VGA_LIGHT_GREEN)"
| "top_state PROC_READY = (bytes ''READY'', VGA_LIGHT_CYAN)"
| "top_state PROC_BLOCKED = (bytes ''BLOCKED'', VGA_YELLOW)"
| "top_state PROC_TERMINATED = (bytes ''TERMINATED'', VGA_LIGHT_RED)"
| "top_state PROC_UNUSED = (bytes ''UNUSED'', VGA_DARK_GREY)"

definition cpu_percent :: "u32 \<Rightarrow> u32 \<Rightarrow> u32" where
  "cpu_percent used prev = (let delta = used - prev; pct = delta * 2 in if pct > 100 then 100 else pct)"

definition top_row :: "u32 \<Rightarrow> proc \<Rightarrow> shell \<Rightarrow> stop + shell" where
  "top_row prev p =
     (if \<not> p_in_use p then Inr
      else let pct = cpu_percent (ticks_used p) prev; (st, stcolor) = top_state (pstate p) in steps
     [say (bytes ''  '') [],
      colour VGA_LIGHT_CYAN VGA_BLACK, pad_int (sint (pid p)) 6,
      colour VGA_WHITE VGA_BLACK, pad_str (cstr (pname p)) 18,
      colour stcolor VGA_BLACK, pad_str st 12,
      colour (if pct \<ge> 50 then VGA_LIGHT_RED else if pct \<ge> 20 then VGA_YELLOW else VGA_LIGHT_GREEN) VGA_BLACK,
      pad_int (sint pct) 4, say (bytes ''%%   '') [],
      colour VGA_LIGHT_GREY VGA_BLACK, say (ln ''%d'') [Word (ticks_used p)]])"

definition top_screen :: "u32 list \<Rightarrow> shell \<Rightarrow> stop + shell" where
  "top_screen prev = with_state (\<lambda>s. let up = word_of_int (sys_uptime (sh_sys s)) :: u32 in
     [clear,
      colour VGA_BLACK VGA_LIGHT_CYAN,
      say (bytes '' MyMisu OS - top                                      Press ESC to exit '') [],
      colour VGA_LIGHT_GREY VGA_BLACK, say [10] [],
      colour VGA_WHITE VGA_BLACK, say (bytes ''  uptime: '') [], colour VGA_LIGHT_CYAN VGA_BLACK,
      say (bytes ''%ds (%d ticks)'') [Word (up div 100), Word up],
      colour VGA_WHITE VGA_BLACK, say (bytes ''   memory: '') [], colour VGA_LIGHT_CYAN VGA_BLACK,
      say (bytes ''%d/%d KB free'')
        [Word (pmm_get_free_pages (the_pages s) * 4), Word (pmm_get_total_memory_kb (the_pages s))],
      colour VGA_WHITE VGA_BLACK, say (bytes ''   procs: '') [], colour VGA_LIGHT_CYAN VGA_BLACK,
      say (ln ''%d'' @ [10]) [num (process_get_count (the_procs s))],
      colour VGA_YELLOW VGA_BLACK, say (ln ''  PID   NAME              STATE       CPU%%    TICKS'') [],
      colour VGA_DARK_GREY VGA_BLACK, say (ln ''  ----- ----------------- ----------- ------- --------'') [],
      colour VGA_LIGHT_GREY VGA_BLACK,
      loop (\<lambda>i. top_row (prev ! i) (proc_table (the_procs s) ! i)) [0 ..< MAX_PROCESSES],
      colour VGA_DARK_GREY VGA_BLACK,
      say (10 # ln ''  Refreshing every 500ms. Spawn tasks first to see scheduling activity.'') [],
      colour VGA_LIGHT_GREY VGA_BLACK])"

text \<open>\<open>process_sleep\<close> in the shell, whose process id is 1: the busy wait.\<close>

definition shell_sleep :: "u32 \<Rightarrow> shell \<Rightarrow> stop + shell" where
  "shell_sleep n s = (if sleep_busy (the_procs s) then busy_wait n s else Inl Waiting)"

definition ticks_of_all :: "shell \<Rightarrow> u32 list" where
  "ticks_of_all s = map (\<lambda>i. ticks_used (proc_table (the_procs s) ! i)) [0 ..< MAX_PROCESSES]"

text \<open>The loop, at most \<open>n\<close> rounds: each sleeps, for which it needs a halt.\<close>

fun top_loop :: "nat \<Rightarrow> u32 list \<Rightarrow> shell \<Rightarrow> stop + shell" where
  "top_loop 0 prev s = Inl Waiting"
| "top_loop (Suc n) prev s =
     (case (if pending_keys s \<noteq> [] then take_key s else (s, 0)) of (s, c) \<Rightarrow>
      if c = 0x1B
      then steps [clear, colour VGA_LIGHT_GREY VGA_BLACK, say (10 # ln ''  exited top.'') []] s
      else andthen (top_screen prev s) (\<lambda>s.
           andthen (shell_sleep 50 s) (top_loop n (ticks_of_all s))))"

definition cmd_top :: "shell \<Rightarrow> stop + shell" where
  "cmd_top s = top_loop (Suc (length (halts s))) (ticks_of_all s) s"

end
