(* ===== verification/Apps.thy ===== *)
theory Apps
  imports Games Tasks
begin

text \<open>
  The apps of \<^verbatim>\<open>src/shell.c\<close> that draw on the screen directly, past the terminal: the file browser,
  the reader, the system monitor, the desktop widgets; and the calculator. \<open>rtc\<close> gives the
  registers of the battery-backed clock.
\<close>

section \<open>Drawing\<close>

text \<open>A write to the cell at an index computed as a C \<open>int\<close>.\<close>

definition vga_cell :: "int \<Rightarrow> u16 \<Rightarrow> shell \<Rightarrow> stop + shell" where
  "vga_cell i v = (if 0 \<le> i then on_screen (put_cell (nat i) v) else (\<lambda>s. Inl Fault))"

definition vga_put :: "int \<Rightarrow> int \<Rightarrow> u8 \<Rightarrow> u8 \<Rightarrow> shell \<Rightarrow> stop + shell" where
  "vga_put x y c color =
     (if x \<ge> 0 \<and> x < 80 \<and> y \<ge> 0 \<and> y < 25 then vga_cell (y * 80 + x) (vga_entry c color) else Inr)"

fun vga_puts :: "int \<Rightarrow> int \<Rightarrow> u8 list \<Rightarrow> u8 \<Rightarrow> shell \<Rightarrow> stop + shell" where
  "vga_puts x y [] color s = Inr s"
| "vga_puts x y (c # str) color s =
     (if c \<noteq> 0 then andthen (vga_put x y c color s) (vga_puts (x + 1) y str color) else Inr s)"

text \<open>C's division of \<open>int\<close>s, which rounds towards zero.\<close>

definition cdiv :: "int \<Rightarrow> int \<Rightarrow> int" where
  "cdiv a b = (if (a < 0) = (b < 0) then \<bar>a\<bar> div \<bar>b\<bar> else - (\<bar>a\<bar> div \<bar>b\<bar>))"

definition draw_box :: "int \<Rightarrow> int \<Rightarrow> int \<Rightarrow> int \<Rightarrow> u8 list \<Rightarrow> shell \<Rightarrow> stop + shell" where
  "draw_box x y w h title =
     (let bc = vga_entry_color VGA_LIGHT_CYAN VGA_BLACK;
          edge = (\<lambda>i. vga_entry (if i = x \<or> i = x + w - 1 then byte CHR ''+'' else byte CHR ''-'') bc);
          bar = vga_entry (byte CHR ''|'') bc;
          title = cstr title;
          tx = x + cdiv (w - int (length title)) 2 in steps
     [loop (\<lambda>i. steps [vga_cell (y * 80 + i) (edge i), vga_cell ((y + h - 1) * 80 + i) (edge i)]) [x .. x + w - 1],
      loop (\<lambda>r. steps [vga_cell (r * 80 + x) bar, vga_cell (r * 80 + x + w - 1) bar]) [y + 1 .. y + h - 2],
      loop (\<lambda>i. vga_cell (y * 80 + tx + int i) (vga_entry (title ! i) (vga_entry_color VGA_WHITE VGA_BLACK)))
        [0 ..< length title]])"

definition grey :: u8 where "grey = vga_entry_color VGA_LIGHT_GREY VGA_BLACK"
definition dark_grey :: u8 where "dark_grey = vga_entry_color VGA_DARK_GREY VGA_BLACK"
definition white :: u8 where "white = vga_entry_color VGA_WHITE VGA_BLACK"
definition cyan :: u8 where "cyan = vga_entry_color VGA_LIGHT_CYAN VGA_BLACK"
definition light_green :: u8 where "light_green = vga_entry_color VGA_LIGHT_GREEN VGA_BLACK"
definition yellow :: u8 where "yellow = vga_entry_color VGA_YELLOW VGA_BLACK"

text \<open>A constant text.\<close>

definition label :: "int \<Rightarrow> int \<Rightarrow> string \<Rightarrow> u8 \<Rightarrow> shell \<Rightarrow> stop + shell" where
  "label x y t = vga_puts x y (bytes t)"

section \<open>The calculator\<close>

definition calc_result :: "int \<Rightarrow> u8 \<Rightarrow> int \<Rightarrow> int option" where
  "calc_result a opr b =
     (if opr = byte CHR ''+'' then cint (a + b)
      else if opr = byte CHR ''-'' then cint (a - b)
      else if opr = byte CHR ''*'' then cint (a * b)
      else cint (cdiv a b))"

definition cmd_calc :: "u8 list list \<Rightarrow> shell \<Rightarrow> stop + shell" where
  "cmd_calc argv s =
     (if length argv < 4 then say (ln ''  calc <n> <op> <n>'') [] s
      else andthen (or_fault (atoi (argv ! 1))) (\<lambda>a. andthen (or_fault (atoi (argv ! 3))) (\<lambda>b.
        let opr = hdc (argv ! 2) in
        if opr = byte CHR ''/'' \<and> b = 0 then say (ln ''  /0!'') [] s
        else if opr \<in> set (bytes ''+-*/'')
        then andthen (or_fault (calc_result a opr b)) (\<lambda>r. steps
               [colour VGA_LIGHT_GREEN VGA_BLACK,
                say (ln ''  %d %c %d = %d'') [int_arg a, Word (ucast opr), int_arg b, int_arg r],
                colour VGA_LIGHT_GREY VGA_BLACK] s)
        else steps [say (ln ''  Bad op'') [], colour VGA_LIGHT_GREY VGA_BLACK] s)))"

section \<open>The file browser\<close>

text \<open>The entries of a listing, at most \<open>n\<close>: the type and the name, cut at 39 characters.\<close>

fun parse_listing :: "nat \<Rightarrow> u8 list \<Rightarrow> (u8 \<times> u8 list) list option" where
  "parse_listing 0 rest = (if rest = [] then None else Some [])"
| "parse_listing (Suc n) rest =
     (case rest of
        [] \<Rightarrow> None
      | c # _ \<Rightarrow>
          if c = 0 then Some []
          else let nm = takeWhile (\<lambda>c. c \<noteq> 0 \<and> c \<noteq> 10) (drop 6 rest);
                   after = drop (6 + min 39 (length nm)) rest in
            (case after of
               [] \<Rightarrow> None
             | d # r \<Rightarrow> do {
                 es \<leftarrow> parse_listing n (if d = 10 then r else after);
                 Some ((if c = byte CHR ''D'' then byte CHR ''D'' else byte CHR ''F'', take 39 nm) # es)
               }))"

definition browser_list :: "shell \<Rightarrow> stop + (u8 \<times> u8 list) list" where
  "browser_list s = or_fault (do {
     (listing, _) \<leftarrow> fs_list (replicate 2048 0) 2048 (the_fs s);
     parse_listing 32 listing
   })"

definition browser_row :: "(u8 \<times> u8 list) list \<Rightarrow> nat \<Rightarrow> nat \<Rightarrow> shell \<Rightarrow> stop + shell" where
  "browser_row es cur j =
     (let (ty, nm) = es ! j;
          col = (if j = cur then vga_entry_color VGA_BLACK VGA_LIGHT_CYAN
                 else if ty = byte CHR ''D'' then cyan else light_green) in steps
     [label 10 (6 + int j) (if ty = byte CHR ''D'' then ''DIR  '' else ''FILE '') col,
      vga_puts 15 (6 + int j) nm col])"

definition browser_draw :: "(u8 \<times> u8 list) list \<Rightarrow> nat \<Rightarrow> shell \<Rightarrow> stop + shell" where
  "browser_draw es cur = with_state (\<lambda>s.
     [clear, draw_box 5 1 70 23 (bytes ''[ File Browser ]''),
      label 8 3 ''Dir: '' grey, vga_puts 13 3 (cstr (fs_pwd (the_fs s))) cyan,
      label 8 4 ''ENTER=open BS=up N=new D=del ESC=exit'' dark_grey,
      loop (browser_row es cur) [0 ..< min (length es) 16],
      if es = [] then label 10 6 ''(empty)'' dark_grey else Inr])"

text \<open>A file's text from column 7 on, wrapped at column 72, down to row 22.\<close>

fun view_text :: "int \<Rightarrow> int \<Rightarrow> u8 list \<Rightarrow> shell \<Rightarrow> stop + shell" where
  "view_text row col [] s = Inl Fault"
| "view_text row col (c # txt) s =
     (if c = 0 \<or> row \<ge> 23 then Inr s
      else if c = 10 then view_text (row + 1) 7 txt s
      else andthen (vga_put col row c grey s)
             (if col + 1 > 72 then view_text (row + 1) 7 txt else view_text row (col + 1) txt))"

definition browser_view :: "u8 list \<Rightarrow> shell \<Rightarrow> stop + shell" where
  "browser_view nm s =
     andthen (steps [clear, draw_box 5 1 70 23 nm] s) (\<lambda>s.
     andthen (or_fault (fs_read_file nm (replicate 4096 0) 4096 (the_fs s))) (\<lambda>(fb, r).
     andthen (steps [if ret_int r > 0 then view_text 3 7 fb else Inr, label 7 24 ''Any key to go back'' dark_grey] s) (\<lambda>s.
     andthen (getchar s) (\<lambda>(s, _). Inr s))))"

definition browser_new :: "shell \<Rightarrow> stop + shell" where
  "browser_new s =
     andthen (steps [clear, say (10 # bytes ''  Filename: '') []] s) (\<lambda>s.
     andthen (read_field 31 (\<lambda>c. c) False s) (\<lambda>((fn, fi), s).
       if fi > 0
       then andthen (or_fault (fs_create_file (ticks s) (Some fn) (the_fs s))) (\<lambda>(f, _). Inr (set_fs f s))
       else Inr s))"

datatype browse = Stay nat | Refresh | Leave

definition browser_key :: "u8 \<Rightarrow> (u8 \<times> u8 list) list \<Rightarrow> nat \<Rightarrow> shell \<Rightarrow> stop + browse \<times> shell" where
  "browser_key c es cur s =
     (if c = 1 \<and> cur > 0 then Inr (Stay (cur - 1), s)
      else if c = 2 \<and> int cur < int (length es) - 1 then Inr (Stay (cur + 1), s)
      else if c = 10 \<and> es \<noteq> []
      then if fst (es ! cur) = byte CHR ''D'' then Inr (Refresh, set_fs (fst (fs_cd (snd (es ! cur)) (the_fs s))) s)
           else andthen (browser_view (snd (es ! cur)) s) (\<lambda>s. Inr (Stay cur, s))
      else if c = 8 then Inr (Refresh, set_fs (fst (fs_cd (bytes ''..'') (the_fs s))) s)
      else if c = byte CHR ''n'' \<or> c = byte CHR ''N'' then andthen (browser_new s) (\<lambda>s. Inr (Refresh, s))
      else if (c = byte CHR ''d'' \<or> c = byte CHR ''D'') \<and> es \<noteq> []
      then Inr (Refresh, set_fs (fst (fs_delete (snd (es ! cur)) (the_fs s))) s)
      else if c = 0x1B then Inr (Leave, s) else Inr (Stay cur, s))"

fun browser_loop :: "nat \<Rightarrow> (u8 \<times> u8 list) list \<Rightarrow> nat \<Rightarrow> shell \<Rightarrow> stop + shell" where
  "browser_loop 0 es cur s = Inl Waiting"
| "browser_loop (Suc n) es cur s =
     andthen (browser_draw es cur s) (\<lambda>s. andthen (getchar s) (\<lambda>(s, c).
     andthen (browser_key c es cur s) (\<lambda>(r, s). case r of
         Stay cur \<Rightarrow> browser_loop n es cur s
       | Refresh \<Rightarrow> andthen (browser_list s) (\<lambda>es. browser_loop n es 0 s)
       | Leave \<Rightarrow> Inr s)))"

definition cmd_filebrowser :: "shell \<Rightarrow> stop + shell" where
  "cmd_filebrowser s = andthen (browser_list s) (\<lambda>es. browser_loop (Suc (pending s)) es 0 s)"

section \<open>The reader\<close>

text \<open>A page: at most \<open>lines\<close> screen lines from index \<open>i\<close> on, wrapped at column 74; the result is the
  index of the first character after it.\<close>

function page_draw :: "u8 list \<Rightarrow> nat \<Rightarrow> nat \<Rightarrow> int \<Rightarrow> int \<Rightarrow> nat \<Rightarrow> shell \<Rightarrow> stop + nat \<times> shell" where
  "page_draw ct len i row col lc s =
     (if i < len \<and> lc < 18
      then andthen (or_fault (get_at ct i)) (\<lambda>c.
        if c = 10 then page_draw ct len (i + 1) (row + 1) 4 (lc + 1) s
        else andthen (vga_put col row c grey s)
          (if col + 1 > 74 then page_draw ct len (i + 1) (row + 1) 4 (lc + 1)
           else page_draw ct len (i + 1) row (col + 1) lc))
      else Inr (i, s))"
  by pat_completeness auto
termination
  by (relation "measure (\<lambda>(ct, len, i, row, col, lc, s). len - i)") auto

declare page_draw.simps [simp del]

text \<open>Where the page before starts, according to the code: after 18 newlines per page.\<close>

fun skip_lines :: "u8 list \<Rightarrow> nat \<Rightarrow> nat" where
  "skip_lines [] k = 0"
| "skip_lines (c # ct) k = (if k = 0 then 0 else Suc (skip_lines ct (if c = 10 then k - 1 else k)))"

fun page_start :: "u8 list \<Rightarrow> nat \<Rightarrow> nat \<Rightarrow> nat" where
  "page_start ct len 0 = 0"
| "page_start ct len (Suc p) = (let off = page_start ct len p in off + skip_lines (drop off (take len ct)) 18)"

definition reader_key :: "u8 \<Rightarrow> u8 list \<Rightarrow> nat \<Rightarrow> nat \<Rightarrow> nat \<Rightarrow> nat \<Rightarrow> (nat \<times> nat) option" where
  "reader_key c ct len nxt off page =
     (if (c = 4 \<or> c = 10) \<and> nxt < len then Some (nxt, page + 1)
      else if c = 3 \<and> page > 1 then Some (page_start ct len (page - 2), page - 1)
      else if c = 0x1B then None else Some (off, page))"

fun reader_loop :: "nat \<Rightarrow> u8 list \<Rightarrow> u8 list \<Rightarrow> nat \<Rightarrow> nat \<Rightarrow> nat \<Rightarrow> shell \<Rightarrow> stop + shell" where
  "reader_loop 0 fn ct len off page s = Inl Waiting"
| "reader_loop (Suc n) fn ct len off page s =
     (if off < len
      then andthen (steps [clear, draw_box 2 0 76 24 fn] s) (\<lambda>s.
        andthen (page_draw ct len off 2 4 0 s) (\<lambda>(nxt, s).
        andthen (label 4 24 ''LEFT=prev RIGHT=next ESC=exit'' dark_grey s) (\<lambda>s.
        andthen (getchar s) (\<lambda>(s, c). case reader_key c ct len nxt off page of
            None \<Rightarrow> clear s
          | Some (off, page) \<Rightarrow> reader_loop n fn ct len off page s))))
      else clear s)"

definition cmd_reader :: "shell \<Rightarrow> stop + shell" where
  "cmd_reader s =
     andthen (steps [clear, say (10 # bytes ''  File to read: '') []] s) (\<lambda>s.
     andthen (read_field 31 (\<lambda>c. c) False s) (\<lambda>((fn, _), s).
     andthen (or_fault (fs_read_file fn (replicate 4096 0) 4096 (the_fs s))) (\<lambda>(ct, r).
       if ret_int r \<le> 0 then say (10 # ln ''  Not found!'') [] s
       else reader_loop (pending s + 2) fn ct (nat (ret_int r)) 0 1 s)))"

section \<open>The system monitor and the widgets\<close>

text \<open>The uptime, with two digits at most for each number.\<close>

definition two_digits :: "u32 \<Rightarrow> u8 list" where
  "two_digits v = (if v \<ge> 10 then [48 + ucast (v div 10)] else []) @ [48 + ucast (v mod 10)]"

definition uptime_text :: "u32 \<Rightarrow> u8 list" where
  "uptime_text t = (let sec = t div 100; mn = sec div 60; sec = sec mod 60 in
     two_digits mn @ bytes ''m '' @ two_digits sec @ bytes ''s'')"

definition both_digits :: "u8 \<Rightarrow> u8 list" where
  "both_digits v = [48 + v div 10, 48 + v mod 10]"

definition clock_text :: "(u8 \<Rightarrow> u8) \<Rightarrow> u8 list" where
  "clock_text rtc = both_digits (bcd (rtc 0x04)) @ bytes '':'' @ both_digits (bcd (rtc 0x02)) @ bytes '':''
     @ both_digits (bcd (rtc 0x00))"

definition date_text :: "(u8 \<Rightarrow> u8) \<Rightarrow> u8 list" where
  "date_text rtc = bytes ''20'' @ both_digits (bcd (rtc 0x09)) @ bytes ''-'' @ both_digits (bcd (rtc 0x08))
     @ bytes ''-'' @ both_digits (bcd (rtc 0x07))"

definition memory_bar :: "int \<Rightarrow> int \<Rightarrow> nat \<Rightarrow> u32 \<Rightarrow> u32 \<Rightarrow> shell \<Rightarrow> stop + shell" where
  "memory_bar x y bw total_p used =
     (let fl = (if total_p > 0 then used * of_nat bw div total_p else 0) in
      loop (\<lambda>i. if of_nat i < fl then vga_put (x + int i) y (byte CHR ''#'') (vga_entry_color VGA_LIGHT_RED VGA_BLACK)
        else vga_put (x + int i) y (byte CHR ''-'') (vga_entry_color VGA_GREEN VGA_BLACK)) [0 ..< bw])"

text \<open>The rows of the processes, from row 11 to row 19.\<close>

fun sysmon_rows :: "int \<Rightarrow> proc list \<Rightarrow> shell \<Rightarrow> stop + shell" where
  "sysmon_rows row [] s = Inr s"
| "sysmon_rows row (p # ps) s =
     (if row < 20
      then if p_in_use p
        then let cl = (if pstate p = PROC_RUNNING then light_green else grey) in
          andthen (steps [vga_put 3 row (48 + ucast (pid p mod 10)) cl, vga_puts 8 row (state_name (pstate p)) cl,
            vga_puts 14 row (cstr (pname p)) cl] s) (sysmon_rows (row + 1) ps)
        else sysmon_rows row ps s
      else Inr s)"

definition sysmon_draw :: "(u8 \<Rightarrow> u8) \<Rightarrow> shell \<Rightarrow> stop + shell" where
  "sysmon_draw rtc = with_state (\<lambda>s.
     [clear, draw_box 0 0 80 25 (bytes ''[ System Monitor ]''),
      label 3 2 ''MyMisu OS v0.5.0'' cyan,
      label 3 4 ''Uptime:'' white, vga_puts 12 4 (uptime_text (ticks s)) light_green,
      label 3 6 ''Memory:'' white, label 3 7 ''['' white,
      memory_bar 4 7 50 (pmm_get_total_pages (the_pages s)) (pmm_get_used_pages (the_pages s)),
      label 54 7 '']'' white, label 3 9 ''Processes:'' white, label 3 10 ''PID  STATE  NAME'' dark_grey,
      sysmon_rows 11 (proc_table (the_procs s)),
      label 45 4 ''Files:'' white, label 45 6 ''Dirs:'' white,
      read_rtc [0x04, 0x02, 0x00], vga_puts 60 2 (clock_text rtc) yellow,
      label 3 23 ''ESC to exit'' dark_grey])"

definition esc_key :: "u8 \<Rightarrow> unit \<Rightarrow> bool \<times> unit" where
  "esc_key c u = (c \<noteq> 0x1B, u)"

text \<open>A screen redrawn every \<open>period\<close> ticks until ESC; each round needs a halt.\<close>

fun live_loop :: "nat \<Rightarrow> (shell \<Rightarrow> stop + shell) \<Rightarrow> u32 \<Rightarrow> shell \<Rightarrow> stop + shell" where
  "live_loop 0 draw period s = Inl Waiting"
| "live_loop (Suc n) draw period s =
     andthen (draw s) (\<lambda>s. andthen (poll_wait (halts s) (ticks s) period esc_key ((), s)) (\<lambda>(go, _, s).
       if go then live_loop n draw period s else clear s))"

definition cmd_sysmon :: "(u8 \<Rightarrow> u8) \<Rightarrow> shell \<Rightarrow> stop + shell" where
  "cmd_sysmon rtc s = live_loop (Suc (length (halts s))) (sysmon_draw rtc) 50 s"

definition quotes :: "u8 list list" where
  "quotes = map bytes
     [''The only way to do'', ''great work is to love'', ''what you do. - Jobs'', '''',
      ''Talk is cheap. Show'', ''me the code. - Torvalds'', '''',
      ''First, solve the'', ''problem. Then, write'', ''the code. - Johnson'']"

definition widgets_draw :: "(u8 \<Rightarrow> u8) \<Rightarrow> shell \<Rightarrow> stop + shell" where
  "widgets_draw rtc = with_state (\<lambda>s. let qi = unat (ticks s div 500 mod 3) in
     [clear, draw_box 0 0 80 25 (bytes ''[ MisuOS Desktop ]''),
      read_rtc [0x04, 0x02, 0x00],
      draw_box 25 2 30 5 (bytes ''[ Clock ]''), vga_puts 33 4 (clock_text rtc) yellow,
      read_rtc [0x07, 0x08, 0x09], vga_puts 32 5 (date_text rtc) grey,
      draw_box 3 8 35 10 (bytes ''[ System ]''),
      label 5 10 ''Uptime:'' white, vga_puts 14 10 (uptime_text (ticks s)) light_green,
      label 5 12 ''Memory:'' white, label 5 13 ''['' white,
      memory_bar 6 13 25 (pmm_get_total_pages (the_pages s)) (pmm_get_used_pages (the_pages s)),
      label 31 13 '']'' white,
      label 5 15 ''Procs:'' white, vga_puts 13 15 [48 + of_nat (process_get_count (the_procs s) mod 10)] cyan,
      label 5 16 ''Files:'' white,
      draw_box 42 8 35 10 (bytes ''[ Quote ]''),
      loop (\<lambda>i. vga_puts 44 (10 + int i) (quotes ! (qi * 3 + i)) grey) [0 ..< 3],
      vga_puts 60 19 (bytes ''/'' @ 92 # bytes ''_/'' @ [92]) cyan, label 59 20 ''( o.o )'' cyan, label 60 21 ''> ^ <'' cyan,
      label 3 23 ''ESC=exit | Updates every second'' dark_grey])"

definition cmd_widgets :: "(u8 \<Rightarrow> u8) \<Rightarrow> shell \<Rightarrow> stop + shell" where
  "cmd_widgets rtc s = live_loop (Suc (length (halts s))) (widgets_draw rtc) 100 s"

end
