(* ===== verification/SelfTest.thy ===== *)
theory SelfTest
  imports Tasks
begin

text \<open>
  The \<open>syscall\<close> command of \<^verbatim>\<open>src/shell.c\<close>: nineteen checks of the system calls, each with its verdict.
  The local variables \<open>fd\<close> and \<open>buf\<close> run through the checks as a pair; the verdicts are also the
  result of the model's command.
\<close>

type_synonym test_vars = "int \<times> u8 list"
type_synonym check = "u8 list \<times> (test_vars \<times> shell \<Rightarrow> stop + bool \<times> test_vars \<times> shell)"

definition pass_fail :: "bool \<Rightarrow> shell \<Rightarrow> stop + shell" where
  "pass_fail ok = steps
     ((if ok then [colour VGA_LIGHT_GREEN VGA_BLACK, say (ln ''PASS'') []]
       else [colour VGA_LIGHT_RED VGA_BLACK, say (ln ''FAIL'') []])
      @ [colour VGA_LIGHT_GREY VGA_BLACK])"

fun run_checks :: "check list \<Rightarrow> test_vars \<times> shell \<Rightarrow> stop + bool list \<times> test_vars \<times> shell" where
  "run_checks [] vs = Inr ([], vs)"
| "run_checks ((label, f) # cs) (v, s) =
     andthen (say label [] s) (\<lambda>s.
     andthen (f (v, s)) (\<lambda>(ok, v, s).
     andthen (pass_fail ok s) (\<lambda>s.
     andthen (run_checks cs (v, s)) (\<lambda>(oks, vs). Inr (ok # oks, vs)))))"

definition run_section :: "u8 list \<Rightarrow> check list \<Rightarrow> test_vars \<times> shell \<Rightarrow> stop + bool list \<times> test_vars \<times> shell" where
  "run_section title cs vs = (case vs of (v, s) \<Rightarrow>
     andthen (steps [colour VGA_LIGHT_CYAN VGA_BLACK, say title [], colour VGA_LIGHT_GREY VGA_BLACK] s)
       (\<lambda>s. run_checks cs (v, s)))"

text \<open>A check of a call that changes the state, of one that only looks at it, and of one that needs
  neither.\<close>

definition with_sys :: "sys \<Rightarrow> shell \<Rightarrow> shell" where
  "with_sys y s = s\<lparr>sh_sys := y\<rparr>"

definition check_call :: "(sys \<Rightarrow> stop + sys \<times> int) \<Rightarrow> (int \<Rightarrow> bool) \<Rightarrow> test_vars \<times> shell \<Rightarrow> stop + bool \<times> test_vars \<times> shell" where
  "check_call call cond vs = (case vs of (v, s) \<Rightarrow>
     andthen (call (sh_sys s)) (\<lambda>(y, r). Inr (cond r, v, with_sys y s)))"

definition check_value :: "(sys \<Rightarrow> int) \<Rightarrow> (int \<Rightarrow> bool) \<Rightarrow> test_vars \<times> shell \<Rightarrow> stop + bool \<times> test_vars \<times> shell" where
  "check_value f cond vs = (case vs of (v, s) \<Rightarrow> Inr (cond (f (sh_sys s)), v, s))"

definition io_checks :: "check list" where
  "io_checks =
     [(bytes ''  write(STDOUT)...'', check_call (sys_write 1 (Some (ln ''hi'')) 3) (\<lambda>r. r = 3)),
      (bytes ''  write(STDERR)...'', check_call (sys_write 2 (Some (ln ''er'')) 3) (\<lambda>r. r = 3)),
      (bytes ''  uptime()........'', check_value sys_uptime (\<lambda>r. r \<ge> 0)),
      (bytes ''  getpid()........'', check_value sys_getpid (\<lambda>r. r \<ge> 0))]"

definition test_file :: "u8 list" where
  "test_file = bytes ''sctest''"

definition open_check :: "test_vars \<times> shell \<Rightarrow> stop + bool \<times> test_vars \<times> shell" where
  "open_check vs = (case vs of ((_, buf), s) \<Rightarrow>
     andthen (sys_open (Some test_file) (O_CREAT OR O_RDWR) (sh_sys s)) (\<lambda>(y, fd).
       Inr (fd \<ge> 3, (fd, buf), with_sys y s)))"

definition read_check :: "test_vars \<times> shell \<Rightarrow> stop + bool \<times> test_vars \<times> shell" where
  "read_check vs = (case vs of ((fd, buf), s) \<Rightarrow>
     andthen (sys_read fd (Some buf) 3 (sh_sys s)) (\<lambda>(y, bufp, r).
     andthen (or_fault (do { b \<leftarrow> bufp; put_at b 3 0 })) (\<lambda>buf.
       Inr (r = 3, (fd, buf), with_sys y s))))"

definition stat_check :: "test_vars \<times> shell \<Rightarrow> stop + bool \<times> test_vars \<times> shell" where
  "stat_check vs = (case vs of (v, s) \<Rightarrow>
     case sys_stat (Some test_file) (Some \<lparr>st_type = 0, st_size = 0, st_created_tick = 0, st_parent = 0\<rparr>) (sh_sys s) of
       (st, r) \<Rightarrow> Inr (r = 0 \<and> (case st of Some v \<Rightarrow> st_size v = 3 | None \<Rightarrow> False), v, s))"

definition getcwd_check :: "test_vars \<times> shell \<Rightarrow> stop + bool \<times> test_vars \<times> shell" where
  "getcwd_check vs = (case vs of ((fd, buf), s) \<Rightarrow>
     andthen (sys_getcwd (Some buf) 64 (sh_sys s)) (\<lambda>(bufp, r).
     andthen (say (bytes '' %s '') [Str bufp] s) (\<lambda>s.
       Inr (r > 0, (fd, case bufp of None \<Rightarrow> buf | Some b \<Rightarrow> b), s))))"

definition with_fd :: "(int \<Rightarrow> test_vars \<times> shell \<Rightarrow> stop + bool \<times> test_vars \<times> shell) \<Rightarrow> test_vars \<times> shell \<Rightarrow> stop + bool \<times> test_vars \<times> shell" where
  "with_fd f vs = f (fst (fst vs)) vs"

definition fs_checks :: "check list" where
  "fs_checks =
     [(bytes ''  mkdir(t1).......'', check_call (sys_mkdir (Some (bytes ''t1''))) (\<lambda>r. r = 0)),
      (bytes ''  rmdir(t1).......'', check_call (Inr \<circ> sys_rmdir (Some (bytes ''t1''))) (\<lambda>r. r = 0)),
      (bytes ''  open(O_CREAT)...'', open_check),
      (bytes ''  write(fd).......'', with_fd (\<lambda>fd. check_call (sys_write fd (Some (bytes ''abc'')) 3) (\<lambda>r. r = 3))),
      (bytes ''  lseek(SEEK_SET).'', with_fd (\<lambda>fd. check_call (sys_lseek fd 0 SEEK_SET) (\<lambda>r. r = 0))),
      (bytes ''  read(fd)........'', read_check),
      (bytes ''  close(fd).......'', with_fd (\<lambda>fd. check_call (Inr \<circ> sys_close fd) (\<lambda>r. r = 0))),
      (bytes ''  stat(sctest)....'', stat_check),
      (bytes ''  unlink(sctest)..'', check_call (Inr \<circ> sys_unlink (Some test_file)) (\<lambda>r. r = 0)),
      (bytes ''  getcwd().......:'', getcwd_check)]"

text \<open>\<open>sys_yield\<close> executes \<^verbatim>\<open>hlt\<close>, which the shell's interrupts end.\<close>

definition yield_check :: "test_vars \<times> shell \<Rightarrow> stop + bool \<times> test_vars \<times> shell" where
  "yield_check vs = (case vs of (v, s) \<Rightarrow> case halts s of
       [] \<Rightarrow> Inl Waiting
     | (t, ks) # hs \<Rightarrow> Inr (sys_yield = 0, v, after_halt t ks hs s))"

definition process_checks :: "check list" where
  "process_checks =
     [(bytes ''  yield().........'', yield_check),
      (bytes ''  fork() (stub)...'', check_value (\<lambda>_. sys_fork) (\<lambda>r. r = err ENOSYS)),
      (bytes ''  execve() (stub).'', check_value (\<lambda>_. sys_execve 1) (\<lambda>r. r = err ENOSYS)),
      (bytes ''  waitpid() (stub)'', check_value (\<lambda>_. sys_waitpid 0) (\<lambda>r. r = err ENOSYS)),
      (bytes ''  kill(invalid)..'', check_call (sys_kill 0) (\<lambda>r. r = err EPERM))]"

definition syscall_demo :: "shell \<Rightarrow> stop + bool list \<times> shell" where
  "syscall_demo s =
     andthen (steps [colour VGA_WHITE VGA_BLACK, say (10 # ln ''  Syscall Test Suite (19 calls via int 0x80)'') [],
       say (ln ''  ------------------------------------------'') []] s) (\<lambda>s.
     andthen (run_section (ln ''  [I/O]'') io_checks ((0, replicate 64 0), s)) (\<lambda>(oks1, v, s).
     andthen (run_section (ln ''  [FILESYSTEM]'') fs_checks (v, s)) (\<lambda>(oks2, v, s).
     andthen (run_section (ln ''  [PROCESS]'') process_checks (v, s)) (\<lambda>(oks3, v, s).
     andthen (steps [colour VGA_WHITE VGA_BLACK, say (10 # ln ''  19 syscalls exercised.'' @ [10]) [],
       colour VGA_LIGHT_GREY VGA_BLACK] s) (\<lambda>s.
       Inr (oks1 @ oks2 @ oks3, s))))))"

definition cmd_syscall_demo :: "shell \<Rightarrow> stop + shell" where
  "cmd_syscall_demo s = andthen (syscall_demo s) (\<lambda>(_, s). Inr s)"

end
