(* ===== verification/ShellRun.thy ===== *)
theory ShellRun
  imports Apps SelfTest
begin

text \<open>
  The rest of \<^verbatim>\<open>src/shell.c\<close> and of \<^verbatim>\<open>src/kernel.c\<close>: the menus, power, the dispatch of a command line,
  the shell's loop and \<open>kernel_main\<close> as a whole. What lies outside the code is the record
  \<open>shell_env\<close>: the clock's registers, the addresses of the tasks, and what the local arrays of the
  snake hold before they are written.
\<close>

record shell_env =
  se_rtc :: "u8 \<Rightarrow> u8"
  se_tasks :: task_addresses
  se_junkx :: "int list"
  se_junky :: "int list"

section \<open>Power\<close>

text \<open>After \<^verbatim>\<open>cli; hlt\<close> no interrupt wakes the processor, and \<^verbatim>\<open>int 3\<close> with an empty table resets the
  machine: neither returns.\<close>

definition machine_stops :: "shell \<Rightarrow> stop + shell" where
  "machine_stops s = Inl Waiting"

definition cmd_halt :: "shell \<Rightarrow> stop + shell" where
  "cmd_halt = steps [colour VGA_YELLOW VGA_BLACK, say (10 # ln ''  Halted.'') [], machine_stops]"

definition cmd_reboot :: "shell \<Rightarrow> stop + shell" where
  "cmd_reboot = steps [colour VGA_YELLOW VGA_BLACK, say (10 # ln ''  Rebooting...'') [], machine_stops]"

definition cmd_panic :: "shell \<Rightarrow> stop + shell" where
  "cmd_panic = steps [colour VGA_WHITE VGA_RED, say (10 # ln ''  KERNEL PANIC!'') [], machine_stops]"

section \<open>The menus\<close>

definition game_names :: "string list" where
  "game_names = [''snake'', ''ttt'', ''ttt2'', ''hangman'', ''rps'', ''pong'', ''game'']"

definition start_game :: "shell_env \<Rightarrow> nat \<Rightarrow> shell \<Rightarrow> stop + shell" where
  "start_game env gs =
     (if gs = 0 then cmd_snake (se_junkx env) (se_junky env) else if gs = 1 then cmd_tictactoe
      else if gs = 2 then cmd_ttt2 else if gs = 3 then cmd_hangman else if gs = 4 then cmd_rps
      else if gs = 5 then cmd_pong else cmd_game)"

text \<open>A menu's keys: up and down within \<open>n\<close> entries, anything else.\<close>

definition menu_step :: "u8 \<Rightarrow> nat \<Rightarrow> nat \<Rightarrow> nat option" where
  "menu_step c n cur =
     (if c = 1 \<and> cur > 0 then Some (cur - 1)
      else if c = 2 \<and> cur < n - 1 then Some (cur + 1) else None)"

definition games_draw :: "nat \<Rightarrow> shell \<Rightarrow> stop + shell" where
  "games_draw gs = steps
     [clear, draw_box 20 3 40 18 (bytes ''[ Games ]''),
      loop (\<lambda>i. label 28 (6 + int i * 2) (game_names ! i)
        (if i = gs then vga_entry_color VGA_BLACK VGA_LIGHT_GREEN else grey)) [0 ..< 7]]"

fun games_menu :: "shell_env \<Rightarrow> nat \<Rightarrow> nat \<Rightarrow> shell \<Rightarrow> stop + shell" where
  "games_menu env 0 gs s = Inl Waiting"
| "games_menu env (Suc n) gs s =
     andthen (games_draw gs s) (\<lambda>s. andthen (getchar s) (\<lambda>(s, c).
       case menu_step c 7 gs of
         Some gs \<Rightarrow> games_menu env n gs s
       | None \<Rightarrow>
           if c = 0x1B then Inr s
           else if c = 10 then andthen (clear s) (start_game env gs)
           else games_menu env n gs s))"

definition menu_items :: "string list" where
  "menu_items = [''Neofetch'', ''File Browser'', ''Book Reader'', ''System Monitor'', ''Desktop Widgets'', ''Calculator'',
     ''Games'', ''Shell (back)'', ''Shutdown'']"

definition menu_row :: "nat \<Rightarrow> nat \<Rightarrow> shell \<Rightarrow> stop + shell" where
  "menu_row cur i =
     (let col = (if i = cur then vga_entry_color VGA_BLACK VGA_LIGHT_CYAN else grey);
          item = menu_items ! i; y = 7 + int i * 2 in steps
     [label 25 y (if i = cur then '' > '' else ''   '') col, label 28 y item col,
      loop (\<lambda>p. vga_put (28 + int p) y 32 col) [length item ..< 18]])"

definition menu_draw :: "nat \<Rightarrow> shell \<Rightarrow> stop + shell" where
  "menu_draw cur = steps
     [clear, draw_box 15 2 50 22 (bytes ''[ MyMisu OS - Menu ]''),
      label 20 4 ''UP/DOWN + ENTER | ESC=back'' dark_grey, loop (menu_row cur) [0 ..< 9]]"

text \<open>The app of an entry, and whether the menu goes on after it.\<close>

definition menu_select :: "shell_env \<Rightarrow> nat \<Rightarrow> nat \<Rightarrow> shell \<Rightarrow> stop + bool \<times> shell" where
  "menu_select env n cur s =
     (let go = (\<lambda>r. andthen r (\<lambda>s. Inr (True, s))) in
      if cur = 0 then go (cmd_neofetch s)
      else if cur = 1 then go (cmd_filebrowser s)
      else if cur = 2 then go (cmd_reader s)
      else if cur = 3 then go (cmd_sysmon (se_rtc env) s)
      else if cur = 4 then go (cmd_widgets (se_rtc env) s)
      else if cur = 5 then go (say_line ''  Use: calc <n> <op> <n>'' s)
      else if cur = 6 then go (games_menu env n 0 s)
      else if cur = 7 then Inr (False, s)
      else andthen (cmd_halt s) (\<lambda>s. Inr (False, s)))"

fun menu_loop :: "shell_env \<Rightarrow> nat \<Rightarrow> nat \<Rightarrow> shell \<Rightarrow> stop + shell" where
  "menu_loop env 0 cur s = Inl Waiting"
| "menu_loop env (Suc n) cur s =
     andthen (menu_draw cur s) (\<lambda>s. andthen (getchar s) (\<lambda>(s, c).
       case menu_step c 9 cur of
         Some cur \<Rightarrow> menu_loop env n cur s
       | None \<Rightarrow>
           if c = 10
           then andthen (clear s) (\<lambda>s. andthen (menu_select env n cur s) (\<lambda>(go, s).
                  if go then menu_loop env n cur s else Inr s))
           else if c = 0x1B then Inr s else menu_loop env n cur s))"

definition cmd_menu :: "shell_env \<Rightarrow> shell \<Rightarrow> stop + shell" where
  "cmd_menu env s = menu_loop env (Suc (pending s)) 0 s"

section \<open>Executing a command\<close>

definition with_pager :: "(shell \<Rightarrow> stop + shell) \<Rightarrow> shell \<Rightarrow> stop + shell" where
  "with_pager f = steps [on_screen (\<lambda>t. Inr (terminal_enable_pager t)), f, on_screen (\<lambda>t. Inr (terminal_disable_pager t))]"

definition cmd_unknown :: "u8 list \<Rightarrow> shell \<Rightarrow> stop + shell" where
  "cmd_unknown nm = steps
     [colour VGA_LIGHT_RED VGA_BLACK, say (ln ''  Unknown: %s'') [arg_str nm],
      colour VGA_LIGHT_GREY VGA_BLACK, say (ln ''  Type '' @ 39 # bytes ''help'' @ 39 # [10]) []]"

text \<open>The chain of comparisons as a table: the first name that \<open>strcmp\<close> finds equal decides.\<close>

definition commands :: "shell_env \<Rightarrow> u8 list list \<Rightarrow> (string \<times> (shell \<Rightarrow> stop + shell)) list" where
  "commands env argv =
     [(''help'', with_pager cmd_help), (''clear'', clear), (''echo'', cmd_echo argv), (''info'', cmd_info),
      (''neofetch'', cmd_neofetch), (''version'', cmd_version), (''date'', cmd_date (se_rtc env)), (''time'', cmd_time),
      (''color'', cmd_color argv), (''history'', cmd_history_show), (''colors'', cmd_colors), (''ls'', cmd_ls),
      (''pwd'', cmd_pwd), (''cd'', cmd_cd argv), (''cat'', cmd_cat argv), (''touch'', cmd_touch argv),
      (''write'', cmd_write_file argv), (''edit'', cmd_edit argv), (''mkdir'', cmd_mkdir_shell argv), (''rm'', cmd_rm argv),
      (''ps'', cmd_ps), (''spawn'', cmd_spawn (se_tasks env) argv), (''kill'', cmd_kill argv), (''meminfo'', cmd_meminfo),
      (''alloc'', cmd_alloc), (''syscall'', cmd_syscall_demo), (''calc'', cmd_calc argv), (''note'', cmd_note argv),
      (''cowsay'', cmd_cowsay argv), (''game'', cmd_game), (''snake'', cmd_snake (se_junkx env) (se_junky env)),
      (''ttt'', cmd_tictactoe), (''ttt2'', cmd_ttt2), (''hangman'', cmd_hangman), (''rps'', cmd_rps), (''pong'', cmd_pong),
      (''menu'', cmd_menu env), (''files'', cmd_filebrowser), (''reader'', cmd_reader), (''top'', cmd_top), (''tree'', cmd_tree),
      (''dmesg'', cmd_dmesg), (''sysmon'', cmd_sysmon (se_rtc env)), (''widgets'', cmd_widgets (se_rtc env)),
      (''reboot'', cmd_reboot), (''shutdown'', cmd_halt), (''poweroff'', cmd_halt), (''exit'', cmd_halt), (''panic'', cmd_panic)]"

fun dispatch :: "u8 list \<Rightarrow> (string \<times> (shell \<Rightarrow> stop + shell)) list \<Rightarrow> shell \<Rightarrow> stop + shell" where
  "dispatch nm [] s = cmd_unknown nm s"
| "dispatch nm ((n, f) # cs) s = (if strcmp nm (bytes n) = 0 then f s else dispatch nm cs s)"

definition execute_command :: "shell_env \<Rightarrow> shell \<Rightarrow> stop + shell" where
  "execute_command env s =
     andthen (or_fault (argv_of (cmd_buffer s))) (\<lambda>(buf, argv).
       let s = s\<lparr>cmd_buffer := buf\<rparr> in
       if argv = [] then Inr s else dispatch (argv ! 0) (commands env argv) s)"

section \<open>The shell\<close>

definition shell_init :: "shell \<Rightarrow> stop + shell" where
  "shell_init = steps
     [colour VGA_LIGHT_GREY VGA_BLACK,
      say (10 # bytes ''  Type '' @ 39 # bytes ''help'' @ 39 # bytes '' or '' @ 39 # bytes ''menu'' @ 39 # ln '' for visual navigation.'' @ [10]) []]"

text \<open>One round of the loop of \<open>shell_run\<close>; the loop never ends, so its states are those reached by
  \<open>n\<close> rounds.\<close>

definition shell_turn :: "shell_env \<Rightarrow> shell \<Rightarrow> stop + shell" where
  "shell_turn env s = andthen (read_line s) (\<lambda>s.
     if cmd_len s > 0
     then andthen (or_fault (history_add (cmd_buffer s) s)) (execute_command env)
     else Inr s)"

fun shell_turns :: "shell_env \<Rightarrow> nat \<Rightarrow> shell \<Rightarrow> stop + shell" where
  "shell_turns env 0 s = Inr s"
| "shell_turns env (Suc n) s = andthen (shell_turn env s) (shell_turns env n)"

text \<open>The static variables of the file as the loader leaves them.\<close>

definition shell_start :: "sys \<Rightarrow> halt_events \<Rightarrow> shell" where
  "shell_start y hs = \<lparr>sh_sys = y, halts = hs, cmd_buffer = replicate CMD_BUFFER_SIZE 0, cmd_len = 0,
     history = replicate MAX_HISTORY (replicate CMD_BUFFER_SIZE 0), history_count = 0, history_pos = - 1\<rparr>"

text \<open>\<open>kernel_main\<close>: the boot, the login, the status screen, the shell for \<open>n\<close> rounds.\<close>

definition kernel_main :: "boot_env \<Rightarrow> shell_env \<Rightarrow> nat \<Rightarrow> halt_events \<Rightarrow> os \<Rightarrow> stop + shell" where
  "kernel_main benv env n hs os =
     andthen (kernel_init benv os) (\<lambda>os.
     andthen (login_screen (be_version benv) (shell_start (o_sys os) hs)) (\<lambda>s.
     andthen (kernel_online benv (os\<lparr>o_sys := sh_sys s\<rparr>)) (\<lambda>os.
     andthen (shell_init (s\<lparr>sh_sys := o_sys os\<rparr>)) (shell_turns env n))))"

end
