(* ===== verification/ShellSafe.thy ===== *)
theory ShellSafe
  imports ShellRun
begin

text \<open>
  Safety of the shell, as a small calculus: \<open>yields P r\<close> says that a result is no fault and satisfies
  \<open>P\<close>, and \<open>keeps f\<close> that a piece of the shell keeps its invariant \<open>sh_inv\<close>. The rules for the
  combinators and the primitives are collected in \<open>keeps_intros\<close>; a command's proof applies them.
\<close>

named_theorems keeps_intros

section \<open>Results\<close>

definition yields :: "('a \<Rightarrow> bool) \<Rightarrow> stop + 'a \<Rightarrow> bool" where
  "yields P r \<longleftrightarrow> (case r of Inl e \<Rightarrow> e = Waiting | Inr x \<Rightarrow> P x)"

lemma yields_simps [simp]:
  "yields P (Inr x) = P x" "yields P (Inl Waiting)" "\<not> yields P (Inl Fault)"
  by (simp_all add: yields_def)

lemma yields_andthen:
  assumes "yields Q r" "\<And>x. Q x \<Longrightarrow> yields P (f x)"
  shows "yields P (andthen r f)"
  using assms by (cases r) (auto simp: yields_def)

lemma yields_andthen_eq:
  assumes "yields Q r" "\<And>x. r = Inr x \<Longrightarrow> Q x \<Longrightarrow> yields P (f x)"
  shows "yields P (andthen r f)"
  using assms by (cases r) (auto simp: yields_def)

lemma yields_mono: "yields Q r \<Longrightarrow> (\<And>x. Q x \<Longrightarrow> P x) \<Longrightarrow> yields P r"
  by (auto simp: yields_def split: sum.splits)

lemma yields_or_fault: "(\<And>x. r = Some x \<Longrightarrow> P x) \<Longrightarrow> r \<noteq> None \<Longrightarrow> yields P (or_fault r)"
  by auto

lemma yields_steps:
  assumes "\<And>f s. f \<in> set fs \<Longrightarrow> P s \<Longrightarrow> yields P (f s)" "P s"
  shows "yields P (steps fs s)"
  using assms
proof (induction fs arbitrary: s)
  case (Cons f fs)
  then have "yields P (f s)" by simp
  then show ?case using Cons by (auto intro!: yields_andthen [of P])
qed simp

lemma yields_loop:
  assumes "\<And>x s. x \<in> set xs \<Longrightarrow> P s \<Longrightarrow> yields P (f x s)" "P s"
  shows "yields P (loop f xs s)"
  using assms
proof (induction xs arbitrary: s)
  case (Cons x xs)
  then have "yields P (f x s)" by simp
  then show ?case using Cons by (auto intro!: yields_andthen [of P])
qed simp

section \<open>The invariant of the shell\<close>

text \<open>The lines of the history and the command buffer: arrays of 256 bytes that hold a string.\<close>

definition line_ok :: "u8 list \<Rightarrow> bool" where
  "line_ok b \<longleftrightarrow> length b = 256 \<and> 0 \<in> set b"

definition editor_ok :: "shell \<Rightarrow> bool" where
  "editor_ok s \<longleftrightarrow> length (cmd_buffer s) = 256 \<and> cmd_len s < 256
     \<and> length (history s) = 10 \<and> (\<forall>h \<in> set (history s). line_ok h)
     \<and> history_count s \<le> 10 \<and> - 1 \<le> history_pos s \<and> history_pos s \<le> int (history_count s)"

text \<open>What the commands print must be printable by \<^verbatim>\<open>%d\<close>, which cannot negate the least \<open>int\<close>; \<open>n\<close>
  is the number of processes that may still be started and messages that may still be logged. The
  clock stays below its middle for the halts to come, and there are few enough of them for the score
  of the snake.\<close>

definition halts_ok :: "halt_events \<Rightarrow> bool" where
  "halts_ok hs \<longleftrightarrow> length hs < 100000000 \<and> (\<forall>(t, ks) \<in> set hs. unat t < 2 ^ 31)"

definition numbers_ok :: "nat \<Rightarrow> shell \<Rightarrow> bool" where
  "numbers_ok n s \<longleftrightarrow> unat (total_pages (the_pages s)) < 2 ^ 29
     \<and> unat (next_pid (the_procs s)) + n < 2 ^ 31
     \<and> klog_total (log (s_kern (sh_sys s))) + int n < 2 ^ 31
     \<and> (\<forall>p \<in> set (proc_table (the_procs s)). unat (ticks_used p) < 2 ^ 31)
     \<and> unat (ticks s) < 2 ^ 31 \<and> halts_ok (halts s)"

definition sh_inv :: "nat \<Rightarrow> shell \<Rightarrow> bool" where
  "sh_inv n s \<longleftrightarrow> sys_inv (sh_sys s) \<and> current_pid (the_procs s) = 1 \<and> numbers_ok n s \<and> editor_ok s"

definition keeps :: "(shell \<Rightarrow> stop + shell) \<Rightarrow> bool" where
  "keeps f \<longleftrightarrow> (\<forall>n s. sh_inv n s \<longrightarrow> yields (sh_inv n) (f s))"

lemma keepsI: "(\<And>n s. sh_inv n s \<Longrightarrow> yields (sh_inv n) (f s)) \<Longrightarrow> keeps f"
  by (simp add: keeps_def)

lemma keepsD: "keeps f \<Longrightarrow> sh_inv n s \<Longrightarrow> yields (sh_inv n) (f s)"
  by (simp add: keeps_def)

lemma sh_inv_less: "sh_inv n s \<Longrightarrow> m \<le> n \<Longrightarrow> sh_inv m s"
  by (auto simp: sh_inv_def numbers_ok_def)

section \<open>Rules\<close>

lemma keeps_skip [keeps_intros]: "keeps Inr"
  by (simp add: keeps_def)

lemma keeps_steps [keeps_intros]: "(\<And>f. f \<in> set fs \<Longrightarrow> keeps f) \<Longrightarrow> keeps (steps fs)"
  by (auto simp: keeps_def intro!: yields_steps)

lemma keeps_loop [keeps_intros]: "(\<And>x. x \<in> set xs \<Longrightarrow> keeps (f x)) \<Longrightarrow> keeps (loop f xs)"
  by (auto simp: keeps_def intro!: yields_loop)

lemma keeps_with_state [keeps_intros]:
  "(\<And>n s. sh_inv n s \<Longrightarrow> \<forall>f \<in> set (g s). keeps f) \<Longrightarrow> keeps (with_state g)"
  unfolding with_state_def by (auto intro!: keepsI yields_steps dest: keepsD)

lemma keeps_if [keeps_intros]: "(b \<Longrightarrow> keeps f) \<Longrightarrow> (\<not> b \<Longrightarrow> keeps g) \<Longrightarrow> keeps (if b then f else g)"
  by simp

lemma keeps_andthen: "yields (sh_inv n) r \<Longrightarrow> keeps f \<Longrightarrow> yields (sh_inv n) (andthen r f)"
  by (rule yields_andthen [of "sh_inv n"]) (auto dest: keepsD)

text \<open>The screen.\<close>

lemma sh_inv_screen: "sh_inv n s \<Longrightarrow> vga_ok t \<Longrightarrow> sh_inv n (s\<lparr>sh_sys := (sh_sys s)\<lparr>s_term := t\<rparr>\<rparr>)"
  by (simp add: sh_inv_def sys_inv_def numbers_ok_def editor_ok_def the_procs_def the_pages_def ticks_def s_now_def)

lemma keeps_on_screen:
  assumes "\<And>t. vga_ok t \<Longrightarrow> yields vga_ok (f t)"
  shows "keeps (on_screen f)"
proof (rule keepsI)
  fix n s assume s: "sh_inv n s"
  then have "vga_ok (s_term (sh_sys s))" by (simp add: sh_inv_def sys_inv_def)
  from assms [OF this] show "yields (sh_inv n) (on_screen f s)"
    unfolding on_screen_def by (rule yields_andthen) (simp add: sh_inv_screen s)
qed

lemma good_yields: "good_outcome t r \<Longrightarrow> yields vga_ok r"
  by (auto simp: good_outcome_def split: sum.splits stop.splits)

lemma keeps_putc [keeps_intros]: "keeps (putc c)"
  unfolding putc_def by (rule keeps_on_screen) (rule good_yields, rule terminal_putchar_good)

lemma keeps_puts [keeps_intros]: "keeps (puts str)"
  unfolding puts_def by (rule keeps_on_screen) (rule good_yields, rule terminal_writestring_good)

lemma keeps_colour [keeps_intros]: "keeps (colour fg bg)"
  unfolding colour_def by (rule keeps_on_screen) (simp add: terminal_setcolor_def vga_ok_def)

lemma keeps_clear [keeps_intros]: "keeps clear"
  unfolding clear_def by (rule keeps_on_screen) (use terminal_clear_eq in \<open>fastforce simp: vga_ok_def\<close>)

lemma keeps_vga_cell: "0 \<le> i \<Longrightarrow> i < 2000 \<Longrightarrow> keeps (vga_cell i v)"
  unfolding vga_cell_def by (auto intro!: keeps_on_screen simp: put_cell_def vga_ok_def)

lemma keeps_vga_put [keeps_intros]: "keeps (vga_put x y c color)"
  unfolding vga_put_def by (intro keeps_intros keeps_vga_cell) auto

lemma keeps_vga_puts [keeps_intros]: "keeps (vga_puts x y str color)"
proof (rule keepsI)
  fix n s assume "sh_inv n s"
  then show "yields (sh_inv n) (vga_puts x y str color s)"
  proof (induction x y str color s rule: vga_puts.induct)
    case (2 x y c str color s)
    then show ?case
      by (auto intro!: yields_andthen_eq [of "sh_inv n"] keepsD [OF keeps_vga_put])
  qed simp
qed

lemma keeps_label [keeps_intros]: "keeps (label x y t color)"
  unfolding label_def by (rule keeps_vga_puts)

lemma keeps_draw_box [keeps_intros]:
  assumes "0 \<le> x" "0 < w" "x + w \<le> 80" "0 \<le> y" "0 < h" "y + h \<le> 25" "length (cstr title) \<le> nat w"
  shows "keeps (draw_box x y w h title)"
proof -
  have c: "0 \<le> cdiv (w - int (length (cstr title))) 2"
    "cdiv (w - int (length (cstr title))) 2 + int (length (cstr title)) \<le> w"
    using assms(2,7) by (auto simp: cdiv_def)
  show ?thesis
    unfolding draw_box_def Let_def
    using assms c by (intro keeps_intros) (auto intro!: keeps_intros keeps_vga_cell)
qed

lemma keeps_read_rtc [keeps_intros]: "keeps (read_rtc regs)"
proof -
  have "fold (outb 0x70) regs t = t\<lparr>port_log := port_log (fold (outb 0x70) regs t)\<rparr>" for t
  proof (induction regs arbitrary: t)
    case (Cons r regs)
    from Cons [of "outb 0x70 r t"] show ?case by (simp add: outb_def)
  qed simp
  then have "vga_ok t \<Longrightarrow> vga_ok (fold (outb 0x70) regs t)" for t by (metis vga_ok_ports)
  then show ?thesis unfolding read_rtc_def by (intro keeps_on_screen) simp
qed

section \<open>Formatted output\<close>

text \<open>Whether the arguments fit the format: no missing one, no string for a number, no \<^verbatim>\<open>%d\<close> of the least
  \<open>int\<close>.\<close>

fun arg_fits :: "u8 \<Rightarrow> vararg list \<Rightarrow> bool" where
  "arg_fits f [] \<longleftrightarrow> f \<noteq> byte CHR ''s'' \<and> f \<noteq> byte CHR ''d'' \<and> f \<noteq> byte CHR ''u'' \<and> f \<noteq> byte CHR ''x'' \<and> f \<noteq> byte CHR ''c''"
| "arg_fits f (Str p # _) \<longleftrightarrow> f \<noteq> byte CHR ''d'' \<and> f \<noteq> byte CHR ''u'' \<and> f \<noteq> byte CHR ''x'' \<and> f \<noteq> byte CHR ''c''"
| "arg_fits f (Word w # _) \<longleftrightarrow> f \<noteq> byte CHR ''s'' \<and> (f = byte CHR ''d'' \<longrightarrow> w \<noteq> 0x80000000)"

definition takes_arg :: "u8 \<Rightarrow> bool" where
  "takes_arg f \<longleftrightarrow> f \<in> set (bytes ''sduxc'')"

fun fits :: "u8 list \<Rightarrow> vararg list \<Rightarrow> bool" where
  "fits [] args = True"
| "fits [c] args = True"
| "fits (c # f # s) args =
     (if c = 0 then True
      else if c = 37 \<and> f \<noteq> 0 then arg_fits f args \<and> fits s (if takes_arg f then tl args else args)
      else fits (f # s) args)"

lemma print_int_sint: "(w :: u32) \<noteq> 0x80000000 \<Longrightarrow> \<exists>out. print_int (sint w) = Some out"
proof -
  assume w: "w \<noteq> 0x80000000"
  have "sint w \<noteq> - 2147483648"
  proof
    assume "sint w = - 2147483648"
    then have "word_of_int (sint w) = (word_of_int (- 2147483648) :: u32)" by simp
    with w show False by simp
  qed
  moreover have "- 2147483648 \<le> sint w" "sint w < 2147483648"
    using sint_greater_eq [of w] sint_less [of w] by simp_all
  ultimately show ?thesis by (intro print_int_some) simp_all
qed

lemma convert_fits: "arg_fits f args \<Longrightarrow> \<exists>out. convert f args = Some (out, if takes_arg f then tl args else args)"
proof (cases args)
  case Nil
  then show "arg_fits f args \<Longrightarrow> ?thesis" by (auto simp: convert.simps takes_arg_def)
next
  case (Cons a as)
  then show "arg_fits f args \<Longrightarrow> ?thesis"
  proof (cases a)
    case (Word w)
    with Cons print_int_sint [of w] show "arg_fits f args \<Longrightarrow> ?thesis"
      by (auto simp: convert.simps takes_arg_def)
  next
    case (Str p)
    with Cons show "arg_fits f args \<Longrightarrow> ?thesis"
      by (cases p) (auto simp: convert.simps takes_arg_def)
  qed
qed

lemma fits_chars: "fits fmt args \<Longrightarrow> \<exists>out. kprintf_chars fmt args = Some out"
proof (induction fmt args rule: fits.induct)
  case (3 c f s args)
  show ?case
  proof (cases "c = 37 \<and> f \<noteq> 0")
    case True
    with 3(3) convert_fits [of f args] obtain out where
      "convert f args = Some (out, if takes_arg f then tl args else args)" by auto
    with True 3(1,3) show ?thesis by auto
  next
    case False
    with 3(2,3) show ?thesis by auto
  qed
qed auto

lemma keeps_say: "fits fmt args \<Longrightarrow> keeps (say fmt args)"
  unfolding say_def using fits_chars [of fmt args]
  by (auto intro!: keeps_on_screen good_yields terminal_write_good simp: kprintf_def)

lemma fits_text: "37 \<notin> set fmt \<Longrightarrow> fits fmt args"
  by (induction fmt args rule: fits.induct) auto

lemma keeps_text [keeps_intros]: "37 \<notin> set fmt \<Longrightarrow> keeps (say fmt args)"
  by (rule keeps_say) (rule fits_text)

lemma percent_byte: "(37 = byte c) = (c = CHR ''%'')"
  using byte_inject [of c "CHR ''%''"] by (auto simp: byte_def)

lemma percent_in_text [simp]: "37 \<in> set (bytes w) \<longleftrightarrow> CHR ''%'' \<in> set w"
  by (induction w) (auto simp: percent_byte)

lemma percent_in_ln [simp]: "37 \<in> set (ln w) \<longleftrightarrow> CHR ''%'' \<in> set w"
  by (simp add: ln_def)

text \<open>Literal text in front of a conversion is skipped at once.\<close>

lemma fits_skip: "37 \<notin> set p \<Longrightarrow> 0 \<notin> set p \<Longrightarrow> fits (p @ s) args = fits s args"
proof (induction p)
  case (Cons c p)
  show ?case
  proof (cases "p @ s")
    case (Cons d r)
    with Cons.prems Cons.IH show ?thesis by simp
  qed (use Cons.prems in \<open>simp add: append_eq_conv_conj\<close>)
qed simp

lemma byte_percent [simp]: "(byte c = 37) = (c = CHR ''%'')" using percent_byte [of c] by auto

section \<open>Numbers\<close>

lemma small_ok: "unat (w :: u32) < 2147483648 \<Longrightarrow> w \<noteq> 0x80000000"
  by auto

lemma unat_div_le: "unat ((w :: u32) div k) \<le> unat w"
  by (simp add: unat_div div_le_dividend)

lemma unat_mod_le: "unat ((w :: u32) mod k) \<le> unat w"
  by (simp add: unat_mod mod_less_eq_dividend)

lemma sh_inv_parts:
  assumes "sh_inv n s"
  shows "fs_inv (the_fs s)" "kern_inv (s_kern (sh_sys s))" "procs_ok (the_procs s)" "pmm_inv (the_pages s)"
    "vga_ok (s_term (sh_sys s))" "klog_inv (log (s_kern (sh_sys s)))" "numbers_ok n s" "editor_ok s"
  using assms by (simp_all add: sh_inv_def sys_inv_def kern_inv_def the_fs_def the_procs_def the_pages_def stacks_ok_def)

lemma used_bound: "pmm_inv p \<Longrightarrow> unat (used_pages p) \<le> 32768"
  using card_mono [of "{..< 32768 :: nat}" "used_set p"] by (auto simp: pmm_inv_def pmm_wf_def used_set_def)

lemma shell_numbers:
  assumes "sh_inv n s"
  shows "unat (pmm_get_total_memory_kb (the_pages s)) < 2147483648"
    "unat (pmm_get_used_pages (the_pages s) * k) = unat (pmm_get_used_pages (the_pages s)) * unat k \<or> 100 < unat k"
    "unat (pmm_get_free_pages (the_pages s) * 4) < 2147483648"
    "unat (pmm_get_total_pages (the_pages s) * 4) < 2147483648"
    "unat (pmm_get_used_pages (the_pages s)) \<le> 32768"
    "unat (pmm_get_free_pages (the_pages s)) < 536870912"
    "unat (ticks s) < 2147483648"
    "process_get_count (the_procs s) \<le> 16" "fs_get_file_count (the_fs s) \<le> 64" "fs_get_dir_count (the_fs s) \<le> 64"
    "klog_count (log (s_kern (sh_sys s))) \<le> 64"
proof -
  let ?p = "the_pages s"
  from sh_inv_parts [OF assms] have t: "unat (total_pages ?p) < 536870912" and u: "unat (used_pages ?p) \<le> 32768"
    and tk: "unat (ticks s) < 2147483648" and kl: "klog_inv (log (s_kern (sh_sys s)))"
    using used_bound by (auto simp: numbers_ok_def)
  show "unat (pmm_get_total_memory_kb ?p) < 2147483648" "unat (pmm_get_total_pages ?p * 4) < 2147483648"
    "unat (pmm_get_used_pages ?p) \<le> 32768" "unat (ticks s) < 2147483648"
    using t u tk by (simp_all add: pmm_get_total_memory_kb_def pmm_get_total_pages_def pmm_get_used_pages_def unat_word_ariths)
  show f: "unat (pmm_get_free_pages ?p) < 536870912"
    using t by (auto simp: pmm_get_free_pages_def unat_sub)
  then show "unat (pmm_get_free_pages ?p * 4) < 2147483648" by (simp add: unat_word_ariths)
  show "unat (pmm_get_used_pages ?p * k) = unat (pmm_get_used_pages ?p) * unat k \<or> 100 < unat k"
  proof (cases "unat k \<le> 100")
    case True
    with u have "unat (pmm_get_used_pages ?p) * unat k \<le> 32768 * 100"
      by (intro mult_le_mono) (simp_all add: pmm_get_used_pages_def)
    then show ?thesis by (simp add: unat_word_ariths)
  qed simp
  show "process_get_count (the_procs s) \<le> 16" "fs_get_file_count (the_fs s) \<le> 64" "fs_get_dir_count (the_fs s) \<le> 64"
    unfolding process_get_count_def fs_get_file_count_def fs_get_dir_count_def
    by (intro order_trans [OF length_filter_le]; simp)+
  show "klog_count (log (s_kern (sh_sys s))) \<le> 64"
    using kl by (auto simp: klog_count_def klog_inv_def)
qed

end
