(* ===== verification/CommandSafe.thy ===== *)
theory CommandSafe
  imports ShellSafe
begin

text \<open>
  Safety of the commands, one lemma each: they keep the shell's invariant, for every file system,
  process table and input.
\<close>

section \<open>Commands that only print\<close>


lemma num_ok [simp]: "n < 2147483648 \<Longrightarrow> (of_nat n :: u32) \<noteq> 0x80000000"
  "n < 2147483647 \<Longrightarrow> (of_nat n :: u32) \<noteq> 0x7FFFFFFF"
  by (rule small_ok, simp) (auto dest: arg_cong [where f = unat])

lemma small_div: "unat (w :: u32) < 2147483648 \<Longrightarrow> w div k \<noteq> 0x80000000"
  "unat (w :: u32) < 2147483648 \<Longrightarrow> w mod k \<noteq> 0x80000000"
  using unat_div_le [of w k] unat_mod_le [of w k] by (auto intro!: small_ok)

lemmas fits_eval = fits.simps arg_fits.simps takes_arg_def ln_def num_def arg_str_def

lemma keeps_cmd_help [keeps_intros]: "keeps cmd_help"
  unfolding cmd_help_def by (rule keeps_steps) (auto intro!: keeps_intros)

lemma keeps_cmd_colors [keeps_intros]: "keeps cmd_colors"
  unfolding cmd_colors_def colour_row_def
  by (rule keeps_steps) (auto intro!: keeps_intros keeps_say simp: fits_eval)

lemma seconds_ok:
  assumes "unat (t :: u32) < 2147483648"
  shows "t div 100 mod 60 \<noteq> 0x80000000" "t div 100 div 60 \<noteq> 0x80000000" "t div 100 \<noteq> 0x80000000" "t \<noteq> 0x80000000"
  using assms unat_div_le [of t 100] by (auto intro!: small_div)

lemma shell_counts_ok:
  assumes "sh_inv n s"
  shows "pmm_get_used_pages (the_pages s) * 4 \<noteq> 0x80000000" "pmm_get_total_memory_kb (the_pages s) \<noteq> 0x80000000"
    "pmm_get_free_pages (the_pages s) * 4 \<noteq> 0x80000000" "pmm_get_total_pages (the_pages s) * 4 \<noteq> 0x80000000"
    "pmm_get_total_pages (the_pages s) * 4 div 1024 \<noteq> 0x80000000"
    "pmm_get_used_pages (the_pages s) * 100 div pmm_get_total_pages (the_pages s) \<noteq> 0x80000000"
    "pmm_get_used_pages (the_pages s) \<noteq> 0x80000000" "pmm_get_free_pages (the_pages s) \<noteq> 0x80000000"
    "(of_nat (process_get_count (the_procs s)) :: u32) \<noteq> 0x80000000"
    "(of_nat (fs_get_file_count (the_fs s)) :: u32) \<noteq> 0x80000000"
    "(of_nat (fs_get_dir_count (the_fs s)) :: u32) \<noteq> 0x80000000"
    "(of_nat (klog_count (log (s_kern (sh_sys s)))) :: u32) \<noteq> 0x80000000"
proof -
  note k = shell_numbers [OF assms]
  show "pmm_get_used_pages (the_pages s) * 4 \<noteq> 0x80000000" using k(2) [of 4] k(5) by (intro small_ok) simp
  show "pmm_get_used_pages (the_pages s) * 100 div pmm_get_total_pages (the_pages s) \<noteq> 0x80000000"
    using k(2) [of 100] k(5) by (intro small_div) simp
qed (use shell_numbers [OF assms] in \<open>auto intro!: small_ok small_div num_ok\<close>)

lemma keeps_cmd_neofetch [keeps_intros]: "keeps cmd_neofetch"
  unfolding cmd_neofetch_def swatch_def
proof (rule keeps_with_state, goal_cases)
  case (1 n s)
  show ?case using shell_counts_ok [OF 1] seconds_ok [OF shell_numbers(7) [OF 1]]
    by (auto intro!: keeps_intros keeps_say simp: Let_def fits_eval)
qed

lemma keeps_cmd_info [keeps_intros]: "keeps cmd_info"
  unfolding cmd_info_def
proof (rule keeps_with_state, goal_cases)
  case (1 n s)
  show ?case using shell_counts_ok [OF 1]
    by (auto intro!: keeps_intros keeps_say simp: fits_eval)
qed

lemma keeps_cmd_meminfo [keeps_intros]: "keeps cmd_meminfo"
  unfolding cmd_meminfo_def meminfo_bar_def
proof (rule keeps_with_state, goal_cases)
  case (1 n s)
  show ?case using shell_counts_ok [OF 1]
    by (auto intro!: keeps_intros keeps_say simp: Let_def fits_eval)
qed

lemma keeps_cmd_version [keeps_intros]: "keeps cmd_version"
  unfolding cmd_version_def by (rule keeps_steps) (auto intro!: keeps_intros)

lemma keeps_cmd_time [keeps_intros]: "keeps cmd_time"
  unfolding cmd_time_def
proof (rule keeps_with_state, goal_cases)
  case (1 n s)
  show ?case using seconds_ok [OF shell_numbers(7) [OF 1]]
    by (auto intro!: keeps_say simp: Let_def fits_eval)
qed

lemma ucast_u8_ok [simp]: "(ucast (b :: u8) :: u32) \<noteq> 0x80000000"
proof -
  have "unat (ucast b :: u32) < 256"
    by (simp add: unsigned_ucast_eq take_bit_eq_mod le_less_trans [OF mod_less_eq_dividend unat_u8_bound])
  then show ?thesis by auto
qed

lemma keeps_cmd_date [keeps_intros]: "keeps (cmd_date rtc)"
  unfolding cmd_date_def by (rule keeps_steps) (auto intro!: keeps_intros keeps_say simp: fits_eval)

lemma keeps_cmd_echo [keeps_intros]: "keeps (cmd_echo argv)"
  unfolding cmd_echo_def
  by (rule keeps_steps) (auto intro!: keeps_intros keeps_say simp: fits_eval split: if_splits)

lemma keeps_cmd_history_show [keeps_intros]: "keeps cmd_history_show"
  unfolding cmd_history_show_def
proof (rule keeps_with_state, goal_cases)
  case (1 n s)
  have "history_count s \<le> 10" using sh_inv_parts(8) [OF 1] by (simp add: editor_ok_def)
  then show ?case
    by (auto intro!: keeps_intros keeps_say simp: fits_eval)
qed


section \<open>Arguments\<close>

text \<open>The text that \<open>join_args\<close> puts behind what the buffer holds.\<close>

fun joined :: "u8 list list \<Rightarrow> u8 list" where
  "joined [] = []"
| "joined [a] = cstr a"
| "joined (a # b # as) = cstr a @ 32 # joined (b # as)"

lemma join_args_eq:
  assumes "0 \<in> set buf" "length (cstr buf) + length (joined as) < length buf"
  shows "\<exists>b. join_args buf as = Some b \<and> length b = length buf \<and> 0 \<in> set b \<and> cstr b = cstr buf @ joined as"
  using assms
proof (induction buf as rule: join_args.induct)
  case (2 buf a)
  then show ?case by (simp add: strcat_closed cstr_append)
next
  case (3 buf a b as)
  define b1 where "b1 = cstr buf @ cstr a @ 0 # drop (Suc (length (cstr buf) + length (cstr a))) buf"
  from 3(3) have s1: "strcat buf a = Some b1" by (simp add: strcat_closed b1_def)
  have c1: "cstr b1 = cstr buf @ cstr a" "length b1 = length buf"
    using 3(3) by (simp_all add: b1_def cstr_append)
  define b2 where "b2 = cstr b1 @ cstr (bytes '' '') @ 0 # drop (Suc (length (cstr b1) + length (cstr (bytes '' '')))) b1"
  have sp: "cstr (bytes '' '') = [32]" by (simp add: byte_def)
  have s2: "strcat b1 (bytes '' '') = Some b2"
    using 3(3) c1 unfolding b2_def by (simp add: strcat_closed sp del: bytes_simps(1,2))
  have c2: "cstr b2 = cstr buf @ cstr a @ [32]" "length b2 = length buf" "0 \<in> set b2"
    using 3(3) c1 by (simp_all add: b2_def cstr_append sp del: bytes_simps(1,2))
  have "\<exists>b'. join_args b2 (b # as) = Some b' \<and> length b' = length b2 \<and> 0 \<in> set b' \<and> cstr b' = cstr b2 @ joined (b # as)"
    using 3(3) c2 by (intro 3(1) [OF s1 s2]) simp_all
  with s1 s2 c2 show ?case by (simp del: bytes_simps(1,2))
qed simp

text \<open>The arguments of a command: strings that together fit in a line.\<close>

definition args_ok :: "u8 list list \<Rightarrow> bool" where
  "args_ok argv \<longleftrightarrow> (\<Sum>a\<leftarrow>argv. length (cstr a) + 1) \<le> 256"

lemma joined_length: "length (joined as) \<le> (\<Sum>a\<leftarrow>as. length (cstr a) + 1)"
  by (induction as rule: joined.induct) simp_all

lemma args_ok_drop: "args_ok argv \<Longrightarrow> k < length argv \<Longrightarrow> 0 < k \<Longrightarrow> length (joined (drop k argv)) + length (cstr (argv ! 0)) < 256"
proof -
  assume a: "args_ok argv" "k < length argv" "0 < k"
  have "(\<Sum>a\<leftarrow>take k argv @ drop k argv. length (cstr a) + 1)
      = (\<Sum>a\<leftarrow>take k argv. length (cstr a) + 1) + (\<Sum>a\<leftarrow>drop k argv. length (cstr a) + 1)"
    by (simp only: map_append sum_list_append)
  then have "(\<Sum>a\<leftarrow>argv. length (cstr a) + 1)
      = (\<Sum>a\<leftarrow>take k argv. length (cstr a) + 1) + (\<Sum>a\<leftarrow>drop k argv. length (cstr a) + 1)"
    by (simp only: append_take_drop_id)
  moreover have "length (cstr (argv ! 0)) + 1 \<le> (\<Sum>a\<leftarrow>take k argv. length (cstr a) + 1)"
    using a by (cases argv; cases k) auto
  ultimately show ?thesis
    using a(1) joined_length [of "drop k argv"] by (simp add: args_ok_def)
qed

lemma keeps_cmd_cowsay [keeps_intros]:
  assumes "args_ok argv"
  shows "keeps (cmd_cowsay argv)"
proof (rule keepsI)
  fix n s assume s: "sh_inv n s"
  have "\<exists>b. (if length argv < 2 then strcpy (replicate 256 0) (bytes ''Meow!'') else join_args (replicate 256 0) (drop 1 argv)) = Some b"
  proof (cases "length argv < 2")
    case False
    with assms args_ok_drop [of argv 1] join_args_eq [of "replicate 256 0" "drop 1 argv"] show ?thesis by auto
  qed (simp add: strcpy_closed)
  then obtain b where b: "(if length argv < 2 then strcpy (replicate 256 0) (bytes ''Meow!'') else join_args (replicate 256 0) (drop 1 argv)) = Some b"
    by blast
  show "yields (sh_inv n) (cmd_cowsay argv s)"
    unfolding cmd_cowsay_def Let_def b
    by (simp add: Let_def del: steps.simps, rule keepsD [OF _ s], rule keeps_steps)
      (auto intro!: keeps_intros keeps_say simp: fits_eval)
qed

lemma run_ops_prints:
  assumes "\<forall>op \<in> set ops. case op of SetColor c \<Rightarrow> True | Print f args \<Rightarrow> kprintf_chars f args \<noteq> None" "vga_ok t"
  shows "\<exists>r. run_ops ops t = Some r \<and> yields vga_ok r"
  using assms
proof (induction ops t rule: run_ops.induct)
  case (2 c ops t)
  then show ?case by (simp add: terminal_setcolor_def vga_ok_def)
next
  case (3 f args ops t)
  then obtain out where out: "kprintf_chars f args = Some out" by auto
  have y: "yields vga_ok (terminal_write out t)" by (rule good_yields, rule terminal_write_good, rule 3(3))
  show ?case
  proof (cases "terminal_write out t")
    case (Inl e)
    with y show ?thesis by (simp add: kprintf_def out)
  next
    case (Inr t')
    with y have "vga_ok t'" by simp
    with 3(1) [of "Inr t'" t'] 3(2) Inr show ?thesis by (simp add: kprintf_def out)
  qed
qed simp

lemma run_ops_yields:
  assumes "\<forall>op \<in> set ops. case op of SetColor c \<Rightarrow> True | Print f args \<Rightarrow> fits f args" "vga_ok t"
  shows "\<exists>r. run_ops ops t = Some r \<and> yields vga_ok r"
proof (rule run_ops_prints [OF _ assms(2)])
  show "\<forall>op \<in> set ops. case op of SetColor c \<Rightarrow> True | Print f args \<Rightarrow> kprintf_chars f args \<noteq> None"
    using assms(1) fits_chars by (fastforce split: screen_op.splits)
qed

lemma div_100_ok: "(t :: u32) div 100 \<noteq> 0x80000000" "t mod 100 \<noteq> 0x80000000"
proof -
  have "unat t < 2147483648 * 100" by (rule less_trans [OF unat_u32_bound]) simp
  then have "unat (t div 100) < 2147483648" by (simp only: unat_div less_mult_imp_div_less unat_numeral) simp
  moreover have "unat (t mod 100) < 2147483648" by (simp add: unat_mod less_trans [OF mod_less_divisor])
  ultimately show "t div 100 \<noteq> 0x80000000" "t mod 100 \<noteq> 0x80000000" by (auto intro!: small_ok)
qed

lemma level_ops_fit: "op \<in> set (level_ops l) \<Longrightarrow> case op of SetColor c \<Rightarrow> True | Print f args \<Rightarrow> fits f args"
  by (cases l) (auto simp: fits_eval)

lemma klog_print_yields: "vga_ok t \<Longrightarrow> \<exists>r. klog_print k t = Some r \<and> yields vga_ok r"
  unfolding klog_print_def
  by (rule run_ops_yields)
    (auto simp: entry_ops_def stamp_ops_def fits_eval div_100_ok dest: level_ops_fit)

lemma keeps_cmd_dmesg [keeps_intros]: "keeps cmd_dmesg"
  unfolding cmd_dmesg_def Let_def
proof (rule keeps_with_state, goal_cases)
  case (1 n s)
  have "keeps (on_screen (\<lambda>t. case klog_print l t of None \<Rightarrow> Inl Fault | Some r \<Rightarrow> r))" for l
    by (rule keeps_on_screen, drule klog_print_yields [of _ l]) auto
  then show ?case using shell_counts_ok [OF 1]
    by (auto intro!: keeps_intros keeps_say simp: fits_eval)
qed

lemma keeps_cmd_color:
  assumes "\<forall>a \<in> set argv. atoi a \<noteq> None"
  shows "keeps (cmd_color argv)"
proof (rule keepsI)
  fix n s assume s: "sh_inv n s"
  show "yields (sh_inv n) (cmd_color argv s)"
  proof (cases "length argv < 3")
    case True
    then show ?thesis by (simp add: cmd_color_def keepsD [OF keeps_text s])
  next
    case False
    with assms obtain fg bg where "atoi (argv ! 1) = Some fg" "atoi (argv ! 2) = Some bg"
      by (metis nth_mem not_less less_le_trans option.exhaust one_less_numeral_iff semiring_norm(77) lessI numeral_2_eq_2 numeral_3_eq_3)
    with False show ?thesis
      by (auto simp: cmd_color_def simp del: steps.simps intro!: keepsD [OF _ s] keeps_intros)
  qed
qed


section \<open>File commands\<close>

lemma sh_inv_set_fs: "sh_inv n s \<Longrightarrow> fs_inv f \<Longrightarrow> sh_inv n (set_fs f s)"
  by (simp add: sh_inv_def sys_inv_def numbers_ok_def editor_ok_def the_procs_def the_pages_def ticks_def s_now_def set_fs_def)

lemma keeps_report [keeps_intros]: "keeps f \<Longrightarrow> keeps g \<Longrightarrow> keeps (report ok f g)"
  unfolding report_def by (rule keeps_steps) (auto intro: keeps_intros split: if_splits)

lemma ls_loop_yields: "0 \<in> set rest \<Longrightarrow> sh_inv n s \<Longrightarrow> yields (sh_inv n) (ls_loop rest s)"
proof (induction rest s rule: ls_loop.induct)
  case (1 rest s)
  then obtain c cs where rest: "rest = c # cs" by (cases rest) auto
  let ?p = "\<lambda>c :: u8. c \<noteq> 0 \<and> c \<noteq> 10"
  have split: "takeWhile ?p rest @ dropWhile ?p rest = rest" by (rule takeWhile_dropWhile_id)
  have "0 \<notin> set (takeWhile ?p rest)" by (auto dest: set_takeWhileD)
  moreover have "set rest = set (takeWhile ?p rest) \<union> set (dropWhile ?p rest)"
    by (simp only: set_append [symmetric] split)
  ultimately have zero: "0 \<in> set (dropWhile ?p rest)" using 1(2) by blast
  then obtain d r where d: "dropWhile ?p rest = d # r" by (cases "dropWhile ?p rest") auto
  show ?case
  proof (cases "c = 0")
    case False
    have k: "keeps (steps [if take 3 rest = bytes ''DIR'' then colour VGA_LIGHT_CYAN VGA_BLACK else colour VGA_LIGHT_GREEN VGA_BLACK,
        say (bytes ''  '') [], loop putc (takeWhile ?p rest), say [10] []])"
      by (rule keeps_steps) (auto intro!: keeps_intros)
    have z: "0 \<in> set (if d = 10 then r else d # r)" using zero by (auto simp: d)
    have "ls_loop rest s = andthen (steps [if take 3 rest = bytes ''DIR'' then colour VGA_LIGHT_CYAN VGA_BLACK else colour VGA_LIGHT_GREEN VGA_BLACK,
        say (bytes ''  '') [], loop putc (takeWhile ?p rest), say [10] []] s) (\<lambda>s. ls_loop (if d = 10 then r else d # r) s)"
      unfolding ls_loop.simps [of rest s] d using False by (simp add: rest del: steps.simps)
    then show ?thesis
      using keepsD [OF k 1(3)] 1(1) [OF rest False _ d z] by (auto intro!: yields_andthen_eq [of "sh_inv n"] simp del: steps.simps)
  qed (use 1(3) in \<open>simp add: ls_loop.simps rest\<close>)
qed

lemma keeps_ls_loop: "0 \<in> set rest \<Longrightarrow> keeps (ls_loop rest)"
  by (simp add: keeps_def ls_loop_yields)

lemma keeps_cmd_ls [keeps_intros]: "keeps cmd_ls"
proof (rule keepsI)
  fix n s assume s: "sh_inv n s"
  define ls where "ls = fitting 2048 0 (map entry_line (entries (the_fs s)))"
  have l: "fs_list (replicate 2048 0) 2048 (the_fs s)
      = Some (concat ls @ 0 # drop (Suc (length (concat ls))) (replicate 2048 0), length ls)"
    unfolding ls_def using sh_inv_parts(1) [OF s] by (rule fs_list_eq) simp_all
  have "(of_nat (length ls) :: u32) \<noteq> 0x80000000"
  proof -
    have "length (fitting m off xs) \<le> length xs" for m off xs
      by (induction m off xs rule: fitting.induct) auto
    then have "length ls \<le> length (entries (the_fs s))" unfolding ls_def by (metis length_map)
    also have "\<dots> \<le> 64" by (simp add: entries_def visible_def order_trans [OF length_filter_le])
    finally show ?thesis by (intro num_ok) simp
  qed
  then show "yields (sh_inv n) (cmd_ls s)"
    unfolding cmd_ls_def l
    by (simp del: steps.simps, intro keepsD [OF _ s] keeps_steps)
      (auto intro!: keeps_intros keeps_say keeps_ls_loop simp: fits_eval)
qed

end
