(* ===== verification/InputSafe.thy ===== *)
theory InputSafe
  imports CommandSafe
begin

text \<open>
  The loops that wait for time or for keys: they keep the shell's invariant, and the bounds on their
  rounds are enough, because every round takes a character or a halt from those still to come.
\<close>

section \<open>Time\<close>

lemma sh_inv_input: "sh_inv n s \<Longrightarrow> unat t < 2 ^ 31 \<Longrightarrow> halts_ok hs \<Longrightarrow>
    sh_inv n ((set_keys ks (set_ticks t s))\<lparr>halts := hs\<rparr>)"
  by (simp add: sh_inv_def sys_inv_def numbers_ok_def editor_ok_def the_procs_def the_pages_def ticks_def s_now_def
      set_keys_def set_ticks_def vga_ok_def timer_get_ticks_def)

lemma sh_inv_keys: "sh_inv n s \<Longrightarrow> sh_inv n (set_keys ks s)"
  by (simp add: sh_inv_def sys_inv_def numbers_ok_def editor_ok_def the_procs_def the_pages_def ticks_def s_now_def
      set_keys_def vga_ok_def)

lemma halts_ok_of: "sh_inv n s \<Longrightarrow> halts_ok (halts s)"
  using sh_inv_parts(7) by (simp add: numbers_ok_def)

lemma halts_ok_Cons: "halts_ok ((t, ks) # hs) \<Longrightarrow> halts_ok hs \<and> unat t < 2 ^ 31"
  by (simp add: halts_ok_def)

lemma sh_inv_after_halt: "sh_inv n s \<Longrightarrow> halts_ok ((t, ks) # hs) \<Longrightarrow> sh_inv n (after_halt t ks hs s)"
  using halts_ok_Cons [of t ks hs] by (simp add: after_halt_def sh_inv_input)

lemma busy_wait_from_yields: "sh_inv n s \<Longrightarrow> halts_ok hs \<Longrightarrow> yields (sh_inv n) (busy_wait_from hs start k s)"
  by (induction hs start k s rule: busy_wait_from.induct) (auto simp: sh_inv_after_halt halts_ok_def)

lemma keeps_busy_wait [keeps_intros]: "keeps (busy_wait k)"
  by (simp add: keeps_def busy_wait_def busy_wait_from_yields halts_ok_of)

section \<open>Keys\<close>

declare wait_key.simps [simp del] take_key.simps [simp del] poll_wait.simps [simp del]
  vga_puts.simps [simp del]

lemma sh_inv_take_key: "sh_inv n s \<Longrightarrow> sh_inv n (fst (take_key s))"
  by (simp add: take_key.simps sh_inv_keys split: list.split)

lemma wait_key_yields: "sh_inv n s \<Longrightarrow> halts_ok hs \<Longrightarrow> yields (\<lambda>(s, c). sh_inv n s) (wait_key hs s)"
proof (induction hs arbitrary: s)
  case Nil
  then show ?case
    by (simp add: wait_key.simps [of "[]"] sh_inv_take_key case_prod_unfold)
next
  case (Cons h hs)
  obtain t ks where h: "h = (t, ks)" by (cases h)
  from Cons.prems h have "sh_inv n (after_halt t ks hs s)" "halts_ok hs"
    by (simp_all add: sh_inv_after_halt) (simp add: halts_ok_def)
  with Cons.IH Cons.prems(1) show ?case
    by (simp add: h wait_key.simps [of "(t, ks) # hs"] sh_inv_take_key case_prod_unfold)
qed

lemma getchar_yields: "sh_inv n s \<Longrightarrow> yields (\<lambda>(s, c). sh_inv n s) (getchar s)"
  by (simp add: getchar_def wait_key_yields halts_ok_of)

text \<open>A loop that keeps \<open>I\<close> of its variables and the invariant of the shell.\<close>

definition loop_inv :: "nat \<Rightarrow> ('l \<Rightarrow> bool) \<Rightarrow> 'l \<times> shell \<Rightarrow> bool" where
  "loop_inv n I ls \<longleftrightarrow> I (fst ls) \<and> sh_inv n (snd ls)"

lemma loop_inv_pair [simp]: "loop_inv n I (l, s) \<longleftrightarrow> I l \<and> sh_inv n s"
  by (simp add: loop_inv_def)

lemma key_loop_yields:
  assumes "\<And>c ls. loop_inv n I ls \<Longrightarrow> yields (\<lambda>(go, ls). loop_inv n I ls) (f c ls)" "loop_inv n I ls"
  shows "yields (loop_inv n I) (key_loop k f ls)"
  using assms(2)
proof (induction k arbitrary: ls)
  case (Suc k)
  obtain l s where ls: "ls = (l, s)" by (cases ls)
  have "yields (loop_inv n I) (andthen (f c (l, s')) (\<lambda>(go, ls). if go then key_loop k f ls else Inr ls))"
    if "sh_inv n s'" for s' c
    using Suc.prems that ls by (intro yields_andthen [OF assms(1)]) (auto simp: Suc.IH)
  with Suc.prems show ?case
    unfolding ls key_loop.simps by (intro yields_andthen [OF getchar_yields]) auto
qed simp

lemma while_keys_yields:
  assumes "\<And>c ls. loop_inv n I ls \<Longrightarrow> yields (\<lambda>(go, ls). loop_inv n I ls) (f c ls)" "loop_inv n I ls"
  shows "yields (loop_inv n I) (while_keys f ls)"
  unfolding while_keys_def using assms by (rule key_loop_yields)

lemma poll_wait_yields:
  assumes "\<And>c l. I l \<Longrightarrow> I (snd (f c l))" "loop_inv n I ls" "halts_ok hs"
  shows "yields (\<lambda>(go, ls). loop_inv n I ls) (poll_wait hs start k f ls)"
  using assms(2,3)
proof (induction hs arbitrary: ls)
  case Nil
  obtain l s where ls: "ls = (l, s)" by (cases ls)
  have "I l" "sh_inv n s" "sh_inv n (fst (take_key s))" "\<And>c. I (snd (f c l))"
    using Nil(1) assms(1) ls by (simp_all add: sh_inv_take_key)
  then show ?case
    by (auto simp: ls poll_wait.simps [of "[]"] Let_def case_prod_unfold)
next
  case (Cons h hs)
  obtain l s where ls: "ls = (l, s)" by (cases ls)
  obtain t ks where h: "h = (t, ks)" by (cases h)
  have I: "I l" "sh_inv n s" "sh_inv n (fst (take_key s))" "\<And>c. I (snd (f c l))"
    using Cons(2) assms(1) ls by (simp_all add: sh_inv_take_key)
  have H: "halts_ok hs" using Cons(3) by (simp add: halts_ok_def)
  have "yields (\<lambda>(go, ls). loop_inv n I ls) (poll_wait hs start k f (l', after_halt t ks hs s'))"
    if "I l'" "sh_inv n s'" for l' s'
    using that Cons(3) h by (intro Cons.IH H) (simp add: sh_inv_after_halt)
  with I show ?case
    by (auto simp: ls h poll_wait.simps [of "(t, ks) # hs"] Let_def case_prod_unfold)
qed

section \<open>Typed fields\<close>

definition field_ok :: "nat \<Rightarrow> u8 list \<times> nat \<Rightarrow> bool" where
  "field_ok lim bi \<longleftrightarrow> length (fst bi) = lim + 1 \<and> fst bi ! lim = 0 \<and> snd bi \<le> lim"

lemma field_ok_nul: "field_ok lim (b, i) \<Longrightarrow> 0 \<in> set b"
  by (auto simp: field_ok_def in_set_conv_nth)

lemma field_key_keeps:
  assumes "loop_inv n (field_ok lim) ls"
  shows "yields (\<lambda>(go, ls). loop_inv n (field_ok lim) ls) (field_key lim echo newline c ls)"
proof -
  obtain b i s where ls: "ls = ((b, i), s)" by (metis prod.exhaust)
  have i: "length b = lim + 1" "b ! lim = 0" "i \<le> lim" and s: "sh_inv n s" using assms ls by (simp_all add: field_ok_def)
  have "yields (sh_inv n) (if newline then putc 10 s else Inr s)" "yields (sh_inv n) (putc c' s)" for c'
    using s keepsD [OF keeps_putc s] by simp_all
  note rules = yields_andthen [OF this(1)] yields_andthen [OF this(2)]
  show ?thesis
    unfolding field_key_def ls using i s
    by (cases "c = 10"; cases "c = 8") (auto simp: put_at_def nth_list_update field_ok_def intro!: rules)
qed

lemma read_field_yields: "sh_inv n s \<Longrightarrow> yields (loop_inv n (field_ok lim)) (read_field lim echo newline s)"
  unfolding read_field_def by (rule while_keys_yields) (simp_all add: field_key_keeps field_ok_def del: replicate.simps)

end
