(* ===== verification/FileSafe.thy ===== *)
theory FileSafe
  imports InputSafe
begin

text \<open>
  Safety of the commands on files: each keeps the shell's invariant, the file system's included.
\<close>

text \<open>The recursion of \<open>tree\<close> descends along the parents, which form no cycle: 64 levels are enough.\<close>

lemma keeps_tree_entry:
  assumes "unat (node_size nd) \<le> 4095"
  shows "keeps (steps (tree_entry nd depth))"
proof -
  have "node_size nd \<noteq> 0x80000000" using assms by (intro small_ok) simp
  then show ?thesis
    unfolding tree_entry_def by (intro keeps_steps) (auto intro!: keeps_intros keeps_say simp: fits_eval split: if_splits)
qed

lemma tree_yields:
  fixes rank :: "nat \<Rightarrow> nat"
  assumes "fs_shape f" "\<And>d i. entry_of f d i \<Longrightarrow> rank d < rank i"
    and "card {i. i < 64 \<and> rank d0 < rank i} < k" "sh_inv n s"
  shows "yields (sh_inv n) (tree_print_recurse k d0 depth (fs_nodes f) s)"
  using assms(3,4)
proof (induction k arbitrary: d0 depth s)
  case (Suc k)
  show ?case
    unfolding tree_print_recurse.simps
  proof (rule yields_loop)
    fix i s assume i: "i \<in> set [0 ..< 64 :: nat]" and s: "sh_inv n s"
    have sz: "unat (node_size (fs_nodes f ! i)) \<le> 4095" using fs_shapeD(7) [OF assms(1), of i] i by simp
    have "yields (sh_inv n) (tree_print_recurse k i (depth + 1) (fs_nodes f) s')"
      if e: "entry_of f d0 i" and s': "sh_inv n s'" for s'
    proof (rule Suc.IH [OF _ s'])
      have "{j. j < 64 \<and> rank i < rank j} \<subset> {j. j < 64 \<and> rank d0 < rank j}"
        using assms(2) [OF e] i by (auto simp: psubset_eq)
      then have "card {j. j < 64 \<and> rank i < rank j} < card {j. j < 64 \<and> rank d0 < rank j}"
        by (intro psubset_card_mono) simp_all
      with Suc.prems(1) show "card {j. j < 64 \<and> rank i < rank j} < k" by simp
    qed
    with i s show "yields (sh_inv n) (if \<not> in_use (fs_nodes f ! i) then Inr s
       else if parent (fs_nodes f ! i) \<noteq> int d0 then Inr s
       else if i = 0 then Inr s
       else andthen (steps (tree_entry (fs_nodes f ! i) depth) s) (\<lambda>s.
         if node_type (fs_nodes f ! i) = FS_TYPE_DIR then tree_print_recurse k i (depth + 1) (fs_nodes f) s else Inr s))"
      by (auto simp: entry_of_def intro!: yields_andthen [OF keepsD [OF keeps_tree_entry [OF sz] s]])
  qed (rule Suc.prems(2))
qed simp

lemma fs_inv_rank: "fs_inv f \<Longrightarrow> \<exists>rank :: nat \<Rightarrow> nat. \<forall>d i. entry_of f d i \<longrightarrow> rank d < rank i"
  unfolding fs_inv_def fs_tree_def by blast

lemma keeps_tree: "fs_inv f \<Longrightarrow> keeps (tree_print_recurse 64 0 1 (fs_nodes f))"
proof (rule keepsI)
  fix n s assume f: "fs_inv f" and s: "sh_inv n s"
  from fs_inv_rank [OF f] obtain rank :: "nat \<Rightarrow> nat"
    where rank: "\<And>d i. entry_of f d i \<Longrightarrow> rank d < rank i" by blast
  have "{i. i < 64 \<and> rank 0 < rank i} \<subseteq> {..< 64} - {0 :: nat}"
    by (auto simp del: One_nat_def intro: gr0I)
  then have "card {i. i < 64 \<and> rank 0 < rank i} \<le> card ({..< 64} - {0 :: nat})" by (intro card_mono) simp_all
  then have c: "card {i. i < 64 \<and> rank 0 < rank i} < 64" by simp
  show "yields (sh_inv n) (tree_print_recurse 64 0 1 (fs_nodes f) s)"
    by (rule tree_yields [OF fs_inv_shape [OF f] _ c s]) (rule rank)
qed

lemma keeps_cmd_tree [keeps_intros]: "keeps cmd_tree"
  unfolding cmd_tree_def
proof (rule keeps_with_state, goal_cases)
  case (1 n s)
  then show ?case using keeps_tree [OF sh_inv_parts(1) [OF 1]]
    by (auto intro!: keeps_intros simp del: tree_print_recurse.simps)
qed

lemma keeps_cmd_pwd [keeps_intros]: "keeps cmd_pwd"
  unfolding cmd_pwd_def by (rule keepsI, rule keepsD, rule keeps_say) (simp_all add: fits_eval)

lemma keeps_cmd_cat [keeps_intros]: "keeps (cmd_cat argv)"
proof (rule keepsI)
  fix n s assume s: "sh_inv n s"
  have "\<exists>b r. fs_read_file (argv ! 1) (replicate 4096 0) 4096 (the_fs s) = Some (b, r)"
    using fs_read_file_eq [OF fs_inv_shape [OF sh_inv_parts(1) [OF s]], of 4096 "replicate 4096 0" "argv ! 1"]
    by (auto simp: Let_def split: option.splits)
  then obtain b r where "fs_read_file (argv ! 1) (replicate 4096 0) 4096 (the_fs s) = Some (b, r)" by blast
  then show "yields (sh_inv n) (cmd_cat argv s)"
    unfolding cmd_cat_def
    by (auto simp del: steps.simps simp: fits_eval intro!: keepsD [OF _ s] keeps_steps keeps_colour keeps_say
        split: if_splits)
qed

text \<open>The commands that change the file system and report.\<close>

lemma yields_report:
  assumes "sh_inv n s" "keeps f" "keeps g"
  shows "yields (sh_inv n) (report ok f g s)"
  using assms by (intro keepsD [OF keeps_report])

lemma keeps_cmd_touch [keeps_intros]: "keeps (cmd_touch argv)"
proof (rule keepsI)
  fix n s assume s: "sh_inv n s"
  from fs_create_file_inv [OF sh_inv_parts(1) [OF s]] obtain f r where
    "fs_create_file (ticks s) (Some (argv ! 1)) (the_fs s) = Some (f, r)" "fs_inv f" by blast
  then show "yields (sh_inv n) (cmd_touch argv s)"
    unfolding cmd_touch_def using s
    by (auto intro!: yields_report sh_inv_set_fs keeps_say keepsD [OF keeps_text] simp: fits_eval)
qed

lemma keeps_cmd_mkdir [keeps_intros]: "keeps (cmd_mkdir_shell argv)"
proof (rule keepsI)
  fix n s assume s: "sh_inv n s"
  from fs_mkdir_inv [OF sh_inv_parts(1) [OF s]] obtain f r where
    "fs_mkdir (ticks s) (Some (argv ! 1)) (the_fs s) = Some (f, r)" "fs_inv f" by blast
  then show "yields (sh_inv n) (cmd_mkdir_shell argv s)"
    unfolding cmd_mkdir_shell_def using s
    by (auto intro!: yields_report sh_inv_set_fs keeps_say keepsD [OF keeps_text] simp: fits_eval)
qed

lemma keeps_cmd_rm [keeps_intros]: "keeps (cmd_rm argv)"
proof (rule keepsI)
  fix n s assume s: "sh_inv n s"
  show "yields (sh_inv n) (cmd_rm argv s)"
    unfolding cmd_rm_def using s fs_delete_inv [OF sh_inv_parts(1) [OF s], of "argv ! 1"]
    by (auto intro!: yields_report sh_inv_set_fs keeps_say keepsD [OF keeps_text] simp: fits_eval split: prod.split)
qed

lemma keeps_cmd_cd [keeps_intros]: "keeps (cmd_cd argv)"
proof (rule keepsI)
  fix n s assume s: "sh_inv n s"
  have f: "sh_inv n (set_fs (fst (fs_cd nm (the_fs s))) s)" for nm
    using fs_cd_inv [OF sh_inv_parts(1) [OF s], of nm] by (auto intro: sh_inv_set_fs [OF s])
  show "yields (sh_inv n) (cmd_cd argv s)"
  proof (cases "length argv < 2")
    case False
    obtain f' r where c: "fs_cd (argv ! 1) (the_fs s) = (f', r)" by (cases "fs_cd (argv ! 1) (the_fs s)")
    have "sh_inv n (set_fs f' s)" using f [of "argv ! 1"] c by simp
    then show ?thesis
      using False c unfolding cmd_cd_def
      by (auto simp del: steps.simps simp: fits_eval intro!: keepsD keeps_steps keeps_colour keeps_say split: if_splits)
  qed (use f in \<open>simp add: cmd_cd_def\<close>)
qed

lemma signed_word_ok: "- 2147483648 < v \<Longrightarrow> v < 2147483648 \<Longrightarrow> (word_of_int v :: u32) \<noteq> 0x80000000"
proof
  assume v: "- 2147483648 < v" "v < 2147483648" and "(word_of_int v :: u32) = 0x80000000"
  then have "sint (word_of_int v :: u32) = sint (0x80000000 :: u32)" by simp
  moreover have "sint (word_of_int v :: u32) = v"
    using v by (simp add: int_word_sint)
  ultimately show False using v by simp
qed

lemma joined_no_nul [simp]: "0 \<notin> set (joined as)"
  by (induction as rule: joined.induct) auto

text \<open>Texts built from the arguments, with a newline after them.\<close>

lemma joined_line:
  assumes "args_ok argv" "0 < k" "k < length argv" "256 < m"
  shows "\<exists>b t. join_args (replicate m 0) (drop k argv) = Some b \<and> strcat b [10] = Some t
    \<and> length t = m \<and> cstr t = joined (drop k argv) @ [10] \<and> 0 \<in> set t"
proof -
  have l: "length (joined (drop k argv)) < 256" using args_ok_drop [OF assms(1,3,2)] by simp
  from assms(4) l join_args_eq [of "replicate m 0" "drop k argv"] obtain b where
    b: "join_args (replicate m 0) (drop k argv) = Some b" "length b = m" "cstr b = joined (drop k argv)"
    by auto
  from b l assms(4) show ?thesis
    by (auto simp: strcat_closed cstr_append intro!: exI)
qed

lemma fs_write_result:
  assumes "fs_inv f" "write_file_len len \<le> length src"
  shows "\<exists>f' r. fs_write_file nm src len f = Some (f', r) \<and> fs_inv f' \<and> - 2147483648 < ret_int r \<and> ret_int r < 2147483648"
proof -
  from fs_write_file_inv [OF assms] obtain f' r where w: "fs_write_file nm src len f = Some (f', r)" "fs_inv f'"
    by blast
  have "write_file_len len \<le> 4095" by (simp add: write_file_len_def)
  moreover have "- 40 < - errno_code e" "- errno_code e < 0" for e using errno_code_bounds [of e] by simp_all
  ultimately have "- 2147483648 < ret_int r \<and> ret_int r < 2147483648"
    using w(1) fs_write_file_eq [OF fs_inv_shape [OF assms(1)] assms(2), of nm]
    by (auto simp: Let_def split: option.splits if_splits)
  with w show ?thesis by blast
qed

lemma write_len_nul: "0 \<in> set t \<Longrightarrow> length t < 2 ^ 32 \<Longrightarrow> write_file_len (of_nat (strlen t)) \<le> length t"
  using length_cstr_less [of t] by (simp add: write_file_len_def strlen_eq unat_of_nat_u32)

lemma keeps_cmd_write:
  assumes "args_ok argv"
  shows "keeps (cmd_write_file argv)"
proof (rule keepsI)
  fix n s assume s: "sh_inv n s"
  show "yields (sh_inv n) (cmd_write_file argv s)"
  proof (cases "length argv < 3")
    case True
    then show ?thesis by (simp add: cmd_write_file_def keepsD [OF keeps_text s])
  next
    case False
    with joined_line [OF assms, of 2 1024] obtain b t where
      t: "join_args (replicate 1024 0) (drop 2 argv) = Some b" "strcat b [10] = Some t" "length t = 1024" "0 \<in> set t"
      by auto
    have "write_file_len (of_nat (strlen t)) \<le> length t" using t(3,4) by (intro write_len_nul) simp_all
    from fs_write_result [OF sh_inv_parts(1) [OF s] this, of "argv ! 1"] obtain f r where
      w: "fs_write_file (argv ! 1) t (of_nat (strlen t)) (the_fs s) = Some (f, r)" "fs_inv f"
        "- 2147483648 < ret_int r" "ret_int r < 2147483648"
      by blast
    with False t s show ?thesis
      unfolding cmd_write_file_def
      by (auto simp: fits_eval signed_word_ok 
          intro!: yields_report sh_inv_set_fs keeps_say)
  qed
qed

section \<open>The editor and the notes\<close>

definition text_ok :: "u8 list \<times> nat \<Rightarrow> bool" where
  "text_ok bn \<longleftrightarrow> length (fst bn) = 4096 \<and> snd bn \<le> 4095"

lemma fs_read_text:
  assumes "fs_inv f" "0 < m" "m \<le> 4096"
  shows "\<exists>b r. fs_read_file nm (replicate 4096 0) (of_nat m) f = Some (b, r) \<and> length b = 4096 \<and> 0 \<in> set b
    \<and> ret_int r \<le> int m - 1"
proof -
  have m: "unat (of_nat m :: u32) = m" using assms(3) by simp
  then have "0 < (of_nat m :: u32)" using assms(2) by (simp add: word_less_nat_alt)
  note eq = fs_read_file_eq [OF fs_inv_shape [OF assms(1)] this, of "replicate 4096 0" nm, unfolded m length_replicate, OF assms(3)]
  have "length (data (fs_nodes f ! i)) = 4096" if "find_node nm f = Some i" for i
    using fs_shapeD(6) [OF fs_inv_shape [OF assms(1)]] find_node_SomeD(1) [OF that] by simp
  then show ?thesis
    unfolding eq using assms(2,3) errno_code_bounds
    by (auto simp: Let_def in_set_replicate not_le split: option.split)
qed

lemma editor_key_keeps:
  assumes "loop_inv n text_ok ls"
  shows "yields (\<lambda>(go, ls). loop_inv n text_ok ls) (editor_key file c ls)"
proof -
  obtain b k s where ls: "ls = ((b, k), s)" by (metis prod.exhaust)
  have k: "length b = 4096" "k \<le> 4095" and s: "sh_inv n s" using assms ls by (simp_all add: text_ok_def)
  have "write_file_len (of_nat k) \<le> length (b[k := 0])" using k by (simp add: write_file_len_def)
  from fs_write_result [OF sh_inv_parts(1) [OF s] this, of "file"] obtain f r where
    w: "fs_write_file file (b[k := 0]) (of_nat k) (the_fs s) = Some (f, r)" "fs_inv f" by blast
  have saved: "yields (sh_inv n) (steps [clear, colour VGA_GREEN VGA_BLACK,
      say (ln ''  Saved %s (%d bytes)'') [arg_str file, num k], colour VGA_LIGHT_GREY VGA_BLACK] (set_fs f s))"
    using sh_inv_set_fs [OF s w(2)] k
    by (auto simp del: steps.simps simp: fits_eval intro!: keepsD keeps_steps keeps_clear keeps_colour keeps_say)
  note rules = yields_andthen [OF saved] yields_andthen [OF keepsD [OF keeps_putc s]]
  show ?thesis
    unfolding editor_key_def ls using k s w(1)
    by (cases "c = 0x1B"; cases "c = 8") (auto simp: put_at_def text_ok_def simp del: steps.simps intro!: rules)
qed

lemma editor_open_yields: "sh_inv n s \<Longrightarrow> yields (loop_inv n text_ok) (editor_open file s)"
proof -
  assume s: "sh_inv n s"
  from fs_read_text [OF sh_inv_parts(1) [OF s], of 4095 "file"] obtain b r where
    r: "fs_read_file file (replicate 4096 0) 4095 (the_fs s) = Some (b, r)" "length b = 4096" "ret_int r \<le> 4094"
    by auto
  from fs_create_file_inv [OF sh_inv_parts(1) [OF s]] obtain f q where
    "fs_create_file (ticks s) (Some file) (the_fs s) = Some (f, q)" "fs_inv f" by blast
  with r s show ?thesis
    unfolding editor_open_def by (auto simp: text_ok_def sh_inv_set_fs)
qed

lemma keeps_cmd_edit [keeps_intros]: "keeps (cmd_edit argv)"
proof (rule keepsI)
  fix n s assume s: "sh_inv n s"
  have "yields (sh_inv n) (andthen (steps ([clear, colour VGA_BLACK VGA_LIGHT_CYAN,
      say (bytes ''  EDIT: %s  | ESC=save                                                  '') [arg_str (argv ! 1)],
      colour VGA_LIGHT_GREEN VGA_BLACK, say [10] []]
      @ (if k > 0 then [say (bytes ''%s'') [arg_str b]] else [])) s')
     (\<lambda>s. andthen (while_keys (editor_key (argv ! 1)) ((b, k), s)) (\<lambda>(_, s). Inr s)))"
    if "text_ok (b, k)" "sh_inv n s'" for b k s'
  proof (rule yields_andthen [OF keepsD [OF keeps_steps that(2)]])
    fix s assume "sh_inv n s"
    with that(1) show "yields (sh_inv n) (andthen (while_keys (editor_key (argv ! 1)) ((b, k), s)) (\<lambda>(_, s). Inr s))"
      by (intro yields_andthen [OF while_keys_yields [OF editor_key_keeps]]) auto
  qed (auto simp: fits_eval intro!: keeps_clear keeps_colour keeps_say split: if_splits)
  then show "yields (sh_inv n) (cmd_edit argv s)"
    unfolding cmd_edit_def
    by (auto simp del: steps.simps intro!: keepsD [OF keeps_text s] yields_andthen [OF editor_open_yields [OF s]])
qed

lemma keeps_note_list [keeps_intros]: "keeps note_list"
proof (rule keepsI)
  fix n s assume s: "sh_inv n s"
  from fs_read_text [OF sh_inv_parts(1) [OF s], of 4096 notes_file] obtain b r where
    "fs_read_file notes_file (replicate 4096 0) 4096 (the_fs s) = Some (b, r)" by auto
  then show "yields (sh_inv n) (note_list s)"
    unfolding note_list_def
    by (auto simp del: steps.simps simp: fits_eval intro!: keepsD [OF _ s] keeps_steps keeps_colour keeps_say split: if_splits)
qed

end
