(* ===== verification/TaskSafe.thy ===== *)
theory TaskSafe
  imports FileSafe
begin

text \<open>
  Safety of the commands on processes and of the test suite of the system calls. Starting and ending a
  process writes a message to the log and takes a process id, so these commands use up some of the
  numbers left: \<open>costs m f\<close> says that \<open>f\<close> needs \<open>m\<close> of them.
\<close>

definition costs :: "nat \<Rightarrow> (shell \<Rightarrow> stop + shell) \<Rightarrow> bool" where
  "costs m f \<longleftrightarrow> (\<forall>n s. sh_inv (n + m) s \<longrightarrow> yields (sh_inv n) (f s))"

lemma costsI: "(\<And>n s. sh_inv (n + m) s \<Longrightarrow> yields (sh_inv n) (f s)) \<Longrightarrow> costs m f"
  by (simp add: costs_def)

lemma costsD: "costs m f \<Longrightarrow> sh_inv (n + m) s \<Longrightarrow> yields (sh_inv n) (f s)"
  by (simp add: costs_def)

lemma keeps_costs: "keeps f \<Longrightarrow> costs m f"
  by (rule costsI, rule keepsD) (auto intro: sh_inv_less)

section \<open>The kernel's part of the invariant\<close>

definition kern_ok :: "nat \<Rightarrow> kern \<Rightarrow> bool" where
  "kern_ok n k \<longleftrightarrow> kern_inv k \<and> current_pid (procs k) = 1 \<and> unat (total_pages (pages k)) < 2 ^ 29
     \<and> unat (next_pid (procs k)) + n < 2 ^ 31 \<and> klog_total (log k) + int n < 2 ^ 31
     \<and> (\<forall>p \<in> set (proc_table (procs k)). unat (ticks_used p) < 2 ^ 31)"

lemma kern_ok_of: "sh_inv n s \<Longrightarrow> kern_ok n (s_kern (sh_sys s))"
  by (simp add: sh_inv_def sys_inv_def numbers_ok_def kern_ok_def the_procs_def the_pages_def)

lemma sh_inv_set_kern: "sh_inv m s \<Longrightarrow> kern_ok n k \<Longrightarrow> sh_inv n (set_kern k s)"
  by (simp add: sh_inv_def sys_inv_def numbers_ok_def editor_ok_def kern_ok_def the_procs_def the_pages_def ticks_def
      s_now_def set_kern_def)

lemma pmm_alloc_total: "total_pages (fst (pmm_alloc_page p)) = total_pages p"
  by (auto simp: pmm_alloc_page_def pmm_set_bit_def split: option.split)

lemma pmm_free_total: "total_pages (pmm_free_page a p) = total_pages p"
  by (simp add: pmm_free_page_def pmm_clear_bit_def Let_def)

lemma nth_update_ticks:
  "\<forall>p \<in> set ps. unat (ticks_used p) < b \<Longrightarrow> unat (ticks_used q) < b \<Longrightarrow> \<forall>p \<in> set (ps[i := q]). unat (ticks_used p) < b"
  using set_update_subset_insert [of ps i q] by blast

lemma process_create_kernel_step:
  assumes "kern_ok (Suc n) k"
  shows "\<exists>k' r. process_create_kernel now w nm fn k = Some (k', r) \<and> kern_ok n k' \<and> - 2147483648 < r \<and> r < 2147483648"
proof -
  have k: "kern_inv k" "klog_total (log k) < 2147483647" "unat (next_pid (procs k)) < 2147483647"
    using assms by (simp_all add: kern_ok_def)
  have inv: "procs_ok (procs k)" using k(1) by (simp add: kern_inv_def)
  have "\<exists>k' r. process_create_kernel now w nm fn k = Some (k', r)"
  proof (cases "find_free_slot (procs k)")
    case None
    then show ?thesis by (simp add: process_create_kernel_def)
  next
    case (Some i)
    with process_create_kernel_succeeds [OF k(1,2) Some, of now w nm fn] show ?thesis
      by (cases "snd (pmm_alloc_page (pages k)) = 0") (auto simp: process_create_kernel_def split: prod.split)
  qed
  then obtain k' r where c: "process_create_kernel now w nm fn k = Some (k', r)" by blast
  have "next_pid (procs k) \<noteq> - 1"
  proof
    assume "next_pid (procs k) = - 1"
    also have "(- 1 :: u32) = 4294967295" by simp
    finally show False using k(3) by simp
  qed
  then have inv': "kern_inv k'" by (rule process_create_kernel_inv [OF k(1) c])
  from inv c have "kern_ok n k' \<and> - 2147483648 < r \<and> r < 2147483648"
  proof (cases rule: process_create_kernel_cases)
    case no_slot
    with assms inv' show ?thesis by (simp add: kern_ok_def)
  next
    case (no_page i pg)
    with assms inv' pmm_alloc_total [of "pages k"] show ?thesis by (simp add: kern_ok_def)
  next
    case (created i pg st l sp m nm')
    have u: "unat (next_pid (procs k) + 1) = Suc (unat (next_pid (procs k)))" using k(3) by (intro unat_u32_plus_1) simp
    have l: "klog_total l = klog_total (log k) + 1" by (rule klog_total_step [OF created(5)])
    have si: "sint (next_pid (procs k)) = int (unat (next_pid (procs k)))"
      using k(3) by (simp add: sint_unat_small)
    have "\<forall>p \<in> set (proc_table (procs k)). unat (ticks_used p) < 2147483648" using assms by (simp add: kern_ok_def)
    then have tk: "\<forall>p \<in> set ((proc_table (procs k))[i := spawned now (next_pid (procs k)) nm' fn st sp (proc_table (procs k) ! i)]).
        unat (ticks_used p) < 2147483648"
      by (rule nth_update_ticks) (simp add: spawned_def)
    have pg: "total_pages pg = total_pages (pages k)" using pmm_alloc_total [of "pages k"] created(3) by simp
    have "- 2147483648 < r" "r < 2147483648" unfolding created(10) si using k(3) by linarith+
    moreover have "kern_ok n k'" using assms inv' tk by (simp add: kern_ok_def created(9) u l pg)
    ultimately show ?thesis by blast
  qed
  with c show ?thesis by blast
qed

lemma process_terminate_step:
  assumes "kern_ok (Suc n) k"
  shows "\<exists>k' r. process_terminate now p k = Some (k', r) \<and> kern_ok n k'"
proof -
  have k: "kern_inv k" "klog_total (log k) < 2147483647" using assms by (simp_all add: kern_ok_def)
  from process_terminate_total [OF k] obtain k' r where
    t: "process_terminate now p k = Some (k', r)" "kern_inv k'" by blast
  show ?thesis
  proof (cases "find_slot_by_pid p (procs k) = None \<or> p \<le> 1")
    case True
    with assms t show ?thesis by (auto simp: process_terminate_def kern_ok_def split: option.splits)
  next
    case False
    then obtain i where i: "find_slot_by_pid p (procs k) = Some i" "\<not> p \<le> 1" by auto
    have "i < length (proc_table (procs k))"
      using find_slotD [OF i(1)] procs_ok_length k(1) by (simp add: kern_inv_def)
    then have tk: "unat (ticks_used (proc_table (procs k) ! i)) < 2 ^ 31" and ts: "\<forall>p \<in> set (proc_table (procs k)). unat (ticks_used p) < 2 ^ 31"
      using assms by (simp_all add: kern_ok_def)
    define q where "q = (let q = (proc_table (procs k) ! i)\<lparr>pstate := PROC_TERMINATED, p_in_use := False\<rparr> in
      if kstack q \<noteq> 0 then q\<lparr>kstack := 0\<rparr> else q)"
    from t(1) i obtain l where l: "klog now KLOG_INFO (bytes ''process terminated'') (log k) = Some l"
      by (auto simp: process_terminate_def Let_def bind_eq_Some_conv simp del: bytes_simps(1,2))
    with t(1) i have q: "ticks_used q = ticks_used (proc_table (procs k) ! i)"
        "k' = k\<lparr>procs := set_proc i q (procs k), log := l\<rparr> \<or> (\<exists>st. k' = k\<lparr>procs := set_proc i q (procs k), pages := pmm_free_page st (pages k), log := l\<rparr>)"
      by (auto simp: process_terminate_def Let_def bind_eq_Some_conv q_def simp del: bytes_simps(1,2) split: if_splits)
    have "\<forall>p \<in> set ((proc_table (procs k))[i := q]). unat (ticks_used p) < 2 ^ 31"
      using ts tk q(1) by (intro nth_update_ticks) simp_all
    with assms t q(2) klog_total_step [OF l] show ?thesis
      by (auto simp: kern_ok_def pmm_free_total)
  qed
qed

section \<open>Processes\<close>

lemma pid_small:
  assumes "sh_inv n s" "p \<in> set (proc_table (the_procs s))" "p_in_use p"
  shows "unat (pid p) < 2147483648"
proof -
  have ok: "procs_ok (the_procs s)" using sh_inv_parts(3) [OF assms(1)] .
  from assms(2) procs_ok_length [OF ok] obtain i where i: "i < 16" "p = proc_table (the_procs s) ! i"
    by (auto simp: in_set_conv_nth)
  have nx: "unat (next_pid (the_procs s)) < 2147483648" using sh_inv_parts(7) [OF assms(1)] by (simp add: numbers_ok_def)
  show ?thesis
  proof (cases "1 < i")
    case True
    have "idents (the_procs s) ! i = (pid p, True)"
      using i assms(3) procs_ok_length [OF ok] by (simp add: idents_def ident_def)
    with ok i True have "pid p < next_pid (the_procs s)"
      unfolding procs_ok_def ids_ok_def by (metis fst_conv snd_conv)
    with nx show ?thesis by (simp add: word_less_nat_alt)
  next
    case False
    then have "i = 0 \<or> i = 1" by auto
    with procs_ok_slots [OF ok] i show ?thesis by auto
  qed
qed

lemma keeps_ps_row:
  assumes "sh_inv n s" "p \<in> set (proc_table (the_procs s))"
  shows "keeps (ps_row p)"
proof (cases "p_in_use p")
  case True
  with small_ok [OF pid_small [OF assms True]] show ?thesis
    unfolding ps_row_def by (auto simp: fits_eval simp del: steps.simps intro!: keeps_steps keeps_colour keeps_say)
qed (simp add: ps_row_def keeps_skip)

lemma keeps_cmd_ps [keeps_intros]: "keeps cmd_ps"
  unfolding cmd_ps_def
proof (rule keeps_with_state, goal_cases)
  case (1 n s)
  have "length (proc_table (the_procs s)) = 16" using sh_inv_parts(3) [OF 1] by (rule procs_ok_length)
  then show ?case
    by (auto intro!: keeps_intros keeps_ps_row [OF 1])
qed

lemma spawn_task_step:
  assumes "sh_inv (Suc n) s"
  shows "\<exists>r s'. spawn_task tasks nm fn s = Inr (r, s') \<and> sh_inv n s' \<and> - 2147483648 < r \<and> r < 2147483648"
proof -
  from process_create_kernel_step [OF kern_ok_of [OF assms], of "ticks s" "t_wrapper tasks" nm fn] obtain k r where
    "process_create_kernel (ticks s) (t_wrapper tasks) nm fn (s_kern (sh_sys s)) = Some (k, r)"
    "kern_ok n k" "- 2147483648 < r" "r < 2147483648" by blast
  with sh_inv_set_kern [OF assms] show ?thesis by (simp add: spawn_task_def)
qed

text \<open>What a spawned process leaves, and its id for \<^verbatim>\<open>%d\<close>.\<close>

definition id_ok :: "int option \<Rightarrow> bool" where
  "id_ok r \<longleftrightarrow> (case r of None \<Rightarrow> True | Some v \<Rightarrow> - 2147483648 < v \<and> v < 2147483648)"

lemma spawn_task_yields:
  "sh_inv (Suc n) s \<Longrightarrow> yields (\<lambda>(r, s). sh_inv n s \<and> id_ok r) (andthen (spawn_task tasks nm fn s) (\<lambda>(r, s). Inr (Some r, s)))"
  using spawn_task_step [of n s tasks nm fn] by (auto simp: id_ok_def)

lemma spawn_named_yields:
  assumes "sh_inv (n + 3) s"
  shows "yields (\<lambda>(r, s). sh_inv n s \<and> id_ok r) (spawn_named tasks nm s)"
proof -
  have s: "sh_inv (Suc n) s" "sh_inv n s" "sh_inv (Suc (n + 2)) s" using assms by (auto intro: sh_inv_less)
  have "yields (\<lambda>(r, s). sh_inv n s \<and> id_ok r)
    (andthen (andthen (spawn_task tasks a f s) (\<lambda>(r, s). Inr (Some r, s))) (\<lambda>(_, s).
     andthen (andthen (spawn_task tasks b g s) (\<lambda>(r, s). Inr (Some r, s))) (\<lambda>(_, s).
       andthen (spawn_task tasks c h s) (\<lambda>(r, s). Inr (Some r, s)))))" for a b c f g h
    by (rule yields_andthen [OF spawn_task_yields [OF s(3)]], clarsimp,
        rule yields_andthen [OF spawn_task_yields], simp, clarsimp, rule spawn_task_yields, simp)
  then show ?thesis
    unfolding spawn_named_def Let_def using s spawn_task_yields [OF s(1)]
    by (simp add: id_ok_def del: bytes_simps(1,2))
qed

lemma yields_spawned:
  "sh_inv n s \<Longrightarrow> id_ok r \<Longrightarrow> keeps f \<Longrightarrow> (\<And>v. id_ok (Some v) \<Longrightarrow> keeps (g v))
    \<Longrightarrow> yields (sh_inv n) (case r of None \<Rightarrow> f s | Some v \<Rightarrow> g v s)"
  by (cases r) (auto intro: keepsD)

lemma costs_cmd_spawn: "costs 3 (cmd_spawn tasks argv)"
proof (rule costsI)
  fix n s assume s: "sh_inv (n + 3) s"
  then have s': "sh_inv n s" by (rule sh_inv_less) simp
  have no: "keeps (steps [colour VGA_LIGHT_RED VGA_BLACK, say (ln ''  Unknown task: %s'') [arg_str (argv ! 1)],
      colour VGA_LIGHT_GREY VGA_BLACK])"
    by (auto simp: fits_eval simp del: steps.simps intro!: keeps_steps keeps_colour keeps_say)
  have yes: "keeps (report (v \<ge> 0)
      (say (bytes ''  Spawned PID %d. Use '' @ 39 # bytes ''kill <pid>'' @ 39 # bytes '' to stop. Run '' @ 39 # bytes ''ps'' @ 39 # ln '' to see state.'')
        [Word (word_of_int v)]) (say (ln ''  Failed to spawn'') []))" if "id_ok (Some v)" for v
    using that by (intro keeps_report keeps_say) (auto simp: fits_eval signed_word_ok id_ok_def)
  show "yields (sh_inv n) (cmd_spawn tasks argv s)"
    unfolding cmd_spawn_def
  proof (rule if_split [THEN iffD2], intro conjI impI)
    show "yields (sh_inv n) (steps [say (ln ''  Usage: spawn <name>'') [],
        say (ln ''  Available: counter, spinner, ticker, all'') []] s)"
      by (rule keepsD [OF _ s'], rule keeps_steps) (auto intro!: keeps_text)
  qed (rule yields_andthen [OF spawn_named_yields [OF s]], (simp only: split_paired_all prod.case),
    elim conjE, rule yields_spawned, assumption+, rule no, rule yes)
qed

lemma atoi_digits_range: "atoi_digits r s = Some v \<Longrightarrow> 0 \<le> r \<Longrightarrow> r < 2147483648 \<Longrightarrow> 0 \<le> v \<and> v < 2147483648"
  by (induction r s rule: atoi_digits.induct) (auto simp: bind_eq_Some_conv cint_def split: if_splits)

lemma atoi_range: "atoi a = Some v \<Longrightarrow> - 2147483648 < v \<and> v < 2147483648"
  by (auto simp: atoi_def Let_def bind_eq_Some_conv cint_def split: if_splits dest!: atoi_digits_range)

definition numeric :: "u8 list list \<Rightarrow> bool" where
  "numeric argv \<longleftrightarrow> (\<forall>a \<in> set argv. atoi a \<noteq> None)"

lemma numeric_nth: "numeric argv \<Longrightarrow> i < length argv \<Longrightarrow> \<exists>v. atoi (argv ! i) = Some v \<and> - 2147483648 < v \<and> v < 2147483648"
  using nth_mem [of i argv] atoi_range [of "argv ! i"] unfolding numeric_def by fast

lemma costs_cmd_kill:
  assumes "numeric argv"
  shows "costs 1 (cmd_kill argv)"
proof (rule costsI)
  fix n s assume s: "sh_inv (n + 1) s"
  then have s': "sh_inv n s" by (rule sh_inv_less) simp
  show "yields (sh_inv n) (cmd_kill argv s)"
  proof (cases "length argv < 2")
    case True
    then show ?thesis by (simp add: cmd_kill_def keepsD [OF keeps_text s'])
  next
    case False
    with numeric_nth [OF assms, of 1] obtain v where v: "atoi (argv ! 1) = Some v" "- 2147483648 < v" "v < 2147483648"
      by auto
    have "kern_ok (Suc n) (s_kern (sh_sys s))" using kern_ok_of [OF s] by simp
    from process_terminate_step [OF this] obtain k r where
      t: "process_terminate (ticks s) (word_of_int v) (s_kern (sh_sys s)) = Some (k, r)" "kern_ok n k" by blast
    have f: "fits (ln f) [Word (word_of_int v)]" if "f \<in> {''  Killed PID %d'', ''  No such process: PID %d'', ''  Cannot kill PID %d (protected)''}" for f
      using that signed_word_ok [OF v(2,3)] by (auto simp: fits_eval)
    have r: "yields (sh_inv n) (report (r = 0) (say (ln ''  Killed PID %d'') [Word (word_of_int v)])
        (say (ln ''  No such process: PID %d'') [Word (word_of_int v)]) (set_kern k s))"
      using sh_inv_set_kern [OF s t(2)] by (intro yields_report keeps_say f) simp_all
    have c: "keeps (steps [colour VGA_LIGHT_RED VGA_BLACK, say (ln ''  Cannot kill PID %d (protected)'') [Word (word_of_int v)],
        colour VGA_LIGHT_GREY VGA_BLACK])"
      by (rule keeps_steps) (auto intro!: keeps_colour keeps_say f)
    from False v(1) t(1) r keepsD [OF c s'] show ?thesis
      by (simp add: cmd_kill_def Let_def del: steps.simps)
  qed
qed

lemma stacks_alloc:
  assumes "stacks_ok p cs" "pmm_alloc_page p = (p', a)"
  shows "stacks_ok p' cs"
proof (cases "a = 0")
  case True
  with assms pmm_source.cells_alloc_none show ?thesis by (auto simp: stacks_ok_cells)
next
  case False
  with assms pmm_source.alloc_new have "pmm_owned p' = insert a (pmm_owned p)" "pmm_inv p'"
    by (auto simp: stacks_ok_def)
  with assms(1) show ?thesis by (simp add: stacks_ok_def)
qed

lemma keeps_cmd_alloc [keeps_intros]: "keeps cmd_alloc"
proof (rule keepsI)
  fix n s assume s: "sh_inv n s"
  obtain p a where a: "pmm_alloc_page (the_pages s) = (p, a)" by fastforce
  have k: "kern_ok n (s_kern (sh_sys s))" by (rule kern_ok_of [OF s])
  then have "kern_inv ((s_kern (sh_sys s))\<lparr>pages := p\<rparr>)"
    using stacks_alloc a by (auto simp: kern_ok_def kern_inv_def the_pages_def)
  then have "kern_ok n ((s_kern (sh_sys s))\<lparr>pages := p\<rparr>)"
    using k pmm_alloc_total [of "the_pages s"] a by (simp add: kern_ok_def the_pages_def)
  then have "sh_inv n (set_kern ((s_kern (sh_sys s))\<lparr>pages := p\<rparr>) s)" by (rule sh_inv_set_kern [OF s])
  then show "yields (sh_inv n) (cmd_alloc s)"
    unfolding cmd_alloc_def a by (auto simp: fits_eval intro!: keepsD [OF keeps_say])
qed

section \<open>The process viewer\<close>

lemma keeps_pad_str [keeps_intros]: "keeps (pad_str str width)"
  unfolding pad_str_def by (rule keeps_steps) (auto intro!: keeps_puts keeps_loop keeps_putc)

lemma keeps_pad_int [keeps_intros]:
  assumes "0 \<le> v"
  shows "keeps (pad_int v width)"
proof (rule keepsI)
  fix n s assume "sh_inv n s"
  with assms show "yields (sh_inv n) (pad_int v width s)"
    unfolding pad_int_def int_text_def
    by (auto simp del: steps.simps intro!: keepsD [OF keeps_steps] keeps_puts keeps_loop keeps_putc)
qed

lemma keeps_top_row:
  assumes "sh_inv n s" "p \<in> set (proc_table (the_procs s))"
  shows "keeps (top_row prev p)"
proof (cases "p_in_use p")
  case True
  obtain st c where st: "top_state (pstate p) = (st, c)" by fastforce
  have pid: "0 \<le> sint (pid p)"
    using pid_small [OF assms True] by (simp add: sint_unat_small del: int_nat_eq)
  have tk: "ticks_used p \<noteq> 0x80000000"
    using sh_inv_parts(7) [OF assms(1)] assms(2) by (intro small_ok) (simp add: numbers_ok_def)
  have "unat (cpu_percent (ticks_used p) prev) < 2147483648"
    by (auto simp: cpu_percent_def Let_def word_less_nat_alt not_less)
  then have "0 \<le> sint (cpu_percent (ticks_used p) prev)" by (simp add: sint_unat_small del: int_nat_eq)
  with True pid tk show ?thesis
    unfolding top_row_def Let_def st
    by (auto simp del: steps.simps simp: fits_eval intro!: keeps_steps keeps_colour keeps_pad_str keeps_pad_int keeps_say)
qed (simp add: top_row_def keeps_skip)

lemma word_of_uptime: "(word_of_int (sys_uptime (sh_sys s)) :: u32) = ticks s"
  by (simp add: sys_uptime_def ticks_def)

lemma keeps_top_screen: "keeps (top_screen prev)"
  unfolding top_screen_def Let_def word_of_uptime
proof (rule keeps_with_state, goal_cases)
  case (1 n s)
  have "length (proc_table (the_procs s)) = 16" using sh_inv_parts(3) [OF 1] by (rule procs_ok_length)
  then show ?case using shell_counts_ok [OF 1] seconds_ok [OF shell_numbers(7) [OF 1]]
    by (auto intro!: keeps_steps keeps_loop keeps_clear keeps_colour keeps_say keeps_top_row [OF 1] simp: fits_eval)
qed

lemma keeps_shell_sleep: "keeps (shell_sleep k)"
  unfolding keeps_def shell_sleep_def by (auto intro: keepsD [OF keeps_busy_wait])

lemma top_loop_yields: "sh_inv n s \<Longrightarrow> yields (sh_inv n) (top_loop k prev s)"
proof (induction k arbitrary: prev s)
  case (Suc k)
  define sc where "sc = (if pending_keys s \<noteq> [] then take_key s else (s, 0))"
  obtain s' c where sc': "sc = (s', c)" by fastforce
  have s': "sh_inv n s'"
    using sh_inv_take_key [OF Suc.prems] Suc.prems sc' by (auto simp: sc_def split: if_splits)
  have bye: "keeps (steps [clear, colour VGA_LIGHT_GREY VGA_BLACK, say (10 # ln ''  exited top.'') []])"
    by (rule keeps_steps) (auto intro!: keeps_clear keeps_colour keeps_text)
  show ?case
    unfolding top_loop.simps sc_def [symmetric] sc'
    using keepsD [OF bye s'] Suc.IH
    by (auto simp del: steps.simps intro!: yields_andthen [OF keepsD [OF keeps_top_screen s']]
        yields_andthen [OF keepsD [OF keeps_shell_sleep]])
qed simp

lemma keeps_cmd_top [keeps_intros]: "keeps cmd_top"
  by (simp add: keeps_def cmd_top_def top_loop_yields del: top_loop.simps)

end
