(* ===== verification/SelfTestSafe.thy ===== *)
theory SelfTestSafe
  imports TaskSafe
begin

text \<open>
  Safety of the \<open>syscall\<close> command: each of its nineteen checks leaves the buffer at its length and
  keeps the invariant.
\<close>

section \<open>Calls that only touch the files or the screen\<close>

definition same_kern :: "sys \<Rightarrow> sys \<Rightarrow> bool" where
  "same_kern y y' \<longleftrightarrow> s_kern y' = s_kern y \<and> s_timer y' = s_timer y"

lemma sh_inv_with_sys:
  "sh_inv n s \<Longrightarrow> sys_inv y \<Longrightarrow> same_kern (sh_sys s) y \<Longrightarrow> sh_inv n (with_sys y s)"
  by (simp add: sh_inv_def same_kern_def numbers_ok_def editor_ok_def the_procs_def the_pages_def ticks_def s_now_def with_sys_def)

lemma or_fault_Inr: "or_fault r = Inr x \<longleftrightarrow> r = Some x"
  by (simp add: or_fault_def split: option.split)

lemma andthen_InrD: "andthen r f = Inr y \<Longrightarrow> \<exists>x. r = Inr x \<and> f x = Inr y"
  by (cases r) auto

lemma sys_calls_same:
  "sys_open p fl y = Inr (y', r) \<Longrightarrow> same_kern y y'"
  "sys_mkdir p y = Inr (y', r) \<Longrightarrow> same_kern y y'"
  "sys_lseek fd off w y = Inr (y', r) \<Longrightarrow> same_kern y y'"
  "sys_read fd b c y = Inr (y', b', r) \<Longrightarrow> same_kern y y'"
  "sys_write fd b c y = Inr (y', r) \<Longrightarrow> same_kern y y'"
  by (auto simp: sys_open_def sys_mkdir_def sys_lseek_def sys_read_def sys_write_def same_kern_def
      split: if_splits option.splits dest!: andthen_InrD)

lemma sys_pairs_same:
  "same_kern y (fst (sys_close fd y))" "same_kern y (fst (sys_unlink p y))" "same_kern y (fst (sys_rmdir p y))"
  by (auto simp: sys_close_def sys_unlink_def sys_rmdir_def same_kern_def split: option.split prod.split)

section \<open>The checks\<close>

text \<open>The buffer of the checks keeps its 64 bytes.\<close>

definition test_ok :: "nat \<Rightarrow> test_vars \<times> shell \<Rightarrow> bool" where
  "test_ok n vs \<longleftrightarrow> length (snd (fst vs)) = 64 \<and> sh_inv n (snd vs)"

definition check_ok :: "(test_vars \<times> shell \<Rightarrow> stop + bool \<times> test_vars \<times> shell) \<Rightarrow> bool" where
  "check_ok f \<longleftrightarrow> (\<forall>n vs. test_ok n vs \<longrightarrow> yields (\<lambda>(ok, vs). test_ok n vs) (f vs))"

lemma check_okD: "check_ok f \<Longrightarrow> test_ok n vs \<Longrightarrow> yields (\<lambda>(ok, vs). test_ok n vs) (f vs)"
  unfolding check_ok_def by blast

lemma check_call_ok:
  assumes "\<And>y. sys_inv y \<Longrightarrow> safe fst (call y)" "\<And>y y' r. call y = Inr (y', r) \<Longrightarrow> same_kern y y'"
  shows "check_ok (check_call call cond)"
proof -
  have "yields (\<lambda>(ok, vs). test_ok n vs) (check_call call cond (v, s))" if t: "test_ok n (v, s)" for n v s
  proof -
    have s: "sh_inv n s" and y: "sys_inv (sh_sys s)" using t by (simp_all add: test_ok_def sh_inv_def)
    have "yields (\<lambda>(y, r). sys_inv y \<and> same_kern (sh_sys s) y) (call (sh_sys s))"
      using assms(1) [OF y] assms(2) [of "sh_sys s"] by (auto simp: yields_def safe_def split: sum.splits)
    then show ?thesis
      using t sh_inv_with_sys [OF s] unfolding check_call_def
      by (auto intro!: yields_andthen simp: test_ok_def)
  qed
  then show ?thesis by (auto simp: check_ok_def)
qed

lemma check_value_ok: "check_ok (check_value f cond)"
  by (auto simp: check_ok_def check_value_def test_ok_def)

lemma pair_call_safe: "(\<And>y. sys_inv y \<Longrightarrow> sys_inv (fst (call y))) \<Longrightarrow> sys_inv y \<Longrightarrow> safe fst ((Inr \<circ> call) y)"
  by simp

lemma io_checks_ok: "(l, f) \<in> set io_checks \<Longrightarrow> check_ok f"
  unfolding io_checks_def
  by (auto intro!: check_call_ok check_value_ok sys_write_safe sys_calls_same(5) simp: ln_def)

lemma with_fd_ok: "(\<And>fd. check_ok (f fd)) \<Longrightarrow> check_ok (with_fd f)"
  by (simp add: check_ok_def with_fd_def)

lemma test_okD: "test_ok n ((fd, b), s) \<Longrightarrow> length b = 64 \<and> sh_inv n s \<and> sys_inv (sh_sys s)"
  by (simp add: test_ok_def sh_inv_def)

lemma open_check_ok: "check_ok open_check"
proof -
  have "yields (\<lambda>(ok, vs). test_ok n vs) (open_check ((fd, b), s))" if "test_ok n ((fd, b), s)" for n fd b s
    using test_okD [OF that] sys_file_calls_safe(1) [of "sh_sys s" "Some test_file" "O_CREAT OR O_RDWR"]
      sys_calls_same(1) [of "Some test_file" "O_CREAT OR O_RDWR" "sh_sys s"] sh_inv_with_sys
    unfolding open_check_def
    by (cases "sys_open (Some test_file) (O_CREAT OR O_RDWR) (sh_sys s)") (auto simp: safe_def test_ok_def yields_def)
  then show ?thesis by (auto simp: check_ok_def)
qed

lemma memcpy_length: "memcpy d i s j n = Some b \<Longrightarrow> length b = length d"
  by (induction d i s j n rule: memcpy.induct) (auto simp: bind_eq_Some_conv dest: put_at_SomeD)

lemma sys_read_length:
  assumes "sys_read fd (Some b) c y = Inr (y', b', r)" "unat c \<le> length b"
  shows "\<exists>d. b' = Some d \<and> length d = length b"
proof -
  have "\<exists>d. b' = Some d \<and> length d = length b" if "fs_read_fd fd (Some b) c f = Some (f', b', r)" for fd f f' b' r
    using that by (auto simp: fs_read_fd_def Let_def bind_eq_Some_conv dest: memcpy_length split: if_splits)
  with assms read_keys_cases [of 0 "unat c" b "keys (s_term y)"] show ?thesis
    by (auto simp: sys_read_def or_fault_Inr split: if_splits dest!: andthen_InrD)
qed

lemma read_check_ok: "check_ok read_check"
proof -
  have "yields (\<lambda>(ok, vs). test_ok n vs) (read_check ((fd, b), s))" if t: "test_ok n ((fd, b), s)" for n fd b s
  proof (cases "sys_read fd (Some b) 3 (sh_sys s)")
    case (Inl e)
    with test_okD [OF t] sys_read_safe [of "sh_sys s" "Some b" 3 fd] show ?thesis
      by (simp add: read_check_def safe_def yields_def)
  next
    case (Inr x)
    obtain y d r where x: "x = (y, d, r)" by (metis prod.exhaust)
    with Inr test_okD [OF t] sys_read_length [of fd b 3 "sh_sys s" y d r] obtain d' where
      d: "d = Some d'" "length d' = 64" by auto
    with Inr x test_okD [OF t] sys_read_safe [of "sh_sys s" "Some b" 3 fd] sys_calls_same(4) [of fd "Some b" 3 "sh_sys s" y d r]
    have "sh_inv n (with_sys y s)" by (intro sh_inv_with_sys) (simp_all add: safe_def)
    with Inr x d show ?thesis
      by (simp add: read_check_def put_at_def test_ok_def)
  qed
  then show ?thesis by (auto simp: check_ok_def)
qed

lemma stat_check_ok: "check_ok stat_check"
  by (auto simp: check_ok_def stat_check_def test_ok_def split: prod.split)

lemma getcwd_check_ok: "check_ok getcwd_check"
proof -
  have "yields (\<lambda>(ok, vs). test_ok n vs) (getcwd_check ((fd, b), s))" if t: "test_ok n ((fd, b), s)" for n fd b s
  proof -
    have s: "length b = 64" "sh_inv n s" "fs_inv (s_fs (sh_sys s))"
      using test_okD [OF t] by (simp_all add: sys_inv_def)
    from fs_getcwd_eq [OF s(3), of 64 b] s(1) name_has_nul obtain d r where
      d: "sys_getcwd (Some b) 64 (sh_sys s) = Inr (Some d, r)" "length d = 64"
      by (cases "64 < length (cstr (name (fs_nodes (s_fs (sh_sys s)) ! current_dir (s_fs (sh_sys s))))) + 1") (auto simp: sys_getcwd_def)
    have "keeps (say (bytes '' %s '') [Str (Some d)])" by (rule keeps_say) (simp add: fits_eval)
    then show ?thesis
      unfolding getcwd_check_def using s d(2)
      by (auto simp: d(1) test_ok_def simp del: bytes_simps(1,2) intro!: yields_andthen [OF keepsD [OF _ s(2)]])
  qed
  then show ?thesis by (auto simp: check_ok_def)
qed

lemma sh_inv_next_halt: "sh_inv n s \<Longrightarrow> halts s = (t, ks) # hs \<Longrightarrow> sh_inv n (after_halt t ks hs s)"
  by (metis halts_ok_of sh_inv_after_halt)

lemma yield_check_ok: "check_ok yield_check"
  by (auto simp: check_ok_def yield_check_def test_ok_def sh_inv_next_halt split: list.split)

lemma sys_pair_calls_same:
  "(Inr \<circ> sys_close fd) y = Inr (y', r) \<Longrightarrow> same_kern y y'"
  "(Inr \<circ> sys_unlink p) y = Inr (y', r) \<Longrightarrow> same_kern y y'"
  "(Inr \<circ> sys_rmdir p) y = Inr (y', r) \<Longrightarrow> same_kern y y'"
  using sys_pairs_same(1) [of y fd] sys_pairs_same(2,3) [of y p] by simp_all

lemma call_checks_ok:
  "check_ok (check_call (sys_mkdir p) c)" "check_ok (check_call (sys_lseek fd 0 w) c)"
  "unat k \<le> length b \<Longrightarrow> check_ok (check_call (sys_write fd (Some b) k) c)"
  "check_ok (check_call (Inr \<circ> sys_close fd) c)" "check_ok (check_call (Inr \<circ> sys_unlink p) c)"
  "check_ok (check_call (Inr \<circ> sys_rmdir p) c)"
  by (rule check_call_ok; (erule sys_calls_same sys_pair_calls_same)?;
      simp add: sys_file_calls_safe sys_lseek_safe sys_write_safe)+

lemma fs_checks_ok: "(l, f) \<in> set fs_checks \<Longrightarrow> check_ok f"
  unfolding fs_checks_def
  by (auto intro!: with_fd_ok call_checks_ok open_check_ok read_check_ok stat_check_ok getcwd_check_ok)

lemma sys_kill_0_same: "sys_kill 0 y = Inr (y', r) \<Longrightarrow> same_kern y y'" "sys_inv y \<Longrightarrow> safe fst (sys_kill 0 y)"
  by (auto simp: sys_kill_def same_kern_def)

lemma process_checks_ok: "(l, f) \<in> set process_checks \<Longrightarrow> check_ok f"
  unfolding process_checks_def by (auto intro!: yield_check_ok check_value_ok check_call_ok sys_kill_0_same)

section \<open>The whole test\<close>

lemma keeps_pass_fail: "keeps (pass_fail ok)"
  unfolding pass_fail_def by (rule keeps_steps) (auto intro!: keeps_colour keeps_text split: if_splits)

lemma test_ok_state: "test_ok n (v, s) \<Longrightarrow> sh_inv n s' \<Longrightarrow> test_ok n (v, s')"
  by (simp add: test_ok_def)

lemma run_checks_yields:
  assumes "\<forall>(l, f) \<in> set cs. check_ok f \<and> 37 \<notin> set l" "test_ok n (v, s)"
  shows "yields (\<lambda>(oks, vs). test_ok n vs) (run_checks cs (v, s))"
  using assms
proof (induction cs arbitrary: v s)
  case (Cons c cs)
  obtain l f where c: "c = (l, f)" by fastforce
  have f: "check_ok f" and l: "37 \<notin> set l" and cs: "\<forall>(l, f) \<in> set cs. check_ok f \<and> 37 \<notin> set l"
    using Cons.prems(1) c by auto
  have last: "yields (\<lambda>(oks, vs). test_ok n vs) (andthen (run_checks cs (v, s)) (\<lambda>(oks, vs). Inr (ok # oks, vs)))"
    if "test_ok n (v, s)" for ok v s
    by (rule yields_andthen [OF Cons.IH [OF cs that]]) auto
  have verdict: "yields (\<lambda>(oks, vs). test_ok n vs)
      (andthen (pass_fail ok s) (\<lambda>s. andthen (run_checks cs (v, s)) (\<lambda>(oks, vs). Inr (ok # oks, vs))))"
    if t: "test_ok n (v, s)" for ok v s
  proof -
    have "sh_inv n s" using t by (simp add: test_ok_def)
    then show ?thesis by (rule yields_andthen [OF keepsD [OF keeps_pass_fail]]) (rule last, rule test_ok_state [OF t])
  qed
  have check: "yields (\<lambda>(oks, vs). test_ok n vs) (andthen (f (v, s)) (\<lambda>(ok, v, s). andthen (pass_fail ok s)
      (\<lambda>s. andthen (run_checks cs (v, s)) (\<lambda>(oks, vs). Inr (ok # oks, vs)))))" if "test_ok n (v, s)" for v s
    by (rule yields_andthen [OF check_okD [OF f that]]) (auto intro: verdict)
  have "sh_inv n s" using Cons.prems(2) by (simp add: test_ok_def)
  then show ?case
    unfolding c run_checks.simps
    by (rule yields_andthen [OF keepsD [OF keeps_text [OF l]]]) (rule check, rule test_ok_state [OF Cons.prems(2)])
qed simp

lemma run_section_yields:
  assumes "\<forall>(l, f) \<in> set cs. check_ok f \<and> 37 \<notin> set l" "37 \<notin> set title" "test_ok n (v, s)"
  shows "yields (\<lambda>(oks, vs). test_ok n vs) (run_section title cs (v, s))"
proof -
  have "keeps (steps [colour VGA_LIGHT_CYAN VGA_BLACK, say title [], colour VGA_LIGHT_GREY VGA_BLACK])"
    using assms(2) by (intro keeps_steps) (auto intro!: keeps_colour keeps_text)
  moreover have "sh_inv n s" using assms(3) by (simp add: test_ok_def)
  ultimately have "yields (sh_inv n) (steps [colour VGA_LIGHT_CYAN VGA_BLACK, say title [], colour VGA_LIGHT_GREY VGA_BLACK] s)"
    by (rule keepsD)
  then show ?thesis
    unfolding run_section_def prod.case
    by (rule yields_andthen) (rule run_checks_yields [OF assms(1)], rule test_ok_state [OF assms(3)])
qed

lemma labels_plain: "(l, f) \<in> set io_checks \<Longrightarrow> 37 \<notin> set l" "(l, f) \<in> set fs_checks \<Longrightarrow> 37 \<notin> set l"
  "(l, f) \<in> set process_checks \<Longrightarrow> 37 \<notin> set l"
  by (auto simp: io_checks_def fs_checks_def process_checks_def)

lemma syscall_demo_yields: "sh_inv n s \<Longrightarrow> yields (\<lambda>(oks, s). sh_inv n s) (syscall_demo s)"
proof -
  assume s: "sh_inv n s"
  have first: "keeps (steps [colour VGA_WHITE VGA_BLACK, say (10 # ln ''  Syscall Test Suite (19 calls via int 0x80)'') [],
       say (ln ''  ------------------------------------------'') []])"
    and last: "keeps (steps [colour VGA_WHITE VGA_BLACK, say (10 # ln ''  19 syscalls exercised.'' @ [10]) [],
       colour VGA_LIGHT_GREY VGA_BLACK])"
    by (rule keeps_steps; auto intro!: keeps_colour keeps_text)+
  have t: "test_ok n ((0, replicate 64 0), s)" if "sh_inv n s" for s using that by (simp add: test_ok_def)
  have secs: "\<forall>(l, f) \<in> set io_checks. check_ok f \<and> 37 \<notin> set l" "\<forall>(l, f) \<in> set fs_checks. check_ok f \<and> 37 \<notin> set l"
    "\<forall>(l, f) \<in> set process_checks. check_ok f \<and> 37 \<notin> set l"
    using io_checks_ok fs_checks_ok process_checks_ok labels_plain by blast+
  note sec = run_section_yields [OF secs(1), of "ln ''  [I/O]''"] run_section_yields [OF secs(2), of "ln ''  [FILESYSTEM]''"]
    run_section_yields [OF secs(3), of "ln ''  [PROCESS]''"]
  have out: "test_ok n (v, s) \<Longrightarrow> sh_inv n s" for v s by (simp add: test_ok_def)
  show ?thesis
    unfolding syscall_demo_def
    apply (rule yields_andthen [OF keepsD [OF first s]])
    apply (rule yields_andthen [OF sec(1) [OF _ t]], simp, assumption, simp only: split_paired_all prod.case)
    apply (rule yields_andthen [OF sec(2)], simp, assumption, simp only: split_paired_all prod.case)
    apply (rule yields_andthen [OF sec(3)], simp, assumption, simp only: split_paired_all prod.case)
    apply (drule out, rule yields_andthen [OF keepsD [OF last]], assumption, simp)
    done
qed

lemma keeps_cmd_syscall_demo [keeps_intros]: "keeps cmd_syscall_demo"
  unfolding cmd_syscall_demo_def
  by (rule keepsI, rule yields_andthen [OF syscall_demo_yields]) auto

end
