(* ===== verification/AppSafe.thy ===== *)
theory AppSafe
  imports SelfTestSafe
begin

text \<open>
  Safety of the apps that draw on the screen: the reader, the system monitor and the widgets. The
  file browser has its own theory.
\<close>

section \<open>The system monitor and the widgets\<close>

lemma keeps_memory_bar [keeps_intros]: "keeps (memory_bar x y bw total_p used)"
  unfolding memory_bar_def Let_def by (rule keeps_loop) (auto intro!: keeps_vga_put)

lemma keeps_sysmon_rows [keeps_intros]: "keeps (sysmon_rows row ps)"
proof (rule keepsI)
  fix n s assume "sh_inv n s"
  then show "yields (sh_inv n) (sysmon_rows row ps s)"
  proof (induction ps arbitrary: row s)
    case (Cons p ps)
    have "keeps (steps [vga_put 3 row (48 + ucast (pid p mod 10)) cl, vga_puts 8 row (state_name (pstate p)) cl,
      vga_puts 14 row (cstr (pname p)) cl])" for cl
      by (rule keeps_steps) (auto intro!: keeps_vga_put keeps_vga_puts)
    with Cons show ?case
      by (auto simp: Let_def simp del: steps.simps intro!: yields_andthen [OF keepsD])
  qed simp
qed

lemma keeps_sysmon_draw: "keeps (sysmon_draw rtc)"
  unfolding sysmon_draw_def
  by (rule keeps_with_state) (auto intro!: keeps_clear keeps_draw_box keeps_label keeps_vga_puts keeps_memory_bar
      keeps_sysmon_rows keeps_read_rtc)

lemma keeps_widgets_draw: "keeps (widgets_draw rtc)"
  unfolding widgets_draw_def Let_def
  by (rule keeps_with_state) (auto intro!: keeps_clear keeps_draw_box keeps_label keeps_vga_puts keeps_memory_bar
      keeps_read_rtc keeps_loop)

lemma live_loop_yields: "keeps draw \<Longrightarrow> sh_inv n s \<Longrightarrow> yields (sh_inv n) (live_loop k draw period s)"
proof (induction k arbitrary: s)
  case (Suc k)
  have "yields (\<lambda>(go, ls). loop_inv n (\<lambda>_. True) ls) (poll_wait (halts s) (ticks s) period esc_key ((), s))" if "sh_inv n s" for s
    using that by (intro poll_wait_yields) (simp_all add: halts_ok_of)
  then have "yields (sh_inv n) (andthen (poll_wait (halts s) (ticks s) period esc_key ((), s)) (\<lambda>(go, _, s).
       if go then live_loop k draw period s else clear s))" if "sh_inv n s" for s
    using that Suc.IH [OF Suc.prems(1)] by (auto intro!: yields_andthen keepsD [OF keeps_clear])
  with Suc.prems show ?case by (auto intro!: yields_andthen [OF keepsD])
qed simp

lemma keeps_cmd_sysmon [keeps_intros]: "keeps (cmd_sysmon rtc)"
  unfolding cmd_sysmon_def by (rule keepsI, rule live_loop_yields, rule keeps_sysmon_draw)

lemma keeps_cmd_widgets [keeps_intros]: "keeps (cmd_widgets rtc)"
  unfolding cmd_widgets_def by (rule keepsI, rule live_loop_yields, rule keeps_widgets_draw)

section \<open>The reader\<close>

lemma page_draw_yields:
  "len \<le> length ct \<Longrightarrow> sh_inv n s \<Longrightarrow> yields (\<lambda>(nxt, s). sh_inv n s) (page_draw ct len i row col lc s)"
proof (induction ct len i row col lc s rule: page_draw.induct)
  case (1 ct len i row col lc s)
  show ?case
  proof (cases "i < len \<and> lc < 18")
    case True
    then have g: "get_at ct i = Some (ct ! i)" using 1(4) by simp
    have put: "yields (sh_inv n) (vga_put col row (ct ! i) grey s)" using 1(5) by (rule keepsD [OF keeps_vga_put])
    show ?thesis
      using True g 1 by (subst page_draw.simps) (auto intro!: yields_andthen_eq [OF put])
  next
    case False
    then show ?thesis using 1(5) by (subst page_draw.simps) auto
  qed
qed

lemma reader_loop_yields:
  assumes "len \<le> length ct" "length (cstr fn) \<le> 76"
  shows "sh_inv n s \<Longrightarrow> yields (sh_inv n) (reader_loop k fn ct len off page s)"
proof (induction k arbitrary: off page s)
  case (Suc k)
  have box: "keeps (steps [clear, draw_box 2 0 76 24 fn])"
    using assms(2) by (intro keeps_steps) (auto intro!: keeps_clear keeps_draw_box)
  have key: "yields (sh_inv n) (andthen (getchar s) (\<lambda>(s, c). case reader_key c ct len nxt off page of
            None \<Rightarrow> clear s | Some (off, page) \<Rightarrow> reader_loop k fn ct len off page s))" if "sh_inv n s" for s nxt
    using that Suc.IH by (auto intro!: yields_andthen [OF getchar_yields] keepsD [OF keeps_clear] split: option.split)
  have lab: "yields (sh_inv n) (andthen (label 4 24 ''LEFT=prev RIGHT=next ESC=exit'' dark_grey s) (\<lambda>s.
        andthen (getchar s) (\<lambda>(s, c). case reader_key c ct len nxt off page of
            None \<Rightarrow> clear s | Some (off, page) \<Rightarrow> reader_loop k fn ct len off page s)))" if "sh_inv n s" for s nxt
    by (rule yields_andthen [OF keepsD [OF keeps_label that]]) (rule key)
  show ?case
    using Suc.prems
    by (auto simp del: steps.simps intro!: keepsD [OF keeps_clear] yields_andthen [OF keepsD [OF box]]
        yields_andthen [OF page_draw_yields [OF assms(1)]] lab)
qed simp

lemma keeps_cmd_reader [keeps_intros]: "keeps cmd_reader"
proof (rule keepsI)
  fix n s assume s: "sh_inv n s"
  have ask: "keeps (steps [clear, say (10 # bytes ''  File to read: '') []])"
    by (rule keeps_steps) (auto intro!: keeps_clear keeps_text)
  have main: "yields (sh_inv n) (andthen (or_fault (fs_read_file fn (replicate 4096 0) 4096 (the_fs s))) (\<lambda>(ct, r).
       if ret_int r \<le> 0 then say (10 # ln ''  Not found!'') [] s
       else reader_loop (pending s + 2) fn ct (nat (ret_int r)) 0 1 s))" if "field_ok 31 (fn, i)" "sh_inv n s" for fn i s
  proof -
    from fs_read_text [OF sh_inv_parts(1) [OF that(2)], of 4096 fn] obtain ct r where
      r: "fs_read_file fn (replicate 4096 0) 4096 (the_fs s) = Some (ct, r)" "length ct = 4096" "ret_int r \<le> 4095" by auto
    have "length (cstr fn) \<le> 76" using that(1) length_cstr [of fn] by (simp add: field_ok_def)
    with r that(2) show ?thesis
      by (auto intro!: keepsD [OF keeps_text] reader_loop_yields simp del: reader_loop.simps)
  qed
  show "yields (sh_inv n) (cmd_reader s)"
    unfolding cmd_reader_def
    apply (rule yields_andthen [OF keepsD [OF ask s]])
    apply (rule yields_andthen [OF read_field_yields], assumption)
    apply (simp only: split_paired_all prod.case loop_inv_pair, elim conjE, rule main, assumption+)
    done
qed

end
