(* ===== verification/GameSafe.thy ===== *)
theory GameSafe
  imports AppSafe
begin

text \<open>
  The games: the invariants of their states (the snake's arrays, the set of guessed letters, the ball's
  field) and their safety.
\<close>

lemma keeps_say_str [keeps_intros]: "CHR ''%'' \<notin> set t \<Longrightarrow> keeps (say_str t)"
  unfolding say_str_def by (rule keeps_text) simp

lemma keeps_say_line [keeps_intros]: "CHR ''%'' \<notin> set t \<Longrightarrow> keeps (say_line t)"
  unfolding say_line_def by (rule keeps_text) simp

lemma int_arg_ok: "- 2147483648 < v \<Longrightarrow> v < 2147483648 \<Longrightarrow> int_arg v = Word w \<Longrightarrow> w \<noteq> 0x80000000"
  by (auto simp: int_arg_def signed_word_ok)

section \<open>Snake\<close>

text \<open>The arrays have their 200 cells, of which the snake uses at least one, and the score has room for
  \<open>m\<close> more pieces of food.\<close>

definition snake_ok :: "nat \<Rightarrow> snake \<Rightarrow> bool" where
  "snake_ok m k \<longleftrightarrow> length (sx k) = 200 \<and> length (sy k) = 200 \<and> 1 \<le> slen k \<and> slen k \<le> 200
     \<and> 0 \<le> score k \<and> score k + 10 * int m < 2147483648"

lemma snake_key_ok: "snake_ok m k \<Longrightarrow> snake_ok m (snd (snake_key c k))"
  by (auto simp: snake_key_def snake_ok_def)

lemma follow_some: "i < length xs \<Longrightarrow> \<exists>ys. follow i xs = Some ys \<and> length ys = length xs"
proof (induction i arbitrary: xs)
  case (Suc i)
  from Suc.IH [of "xs[Suc i := xs ! i]"] Suc.prems show ?case by simp
qed simp

lemma snake_step_ok:
  assumes "snake_ok (Suc m) k"
  shows "\<exists>over k'. snake_step t k = Some (over, k') \<and> snake_ok m k'"
proof -
  have l: "length (sx k) = 200" "length (sy k) = 200" "1 \<le> slen k" "slen k \<le> 200"
    using assms by (simp_all add: snake_ok_def)
  then have "slen k - 1 < length (sx k)" "slen k - 1 < length (sy k)" by simp_all
  from follow_some [OF this(1)] follow_some [OF this(2)] l(1,2) obtain xs ys where
    f: "follow (slen k - 1) (sx k) = Some xs" "length xs = 200" "follow (slen k - 1) (sy k) = Some ys" "length ys = 200"
    by auto
  show ?thesis
    unfolding snake_step_def using f assms
    by (auto simp: Let_def snake_ok_def)
qed

lemma keeps_snake_cell: "keeps (snake_cell k y x)"
  unfolding snake_cell_def by (rule keeps_steps) (auto intro!: keeps_colour keeps_say_str split: if_splits)

lemma keeps_snake_draw: "snake_ok m k \<Longrightarrow> keeps (snake_draw k)"
  unfolding snake_draw_def
  by (rule keeps_steps) (auto intro!: keeps_clear keeps_colour keeps_say keeps_loop keeps_steps keeps_say_str
      keeps_snake_cell simp: fits_eval int_arg_def snake_ok_def signed_word_ok)

lemma snake_loop_yields:
  "snake_ok m k \<Longrightarrow> sh_inv n s \<Longrightarrow> yields (loop_inv n (snake_ok 0)) (snake_loop m k s)"
proof (induction m arbitrary: k s)
  case (Suc m)
  have less: "snake_ok 0 k'" if "snake_ok i k'" for i k' using that by (auto simp: snake_ok_def)
  have poll: "yields (\<lambda>(go, ls). loop_inv n (snake_ok (Suc m)) ls) (poll_wait (halts s) (ticks s) 10 snake_key (k, s))"
    if "sh_inv n s" for s
    using that Suc.prems(1) by (intro poll_wait_yields) (simp_all add: halts_ok_of snake_key_ok)
  have step: "yields (loop_inv n (snake_ok 0)) (andthen (or_fault (snake_step t k)) (\<lambda>(over, k).
      if over then Inr (k, s) else snake_loop m k s))" if "snake_ok (Suc m) k" "sh_inv n s" for t k s
    using snake_step_ok [OF that(1), of t] that(2) Suc.IH less by auto
  have "yields (loop_inv n (snake_ok 0)) (andthen (poll_wait (halts s) (ticks s) 10 snake_key (k, s)) (\<lambda>(go, k, s).
       if \<not> go then Inr (k, s)
       else andthen (or_fault (snake_step (ticks s) k)) (\<lambda>(over, k).
         if over then Inr (k, s) else snake_loop m k s)))" if "sh_inv n s" for s
    by (rule yields_andthen [OF poll [OF that]]) (auto intro: less step)
  then show ?case
    unfolding snake_loop.simps
    by (rule yields_andthen [OF keepsD [OF keeps_snake_draw [OF Suc.prems(1)] Suc.prems(2)]])
qed simp

lemma keeps_cmd_snake:
  assumes "length junkx = 200" "length junky = 200"
  shows "keeps (cmd_snake junkx junky)"
proof (rule keepsI)
  fix n s assume s: "sh_inv n s"
  have "length (halts s) < 100000000" using halts_ok_of [OF s] by (simp add: halts_ok_def)
  then have "snake_ok (Suc (length (halts s))) (snake_start junkx junky (ticks s))"
    using assms by (simp add: snake_ok_def snake_start_def)
  note loop = snake_loop_yields [OF this s]
  have "keeps (steps [clear, colour VGA_LIGHT_RED VGA_BLACK, say (10 # ln ''  GAME OVER! %d'' @ [10]) [int_arg (score k)],
         colour VGA_LIGHT_GREY VGA_BLACK])" if "snake_ok 0 k" for k
    using that by (intro keeps_steps) (auto intro!: keeps_clear keeps_colour keeps_say simp: fits_eval int_arg_def snake_ok_def signed_word_ok)
  then show "yields (sh_inv n) (cmd_snake junkx junky s)"
    unfolding cmd_snake_def
    by (intro yields_andthen [OF loop]) (auto intro: keepsD simp del: steps.simps)
qed

section \<open>Tic-tac-toe\<close>

lemma keeps_ttt_cell: "keeps (ttt_cell oc b r c)"
  unfolding ttt_cell_def Let_def
  by (rule keeps_steps) (auto intro!: keeps_colour keeps_say keeps_say_str keeps_skip simp: fits_eval)

lemma keeps_ttt_draw: "37 \<notin> set title \<Longrightarrow> keeps (ttt_draw title oc b)"
  unfolding ttt_draw_def
  by (rule keeps_steps) (auto intro!: keeps_colour keeps_text keeps_loop keeps_steps keeps_say_str keeps_say_line keeps_ttt_cell
      keeps_skip split: if_splits)

lemma keeps_ttt_message: "CHR ''%'' \<notin> set xw \<Longrightarrow> CHR ''%'' \<notin> set ow \<Longrightarrow> keeps (ttt_message xw ow r)"
  unfolding ttt_message_def by (rule keeps_text) auto

lemma keeps_echo: "keeps (steps [putc c, putc 10])"
  by (rule keeps_steps) (auto intro!: keeps_putc)

text \<open>A key asked for and echoed.\<close>

lemma asked_key_yields:
  assumes "sh_inv n s" "\<And>c s. sh_inv n s \<Longrightarrow> yields P (f c s)"
  shows "yields P (andthen (getchar s) (\<lambda>(s, c). andthen (steps [putc c, putc 10] s) (f c)))"
  by (rule yields_andthen [OF getchar_yields [OF assms(1)]])
    (auto simp del: steps.simps intro!: yields_andthen [OF keepsD [OF keeps_echo]] assms(2))

lemma ttt_loop_yields: "sh_inv n s \<Longrightarrow> yields (\<lambda>(r, s). sh_inv n s) (ttt_loop k cpu b s)"
proof (induction k arbitrary: cpu b s)
  case (Suc k)
  have draw: "keeps (ttt_draw (10 # ln ''  TTT You=X CPU=O'' @ [10]) VGA_LIGHT_RED b)" by (rule keeps_ttt_draw) simp
  have msg: "keeps (ttt_message ''  You win!'' ''  CPU wins!'' r)" for r by (rule keeps_ttt_message) simp_all
  have ask: "keeps (say_str ''  1-9: '')" by (rule keeps_say_str) simp
  show ?case
    unfolding ttt_loop.simps
  proof (rule yields_andthen [OF keepsD [OF draw Suc.prems]])
    fix s assume s: "sh_inv n s"
    have "yields (\<lambda>(r, s). sh_inv n s) (andthen (getchar s) (\<lambda>(s, c). andthen (steps [putc c, putc 10] s) (\<lambda>s.
        case player_move MARK_X c b of (moved, b) \<Rightarrow> ttt_loop k moved b s)))" if "sh_inv n s" for s
      by (rule asked_key_yields [OF that]) (auto intro: Suc.IH split: prod.split)
    then show "yields (\<lambda>(r, s). sh_inv n s) (case ttt_result b of
         Some r \<Rightarrow> andthen (ttt_message ''  You win!'' ''  CPU wins!'' r s) (\<lambda>s. Inr (r, s))
       | None \<Rightarrow> if cpu then ttt_loop k False (cpu_move b) s
           else andthen (say_str ''  1-9: '' s) (\<lambda>s. andthen (getchar s) (\<lambda>(s, c).
                  andthen (steps [putc c, putc 10] s) (\<lambda>s.
                    case player_move MARK_X c b of (moved, b) \<Rightarrow> ttt_loop k moved b s))))"
      using s by (auto simp del: steps.simps split: option.split intro!: Suc.IH yields_andthen [OF keepsD [OF msg]]
          yields_andthen [OF keepsD [OF ask]])
  qed
qed simp

lemma keeps_cmd_tictactoe [keeps_intros]: "keeps cmd_tictactoe"
  unfolding cmd_tictactoe_def tictactoe_def
  by (rule keepsI, rule yields_andthen [OF ttt_loop_yields]) auto

lemma ttt2_loop_yields: "sh_inv n s \<Longrightarrow> turn \<le> 1 \<Longrightarrow> yields (sh_inv n) (ttt2_loop k turn b s)"
proof (induction k arbitrary: turn b s)
  case (Suc k)
  have draw: "keeps (ttt_draw (10 # ln ''  TTT 2P P1=X P2=O'' @ [10]) VGA_LIGHT_CYAN b)" by (rule keeps_ttt_draw) simp
  have msg: "keeps (ttt_message ''  P1 wins!'' ''  P2 wins!'' r)" for r by (rule keeps_ttt_message) simp_all
  have ask: "keeps (say (bytes ''  P%d 1-9: '') [num (turn + 1)])"
    using Suc.prems(2) by (intro keeps_say) (simp add: fits_eval)
  show ?case
    unfolding ttt2_loop.simps
  proof (rule yields_andthen [OF keepsD [OF draw Suc.prems(1)]])
    fix s assume s: "sh_inv n s"
    have "yields (sh_inv n) (andthen (getchar s) (\<lambda>(s, c). andthen (steps [putc c, putc 10] s) (\<lambda>s.
        case player_move (if turn \<noteq> 0 then MARK_O else MARK_X) c b of (moved, b) \<Rightarrow>
          ttt2_loop k (if moved then 1 - turn else turn) b s)))" if "sh_inv n s" for s
      by (rule asked_key_yields [OF that]) (use Suc.prems(2) in \<open>auto intro: Suc.IH split: prod.split\<close>)
    then show "yields (sh_inv n) (case ttt_result b of
         Some r \<Rightarrow> ttt_message ''  P1 wins!'' ''  P2 wins!'' r s
       | None \<Rightarrow> andthen (say (bytes ''  P%d 1-9: '') [num (turn + 1)] s) (\<lambda>s. andthen (getchar s) (\<lambda>(s, c).
           andthen (steps [putc c, putc 10] s) (\<lambda>s.
             case player_move (if turn \<noteq> 0 then MARK_O else MARK_X) c b of (moved, b) \<Rightarrow>
               ttt2_loop k (if moved then 1 - turn else turn) b s))))"
      by (cases "ttt_result b"; simp only: option.case) (rule yields_andthen [OF keepsD [OF ask s]], assumption, rule keepsD [OF msg s])
  qed
qed simp

lemma keeps_cmd_ttt2 [keeps_intros]: "keeps cmd_ttt2"
  unfolding cmd_ttt2_def by (rule keepsI, rule ttt2_loop_yields) simp_all

section \<open>Hangman\<close>

text \<open>The letters guessed are distinct small letters, so the array of 26 holds them.\<close>

definition letters_ok :: "u8 list \<times> nat \<Rightarrow> bool" where
  "letters_ok st \<longleftrightarrow> (case st of (g, ng) \<Rightarrow> length g = 26 \<and> ng \<le> 26 \<and> distinct (take ng g)
     \<and> (\<forall>c \<in> set (take ng g). 97 \<le> sint c \<and> sint c \<le> 122))"

lemma guessed_iff: "ng \<le> length g \<Longrightarrow> guessed g ng c \<longleftrightarrow> c \<in> set (take ng g)"
  by (auto simp: guessed_def in_set_conv_nth)

lemma sint_u8_inject: "sint (a :: u8) = sint b \<Longrightarrow> a = b"
  by (drule arg_cong [where f = "word_of_int :: int \<Rightarrow> u8"]) simp

lemma letters_bound:
  assumes "distinct cs" "\<forall>c \<in> set cs. 97 \<le> sint c \<and> sint (c :: u8) \<le> 122"
  shows "length cs \<le> 26"
proof -
  have "length cs = card (sint ` set cs)"
    using assms(1) by (simp add: distinct_card card_image inj_onI sint_u8_inject)
  also have "\<dots> \<le> card {97 .. 122 :: int}" using assms(2) by (intro card_mono) auto
  finally show ?thesis by simp
qed

lemma hangman_guess_ok:
  assumes "letters_ok st"
  shows "\<exists>r. hangman_guess wd c st = Some r
    \<and> (case r of Hit st' \<Rightarrow> letters_ok st' | Miss st' \<Rightarrow> letters_ok st' | _ \<Rightarrow> True)"
proof -
  obtain g ng where st: "st = (g, ng)" by fastforce
  have g: "length g = 26" "ng \<le> 26" "distinct (take ng g)" "\<forall>c \<in> set (take ng g). 97 \<le> sint c \<and> sint c \<le> 122"
    using assms by (simp_all add: st letters_ok_def)
  show ?thesis
  proof (cases "(sint c < 97 \<or> sint c > 122) \<or> guessed g ng c")
    case True
    then show ?thesis by (auto simp: hangman_guess_def st)
  next
    case False
    then have c: "97 \<le> sint c" "sint c \<le> 122" "c \<notin> set (take ng g)" using g by (simp_all add: guessed_iff)
    have d: "distinct (take ng g @ [c])" "\<forall>x \<in> set (take ng g @ [c]). 97 \<le> sint x \<and> sint x \<le> 122"
      using g c by auto
    have "ng < 26" using letters_bound [OF d] g(1,2) by simp
    then have "put_at g ng c = Some (g[ng := c])" "take (Suc ng) (g[ng := c]) = take ng g @ [c]"
      using g(1) by (simp_all add: take_Suc_conv_app_nth)
    with False d g \<open>ng < 26\<close> show ?thesis
      by (auto simp: hangman_guess_def st letters_ok_def)
  qed
qed

lemma keeps_hangman_draw: "keeps (hangman_draw wd g ng lives)"
  unfolding hangman_draw_def
  by (rule keeps_steps) (auto intro!: keeps_colour keeps_text keeps_loop keeps_if keeps_steps keeps_say keeps_say_str simp: fits_eval)

lemma hangman_loop_yields: "letters_ok st \<Longrightarrow> sh_inv n s \<Longrightarrow> yields (\<lambda>(r, s). sh_inv n s) (hangman_loop k wd st lives s)"
proof (induction k arbitrary: st lives s)
  case (Suc k)
  obtain g ng where st: "st = (g, ng)" by fastforce
  have dead: "keeps (steps [say (ln ''  Dead! %s'' @ [10]) [arg_str wd], colour VGA_LIGHT_GREY VGA_BLACK])"
    by (rule keeps_steps) (auto intro!: keeps_colour keeps_say simp: fits_eval)
  have won: "keeps (say (ln ''  Won! %s'' @ [10]) [arg_str wd])" by (rule keeps_say) (simp add: fits_eval)
  have ask: "keeps (say_str ''  > '')" "keeps (say_line ''  Yes!'')" "keeps (say_line ''  Wrong!'')"
    by (auto intro!: keeps_say_str keeps_say_line)
  have guess: "yields (\<lambda>(r, s). sh_inv n s) (andthen (or_fault (hangman_guess wd c (g, ng))) (\<lambda>r. case r of
              Not_A_Letter \<Rightarrow> hangman_loop k wd (g, ng) lives s
            | Repeated \<Rightarrow> hangman_loop k wd (g, ng) lives s
            | Hit st \<Rightarrow> andthen (say_line ''  Yes!'' s) (hangman_loop k wd st lives)
            | Miss st \<Rightarrow> andthen (say_line ''  Wrong!'' s) (hangman_loop k wd st (lives - 1))))" if s: "sh_inv n s" for c s
  proof -
    from hangman_guess_ok [OF Suc.prems(1), of wd c] obtain r where
      r: "hangman_guess wd c (g, ng) = Some r" "case r of Hit st' \<Rightarrow> letters_ok st' | Miss st' \<Rightarrow> letters_ok st' | _ \<Rightarrow> True"
      unfolding st by blast
    have same: "yields (\<lambda>(r, s). sh_inv n s) (hangman_loop k wd (g, ng) lives s)"
      using Suc.IH [OF Suc.prems(1) s] by (simp add: st)
    show ?thesis
      unfolding r(1) using r(2) s same
      by (cases r) (auto intro!: Suc.IH yields_andthen [OF keepsD [OF ask(2)]] yields_andthen [OF keepsD [OF ask(3)]])
  qed
  show ?case
    unfolding st hangman_loop.simps
  proof (rule if_split [THEN iffD2], intro conjI impI)
    show "yields (\<lambda>(r, s). sh_inv n s) (andthen (steps [say (ln ''  Dead! %s'' @ [10]) [arg_str wd], colour VGA_LIGHT_GREY VGA_BLACK] s) (\<lambda>s. Inr (False, s)))"
      by (rule yields_andthen [OF keepsD [OF dead Suc.prems(2)]]) simp
  qed (rule yields_andthen [OF keepsD [OF keeps_hangman_draw Suc.prems(2)]], rule if_split [THEN iffD2], intro conjI impI,
      rule yields_andthen [OF keepsD [OF won]], assumption, simp,
      rule yields_andthen [OF keepsD [OF ask(1)]], assumption, rule asked_key_yields, assumption, rule guess)
qed simp

lemma keeps_cmd_hangman [keeps_intros]: "keeps cmd_hangman"
  unfolding cmd_hangman_def hangman_def
  by (rule keepsI, rule yields_andthen [OF hangman_loop_yields]) (auto simp: letters_ok_def)

section \<open>Rock, paper, scissors\<close>

lemma rps_loop_yields:
  "pw < rd \<Longrightarrow> cw < rd \<Longrightarrow> rd \<le> 6 \<Longrightarrow> sh_inv n s \<Longrightarrow> yields (\<lambda>(r, s). sh_inv n s) (rps_loop k pw cw rd s)"
proof (induction k arbitrary: pw cw rd s)
  case (Suc k)
  have ask: "keeps (say (bytes ''  R%d (r/p/s): '') [num rd])" if "rd \<le> 5"
    using that by (intro keeps_say) (simp add: fits_eval)
  have no: "keeps (say_line ''  r/p/s!'')" by (rule keeps_say_line) simp
  have round: "keeps (steps [say (bytes ''  %s vs %s: '') [arg_str (rps_names ! a), arg_str (rps_names ! b)],
      say_line (if a = b then ''Draw'' else if beats a b then ''You!'' else ''CPU!''),
      say (ln ''  %d-%d'' @ [10]) [num p, num c]])" if "p \<le> 10" "c \<le> 10" for a b p c
    using that by (intro keeps_steps) (auto intro!: keeps_say keeps_say_line simp: fits_eval split: if_splits)
  have turn: "yields (\<lambda>(r, s). sh_inv n s) (case rps_key c of
            None \<Rightarrow> andthen (say_line ''  r/p/s!'' s) (rps_loop k pw cw rd)
          | Some pl \<Rightarrow> let cpu = rps_cpu (ticks s) rd;
                         pw' = (if beats pl cpu then pw + 1 else pw);
                         cw' = (if pl \<noteq> cpu \<and> \<not> beats pl cpu then cw + 1 else cw) in
              andthen (steps [say (bytes ''  %s vs %s: '') [arg_str (rps_names ! pl), arg_str (rps_names ! cpu)],
                 say_line (if pl = cpu then ''Draw'' else if beats pl cpu then ''You!'' else ''CPU!''),
                 say (ln ''  %d-%d'' @ [10]) [num pw', num cw']] s)
                (rps_loop k pw' cw' (rd + 1)))" if s: "sh_inv n s" and rd: "rd \<le> 5" for c s
  proof (cases "rps_key c")
    case None
    then show ?thesis
      using Suc.prems by (simp only: option.case) (rule yields_andthen [OF keepsD [OF no s]], rule Suc.IH)
  next
    case (Some pl)
    show ?thesis
      unfolding Some option.case Let_def
      by (rule yields_andthen [OF keepsD [OF round s]]) (use Suc.prems rd in \<open>auto intro!: Suc.IH\<close>)
  qed
  show ?case
    unfolding rps_loop.simps
  proof (rule if_split [THEN iffD2], intro conjI impI)
    assume rd: "rd \<le> 5 \<and> pw < 3 \<and> cw < 3"
    then have "rd \<le> 5" by simp
    show "yields (\<lambda>(r, s). sh_inv n s) (andthen (say (bytes ''  R%d (r/p/s): '') [num rd] s) (\<lambda>s. andthen (getchar s) (\<lambda>(s, c).
        andthen (steps [putc c, putc 10] s) (\<lambda>s. case rps_key c of
            None \<Rightarrow> andthen (say_line ''  r/p/s!'' s) (rps_loop k pw cw rd)
          | Some pl \<Rightarrow> let cpu = rps_cpu (ticks s) rd;
                         pw' = (if beats pl cpu then pw + 1 else pw);
                         cw' = (if pl \<noteq> cpu \<and> \<not> beats pl cpu then cw + 1 else cw) in
              andthen (steps [say (bytes ''  %s vs %s: '') [arg_str (rps_names ! pl), arg_str (rps_names ! cpu)],
                 say_line (if pl = cpu then ''Draw'' else if beats pl cpu then ''You!'' else ''CPU!''),
                 say (ln ''  %d-%d'' @ [10]) [num pw', num cw']] s)
                (rps_loop k pw' cw' (rd + 1))))))"
      by (rule yields_andthen [OF keepsD [OF ask [OF \<open>rd \<le> 5\<close>] Suc.prems(4)]], rule asked_key_yields, assumption,
          rule turn [OF _ \<open>rd \<le> 5\<close>])
  qed (simp add: Suc.prems(4))
qed simp

lemma keeps_cmd_rps [keeps_intros]: "keeps cmd_rps"
proof (rule keepsI)
  fix n s assume s: "sh_inv n s"
  have title: "keeps (say (10 # ln ''  RPS Best of 5'' @ [10]) [])" by (rule keeps_text) simp
  have res: "keeps (steps [say (ln (if pw > cw then ''  You win!'' else if cw > pw then ''  CPU wins!'' else ''  Draw!'') @ [10]) [],
        colour VGA_LIGHT_GREY VGA_BLACK])" for pw cw :: nat
    by (rule keeps_steps) (auto intro!: keeps_colour keeps_text split: if_splits)
  show "yields (sh_inv n) (cmd_rps s)"
    unfolding cmd_rps_def
    by (rule yields_andthen [OF keepsD [OF title s]], rule yields_andthen [OF rps_loop_yields], simp, simp, simp, assumption,
        simp only: split_paired_all prod.case, rule keepsD [OF res])
qed

section \<open>Pong\<close>

text \<open>The paddles and the ball stay inside the field of 40 by 20 cells, and nobody has five points yet.\<close>

definition pong_ok :: "pong \<Rightarrow> bool" where
  "pong_ok g \<longleftrightarrow> 1 \<le> p1y g \<and> p1y g \<le> 15 \<and> 1 \<le> p2y g \<and> p2y g \<le> 15
     \<and> 0 < bx g \<and> bx g < 39 \<and> 1 \<le> pos_y g \<and> pos_y g \<le> 18 \<and> \<bar>bdx g\<bar> = 1 \<and> \<bar>bdy g\<bar> = 1
     \<and> (pos_y g = 1 \<longrightarrow> bdy g = 1) \<and> (pos_y g = 18 \<longrightarrow> bdy g = - 1)
     \<and> 0 \<le> s1 g \<and> s1 g \<le> 5 \<and> 0 \<le> s2 g \<and> s2 g \<le> 5"

lemma pong_start_ok: "pong_ok pong_start"
  by (simp add: pong_ok_def pong_start_def)

lemma pong_key_ok: "pong_ok g \<Longrightarrow> pong_ok (snd (pong_key c g))"
  by (auto simp: pong_ok_def pong_key_def)

lemma pong_bounce_fields:
  "p1y (pong_bounce g) = p1y g" "p2y (pong_bounce g) = p2y g" "s1 (pong_bounce g) = s1 g" "s2 (pong_bounce g) = s2 g"
  "bx (pong_bounce g) = bx g + bdx g" "pos_y (pong_bounce g) = pos_y g + bdy g"
  "bdy (pong_bounce g) = (if pos_y g + bdy g \<le> 1 \<or> pos_y g + bdy g \<ge> 18 then - bdy g else bdy g)"
  "bdx (pong_bounce g) \<in> {bdx g, 1, - 1}"
  by (simp_all add: pong_bounce_def Let_def)

lemma pong_score_fields:
  "p1y (pong_score g) = p1y g" "p2y (pong_score g) = p2y g" "bdy (pong_score g) = bdy g"
  "bx (pong_score g) = (if bx g \<le> 0 \<or> bx g \<ge> 39 then 20 else bx g)"
  "pos_y (pong_score g) = (if bx g \<le> 0 \<or> bx g \<ge> 39 then 10 else pos_y g)"
  "bdx (pong_score g) = (if bx g \<le> 0 then 1 else if bx g \<ge> 39 then - 1 else bdx g)"
  "s1 (pong_score g) = (if bx g \<ge> 39 then s1 g + 1 else s1 g)"
  "s2 (pong_score g) = (if bx g \<le> 0 then s2 g + 1 else s2 g)"
  by (simp_all add: pong_score_def Let_def)

lemma abs_one: "\<bar>x :: int\<bar> = 1 \<longleftrightarrow> x = 1 \<or> x = - 1" by auto

lemma pong_round_ok:
  assumes "pong_ok g" "\<not> pong_over g"
  shows "pong_ok (pong_score (pong_bounce g))"
proof -
  have a: "bdx g = 1 \<or> bdx g = - 1" "bdy g = 1 \<or> bdy g = - 1" using assms(1) by (simp_all add: pong_ok_def abs_one)
  have d: "bdx (pong_bounce g) = 1 \<or> bdx (pong_bounce g) = - 1" using pong_bounce_fields(8) [of g] a(1) by auto
  have y: "1 \<le> pos_y g + bdy g" "pos_y g + bdy g \<le> 18" using assms(1) a(2) by (auto simp: pong_ok_def)
  show ?thesis
    using assms d y a(2) unfolding pong_ok_def pong_score_fields pong_bounce_fields(1-7) pong_over_def abs_one
    by (simp split: if_splits) linarith
qed

lemma keeps_pong_cell: "keeps (pong_cell g y x)"
  unfolding pong_cell_def by (rule keeps_steps) (auto intro!: keeps_colour keeps_say_str split: if_splits)

lemma pong_scores_ok:
  "pong_ok g \<Longrightarrow> (word_of_int (s1 g) :: u32) \<noteq> 0x80000000 \<and> (word_of_int (s2 g) :: u32) \<noteq> 0x80000000"
  using signed_word_ok [of "s1 g"] signed_word_ok [of "s2 g"] by (simp add: pong_ok_def)

lemma keeps_pong_draw: "pong_ok g \<Longrightarrow> keeps (pong_draw g)"
  unfolding pong_draw_def using pong_scores_ok [of g]
  by (intro keeps_steps) (auto intro!: keeps_clear keeps_colour keeps_say keeps_loop keeps_steps keeps_say_str
      keeps_pong_cell simp: fits_eval int_arg_def)

lemma keeps_pong_quit:
  "pong_ok g \<Longrightarrow> keeps (steps [clear, say (10 # ln ''  %d-%d'' @ [10]) [int_arg (s1 g), int_arg (s2 g)]])"
  using pong_scores_ok [of g] by (intro keeps_steps) (auto intro!: keeps_clear keeps_say simp: fits_eval int_arg_def)

lemma keeps_pong_won:
  "pong_ok g \<Longrightarrow> keeps (steps [clear, say (10 # ln ''  %s wins! %d-%d'' @ [10])
      [arg_str (bytes (if s1 g > s2 g then ''P1'' else ''P2'')), int_arg (s1 g), int_arg (s2 g)]])"
  using pong_scores_ok [of g] by (intro keeps_steps) (auto intro!: keeps_clear keeps_say simp: fits_eval int_arg_def)

lemma pong_over_key: "pong_over (snd (pong_key c g)) = pong_over g"
  by (simp add: pong_key_def pong_over_def)

lemma yields_shown:
  "keeps f \<Longrightarrow> I g \<Longrightarrow> sh_inv n s \<Longrightarrow> yields (loop_inv n I) (andthen (f s) (\<lambda>s. Inr (g, s)))"
  by (rule yields_andthen [OF keepsD]) simp_all

lemma pong_loop_yields:
  "pong_ok g \<Longrightarrow> \<not> pong_over g \<Longrightarrow> sh_inv n s \<Longrightarrow> yields (loop_inv n pong_ok) (pong_loop k g s)"
proof (induction k arbitrary: g s)
  case (Suc k)
  let ?I = "\<lambda>g. pong_ok g \<and> \<not> pong_over g"
  have poll: "yields (\<lambda>(go, ls). loop_inv n ?I ls) (poll_wait (halts s) (ticks s) 8 pong_key (g, s))" if "sh_inv n s" for s
    using that Suc.prems(1,2) by (intro poll_wait_yields) (simp_all add: halts_ok_of pong_key_ok pong_over_key)
  have rest: "yields (loop_inv n pong_ok) (if \<not> go
       then andthen (steps [clear, say (10 # ln ''  %d-%d'' @ [10]) [int_arg (s1 g), int_arg (s2 g)]] s) (\<lambda>s. Inr (g, s))
       else let g = pong_score (pong_bounce g) in
         if pong_over g
         then andthen (steps [clear, say (10 # ln ''  %s wins! %d-%d'' @ [10])
                [arg_str (bytes (if s1 g > s2 g then ''P1'' else ''P2'')), int_arg (s1 g), int_arg (s2 g)]] s)
                (\<lambda>s. Inr (g, s))
         else pong_loop k g s)" if g: "pong_ok g" "\<not> pong_over g" and s: "sh_inv n s" for go g s
  proof -
    note q = yields_shown [where I = pong_ok, OF keeps_pong_quit [OF g(1)] g(1) s]
    note g' = pong_round_ok [OF g]
    note w = yields_shown [where I = pong_ok, OF keeps_pong_won [OF g'] g' s]
    show ?thesis
    proof (cases go)
      case True
      then show ?thesis
        by (cases "pong_over (pong_score (pong_bounce g))")
          (simp_all only: Let_def not_True_eq_False if_True if_False w Suc.IH [OF g' _ s] not_False_eq_True)
    qed (simp only: not_False_eq_True if_True q)
  qed
  show ?case
    unfolding pong_loop.simps
    by (rule yields_andthen [OF keepsD [OF keeps_pong_draw [OF Suc.prems(1)] Suc.prems(3)]], rule yields_andthen [OF poll],
        assumption, simp only: split_paired_all prod.case loop_inv_pair, elim conjE, rule rest)
qed simp

lemma pong_not_over: "\<not> pong_over pong_start"
  by (simp add: pong_over_def pong_start_def)

lemma keeps_cmd_pong [keeps_intros]: "keeps cmd_pong"
  unfolding cmd_pong_def
  by (rule keepsI, rule yields_andthen [OF pong_loop_yields [OF pong_start_ok pong_not_over]], assumption)
    (simp add: case_prod_unfold loop_inv_def)

end
