(* ===== verification/LineSafe.thy ===== *)
theory LineSafe
  imports GameSafe
begin

text \<open>
  The line editor, the history and the splitting of a line: they never leave their arrays, the
  arguments of a command are the first 16 words of the line, and the history is a queue of the last
  ten lines.
\<close>

section \<open>The words of a line\<close>

function line_words :: "u8 list \<Rightarrow> u8 list list" where
  "line_words [] = []"
| "line_words (c # s) = (if c = 32 then line_words s
     else (c # takeWhile (\<lambda>c. c \<noteq> 32) s) # line_words (dropWhile (\<lambda>c. c \<noteq> 32) s))"
  by pat_completeness auto
termination
  by (relation "measure length") (simp_all add: le_imp_less_Suc length_dropWhile_le)

lemma line_words_blank: "\<forall>c \<in> set b. c = 32 \<Longrightarrow> line_words (b @ s) = line_words s"
  by (induction b) simp_all

lemma line_words_word: "32 \<notin> set v \<Longrightarrow> v \<noteq> [] \<Longrightarrow> line_words (v @ 32 # s) = v # line_words s"
  by (cases v) (auto simp: takeWhile_append dropWhile_append)

lemma line_words_last: "32 \<notin> set v \<Longrightarrow> v \<noteq> [] \<Longrightarrow> line_words v = [v]"
proof (cases v)
  case (Cons c s)
  assume v: "32 \<notin> set v"
  with Cons have "takeWhile (\<lambda>c. c \<noteq> 32) s = s" "dropWhile (\<lambda>c. c \<noteq> 32) s = []"
    by (auto simp: takeWhile_eq_all_conv dropWhile_eq_Nil_conv)
  moreover from this(2) have "line_words (dropWhile (\<lambda>c. c \<noteq> 32) s) = []" by (simp only: line_words.simps)
  ultimately show ?thesis using Cons v by simp
qed simp

lemma line_words_length_aux:
  "(\<Sum>a\<leftarrow>line_words s. length a + 1) \<le> length s + (if s = [] \<or> hd s = 32 then 0 else 1)"
proof (induction s rule: line_words.induct)
  case (2 c s)
  let ?d = "dropWhile (\<lambda>c. c \<noteq> 32) s"
  have "length (takeWhile (\<lambda>c. c \<noteq> 32) s) + length ?d = length s"
    by (metis length_append takeWhile_dropWhile_id)
  moreover have "?d = [] \<or> hd ?d = 32" using hd_dropWhile [of "\<lambda>c. c \<noteq> 32" s] by blast
  ultimately show ?case using 2 by (cases "c = 32") (auto split: if_splits)
qed simp

lemma line_words_length: "(\<Sum>a\<leftarrow>line_words s. length a + 1) \<le> length s + 1"
  using line_words_length_aux [of s] by (simp split: if_splits)

lemma scan_while_at: "\<forall>c \<in> set u. p c \<Longrightarrow> \<not> p d \<Longrightarrow> scan_while p (pre @ u @ d # z) (length pre) = Some (length pre + length u)"
proof (induction u arbitrary: pre)
  case (Cons c u)
  from Cons.IH [of "pre @ [c]"] Cons.prems show ?case by (subst scan_while.simps) simp
qed (subst scan_while.simps, simp)

lemma split_args_words:
  "0 \<notin> set xs \<Longrightarrow> \<exists>ys as. split_args n (pre @ xs @ 0 # z) (length pre) = Some (pre @ ys @ 0 # z, as) \<and> length ys = length xs
     \<and> map (\<lambda>i. cstr (drop i (pre @ ys @ 0 # z))) as = take n (line_words xs)"
proof (induction n arbitrary: pre xs)
  case (Suc n)
  let ?b = "takeWhile (\<lambda>c. c = 32) xs" and ?r = "dropWhile (\<lambda>c. c = 32) xs"
  let ?v = "takeWhile (\<lambda>c. c \<noteq> 32) ?r" and ?s = "dropWhile (\<lambda>c. c \<noteq> 32) ?r"
  have xs: "xs = ?b @ ?v @ ?s" by simp
  obtain b v s where d: "xs = b @ v @ s" "\<forall>c \<in> set b. c = 32" "32 \<notin> set v" "v = [] \<longrightarrow> s = []" "s \<noteq> [] \<longrightarrow> hd s = 32"
  proof
    show "xs = ?b @ ?v @ ?s" by (rule xs)
    show "\<forall>c \<in> set ?b. c = 32" "32 \<notin> set ?v" by (auto dest: set_takeWhileD)
    show "?v = [] \<longrightarrow> ?s = []" using hd_dropWhile [of "\<lambda>c. c = 32" xs]
      by (metis dropWhile.simps(1) takeWhile_eq_Nil_iff)
    show "?s \<noteq> [] \<longrightarrow> hd ?s = 32" using hd_dropWhile [of "\<lambda>c. c \<noteq> 32" ?r] by auto
  qed
  have z: "0 \<notin> set v" "0 \<notin> set s" using Suc.prems d(1) by auto
  show ?case
  proof (cases "v = []")
    case True
    with d have x: "xs = b" by simp
    have "scan_while (\<lambda>c. c = 32) (pre @ b @ 0 # z) (length pre) = Some (length pre + length b)"
      using d(2) by (intro scan_while_at) simp_all
    then show ?thesis using d(2) line_words_blank [of b "[]"]
      by (cases b) (auto simp: x nth_append intro!: exI [of _ b])
  next
    case False
    then obtain c v' where v: "v = c # v'" "c \<noteq> 32" "c \<noteq> 0" using d(3) z(1) by (cases v) auto
    have first: "\<exists>c. c \<noteq> 0 \<and> (pre @ xs @ 0 # z) ! length pre = c \<and> length pre < length (pre @ xs @ 0 # z)"
      using v d(1,2) by (cases b) (auto simp: nth_append)
    have blanks: "scan_while (\<lambda>c. c = 32) (pre @ xs @ 0 # z) (length pre) = Some (length pre + length b)"
      using scan_while_at [of b "\<lambda>c. c = 32" c pre "v' @ s @ 0 # z"] d(1,2) v by simp
    have word: "scan_while (\<lambda>c. c \<noteq> 0 \<and> c \<noteq> 32) (pre @ xs @ 0 # z) (length pre + length b)
        = Some (length pre + length b + length v)" if "s @ 0 # z = e # t" for e t
      using scan_while_at [of v "\<lambda>c. c \<noteq> 0 \<and> c \<noteq> 32" e "pre @ b" t] that d(1,3,5) z by (cases s) auto
    show ?thesis
    proof (cases s)
      case Nil
      have "split_args n (pre @ xs @ 0 # z) (length pre + length b + length v) = Some (pre @ xs @ 0 # z, [])"
        using d(1) Nil by (cases n) (simp_all add: nth_append)
      with first blanks word [of 0 z] Nil v d(1) have "split_args (Suc n) (pre @ xs @ 0 # z) (length pre)
          = Some (pre @ xs @ 0 # z, [length pre + length b])"
        by (auto simp: nth_append)
      then show ?thesis
        using line_words_blank [OF d(2)] line_words_last [OF d(3) False] d(1) Nil z(1) by auto
    next
      case (Cons e s')
      with d(5) have e: "e = 32" by simp
      have "0 \<notin> set s'" using z(2) Cons by simp
      from Suc.IH [OF this, of "pre @ b @ v @ [0]"] obtain ys as where
        r: "split_args n ((pre @ b @ v @ [0]) @ s' @ 0 # z) (length (pre @ b @ v @ [0])) = Some ((pre @ b @ v @ [0]) @ ys @ 0 # z, as)"
          "length ys = length s'"
          "map (\<lambda>i. cstr (drop i ((pre @ b @ v @ [0]) @ ys @ 0 # z))) as = take n (line_words s')"
        by blast
      have put: "put_at (pre @ xs @ 0 # z) (length pre + length b + length v) 0 = Some ((pre @ b @ v @ [0]) @ s' @ 0 # z)"
        using d(1) Cons by (simp add: list_update_append)
      from r(1) first blanks word [of e "s' @ 0 # z"] Cons v d(1) put have
        "split_args (Suc n) (pre @ xs @ 0 # z) (length pre)
          = Some (pre @ (b @ v @ 0 # ys) @ 0 # z, (length pre + length b) # as)"
        by (auto simp: nth_append e add.assoc)
      then show ?thesis
        using line_words_blank [OF d(2)] line_words_word [OF d(3) False] d(1) Cons e z(1) r(2,3)
        by (intro exI [of _ "b @ v @ 0 # ys"] exI [of _ "(length pre + length b) # as"]) auto
    qed
  qed
qed simp

lemma argv_of_words:
  assumes "0 \<in> set line"
  shows "\<exists>buf. argv_of line = Some (buf, take 16 (line_words (cstr line))) \<and> length buf = length line \<and> 0 \<in> set buf"
proof -
  from split_list_first [OF assms] obtain xs z where l: "line = xs @ 0 # z" "0 \<notin> set xs" by blast
  from split_args_words [OF l(2), of 16 "[]" z] obtain ys as where
    "split_args 16 (xs @ 0 # z) 0 = Some (ys @ 0 # z, as)" "length ys = length xs"
    "map (\<lambda>i. cstr (drop i (ys @ 0 # z))) as = take 16 (line_words xs)" by auto
  with l show ?thesis by (simp add: argv_of_def)
qed

lemma args_ok_words:
  assumes "line_ok line"
  shows "args_ok (take k (line_words (cstr line)))"
proof -
  let ?f = "\<lambda>a :: u8 list. length a + 1" and ?ws = "line_words (cstr line)"
  have "(\<Sum>a\<leftarrow>take k ?ws. length (cstr a) + 1) \<le> (\<Sum>a\<leftarrow>take k ?ws. ?f a)"
    using length_cstr by (intro sum_list_mono) simp
  also have "\<dots> \<le> (\<Sum>a\<leftarrow>take k ?ws @ drop k ?ws. ?f a)" by (simp only: map_append sum_list_append)
  also have "\<dots> \<le> length (cstr line) + 1" using line_words_length [of "cstr line"] by simp
  also have "\<dots> \<le> 256" using assms length_cstr_less [of line] by (simp add: line_ok_def)
  finally show ?thesis by (simp add: args_ok_def)
qed

section \<open>The history\<close>

definition recalled :: "shell \<Rightarrow> u8 list list" where
  "recalled s = map cstr (take (history_count s) (history s))"

lemma strcpy_line: "line_ok a \<Longrightarrow> line_ok b \<Longrightarrow> \<exists>c. strcpy a b = Some c \<and> line_ok c \<and> cstr c = cstr b"
  using length_cstr_less [of b] by (auto simp: strcpy_closed line_ok_def)

lemma copy_history_line:
  assumes "\<forall>x \<in> set h. line_ok x" "Suc i < length h"
  shows "\<exists>c. copy_history i (Suc i) h = Some (h[i := c]) \<and> line_ok c \<and> cstr c = cstr (h ! Suc i)"
  using strcpy_line [of "h ! i" "h ! Suc i"] assms by (auto simp: copy_history_def)

lemma history_shift:
  assumes "length h = 10" "\<forall>x \<in> set h. line_ok x" "k < 10"
  shows "\<exists>h'. fold (\<lambda>i r. do { h \<leftarrow> r; copy_history (i - 1) i h }) [1 ..< Suc k] (Some h) = Some h'
    \<and> length h' = 10 \<and> (\<forall>x \<in> set h'. line_ok x) \<and> (\<forall>i < k. cstr (h' ! i) = cstr (h ! Suc i)) \<and> (\<forall>i \<ge> k. h' ! i = h ! i)"
  using assms(3)
proof (induction k)
  case 0
  then show ?case using assms by simp
next
  case (Suc k)
  then obtain h' where h': "fold (\<lambda>i r. do { h \<leftarrow> r; copy_history (i - 1) i h }) [1 ..< Suc k] (Some h) = Some h'"
    "length h' = 10" "\<forall>x \<in> set h'. line_ok x" "\<forall>i < k. cstr (h' ! i) = cstr (h ! Suc i)" "\<forall>i \<ge> k. h' ! i = h ! i"
    by auto
  with copy_history_line [of h' k] Suc.prems obtain c where
    c: "copy_history k (Suc k) h' = Some (h'[k := c])" "line_ok c" "cstr c = cstr (h ! Suc k)" by auto
  have "\<forall>x \<in> set (h'[k := c]). line_ok x" using h'(3) c(2) set_update_subset_insert [of h' k c] by auto
  with h' c Suc.prems show ?case
    by (intro exI [of _ "h'[k := c]"]) (auto simp: nth_list_update less_Suc_eq)
qed

lemma history_add_step:
  assumes "editor_ok s" "line_ok cmd"
  shows "\<exists>h n. history_add cmd s = Some (s\<lparr>history := h, history_count := n\<rparr>)
    \<and> recalled (s\<lparr>history := h, history_count := n\<rparr>) = (let ls = recalled s @ [cstr cmd] in drop (length ls - 10) ls)
    \<and> editor_ok (s\<lparr>history := h, history_count := n\<rparr>)"
proof -
  have e: "length (history s) = 10" "\<forall>x \<in> set (history s). line_ok x" "history_count s \<le> 10"
    "- 1 \<le> history_pos s" "history_pos s \<le> int (history_count s)" "length (cmd_buffer s) = 256" "cmd_len s < 256"
    using assms(1) by (simp_all add: editor_ok_def)
  have upd: "\<forall>x \<in> set (h[i := c]). line_ok x" if "\<forall>x \<in> set h. line_ok x" "line_ok c" for h i c
    using that set_update_subset_insert [of h i c] by auto
  show ?thesis
  proof (cases "history_count s < 10")
    case True
    let ?n = "history_count s"
    from strcpy_line [OF _ assms(2), of "history s ! ?n"] True e(1,2) obtain c where
      c: "strcpy (history s ! ?n) cmd = Some c" "line_ok c" "cstr c = cstr cmd" by auto
    have "take (Suc ?n) ((history s)[?n := c]) = take ?n (history s) @ [c]"
      using True e(1) by (simp add: take_Suc_conv_app_nth)
    then show ?thesis using True e c upd [OF e(2) c(2)]
      by (intro exI [of _ "(history s)[?n := c]"] exI [of _ "Suc ?n"])
        (simp add: history_add_def recalled_def editor_ok_def)
  next
    case False
    with e(3) have n: "history_count s = 10" by simp
    from history_shift [OF e(1,2), of 9] obtain h where
      h: "fold (\<lambda>i r. do { h \<leftarrow> r; copy_history (i - 1) i h }) [1 ..< 10] (Some (history s)) = Some h"
        "length h = 10" "\<forall>x \<in> set h. line_ok x" "\<forall>i < 9. cstr (h ! i) = cstr (history s ! Suc i)" by auto
    from strcpy_line [OF _ assms(2), of "h ! 9"] h(2,3) obtain c where
      c: "strcpy (h ! 9) cmd = Some c" "line_ok c" "cstr c = cstr cmd" by auto
    have "map cstr (h[9 := c]) = tl (map cstr (history s)) @ [cstr cmd]"
    proof (rule nth_equalityI)
      fix i assume "i < length (map cstr (h[9 := c]))"
      then show "map cstr (h[9 := c]) ! i = (tl (map cstr (history s)) @ [cstr cmd]) ! i"
        using h(2,4) e(1) c(3) by (auto simp: nth_list_update nth_append nth_tl)
    qed (simp add: h(2) e(1))
    then have "recalled (s\<lparr>history := h[9 := c], history_count := 10\<rparr>) = drop 1 (recalled s @ [cstr cmd])"
      using h(2) e(1) n by (simp add: recalled_def drop_Suc tl_append2 flip: length_0_conv)
    moreover have "length (recalled s) = 10" using e(1) n by (simp add: recalled_def)
    ultimately show ?thesis using e h(1,2) c upd [OF h(3) c(2)] n
      by (intro exI [of _ "h[9 := c]"] exI [of _ 10]) (simp add: history_add_def editor_ok_def Let_def)
  qed
qed

section \<open>The line editor\<close>

lemma sh_inv_editor:
  "sh_inv n s \<Longrightarrow> sh_sys s' = sh_sys s \<Longrightarrow> halts s' = halts s \<Longrightarrow> editor_ok s' \<Longrightarrow> sh_inv n s'"
  by (simp add: sh_inv_def numbers_ok_def the_procs_def the_pages_def ticks_def s_now_def)

lemma sh_inv_editor_ok: "sh_inv n s \<Longrightarrow> editor_ok s"
  by (simp add: sh_inv_def)

lemma history_add_yields:
  assumes "sh_inv n s" "line_ok cmd"
  shows "yields (sh_inv n) (or_fault (history_add cmd s))"
proof -
  from history_add_step [OF sh_inv_editor_ok [OF assms(1)] assms(2)] obtain h k where
    h: "history_add cmd s = Some (s\<lparr>history := h, history_count := k\<rparr>)" "editor_ok (s\<lparr>history := h, history_count := k\<rparr>)"
    by blast
  have "sh_inv n (s\<lparr>history := h, history_count := k\<rparr>)"
    by (rule sh_inv_editor [OF assms(1) _ _ h(2)]) simp_all
  then show ?thesis by (simp add: h(1))
qed

text \<open>Output changes only the terminal.\<close>

lemma on_screen_count: "on_screen f s = Inr s' \<Longrightarrow> history_count s' = history_count s"
  by (cases "f (s_term (sh_sys s))") (auto simp: on_screen_def)

definition count_inv :: "nat \<Rightarrow> nat \<Rightarrow> shell \<Rightarrow> bool" where
  "count_inv n k s \<longleftrightarrow> sh_inv n s \<and> history_count s = k"

lemma putc_yields: "count_inv n k s \<Longrightarrow> yields (count_inv n k) (putc c s)"
  using keepsD [OF keeps_putc [of c], of n s] on_screen_count [of "terminal_putchar c" s]
  by (auto simp: yields_def putc_def count_inv_def split: sum.splits)

lemma erase_line_yields:
  assumes "count_inv n k s"
  shows "yields (count_inv n k) (erase_line s)"
  unfolding erase_line_def
proof (rule yields_andthen)
  show "yields (count_inv n k) (loop (\<lambda>_. putc 8) [0 ..< cmd_len s] s)"
    using assms by (rule yields_loop [rotated]) (rule putc_yields)
  fix s' assume s': "count_inv n k s'"
  then have inv: "sh_inv n s'" by (simp add: count_inv_def)
  from sh_inv_editor_ok [OF inv] have "sh_inv n (s'\<lparr>cmd_len := 0\<rparr>)"
    by (intro sh_inv_editor [OF inv]) (simp_all add: editor_ok_def)
  with s' show "yields (count_inv n k) (Inr (s'\<lparr>cmd_len := 0\<rparr>))" by (simp add: count_inv_def)
qed

lemma recall_yields:
  assumes "sh_inv n s" "0 \<le> i" "i < int (history_count s)"
  shows "yields (sh_inv n) (recall i s)"
proof -
  have s: "count_inv n (history_count s) (s\<lparr>history_pos := i\<rparr>)"
    using assms sh_inv_editor_ok [OF assms(1)] sh_inv_editor [OF assms(1), of "s\<lparr>history_pos := i\<rparr>"]
    by (simp add: editor_ok_def count_inv_def)
  show ?thesis
    unfolding recall_def
  proof (rule yields_andthen [OF erase_line_yields [OF s]])
    fix s' assume s': "count_inv n (history_count s) s'"
    then have inv: "sh_inv n s'" "editor_ok s'" using sh_inv_editor_ok [of n s'] by (simp_all add: count_inv_def)
    have e: "length (history s') = 10" "nat i < 10" "length (cmd_buffer s') = 256" "line_ok (history s' ! nat i)"
      using inv(2) s' assms(2,3) by (auto simp: editor_ok_def count_inv_def)
    then obtain b where b: "strcpy (cmd_buffer s') (history s' ! nat i) = Some b" "line_ok b"
      using length_cstr_less [of "history s' ! nat i"] by (auto simp: strcpy_closed line_ok_def)
    have "editor_ok (s'\<lparr>cmd_buffer := b, cmd_len := strlen b\<rparr>)"
      using b(2) inv(2) length_cstr_less [of b] by (simp add: editor_ok_def line_ok_def)
    then have "sh_inv n (s'\<lparr>cmd_buffer := b, cmd_len := strlen b\<rparr>)"
      by (intro sh_inv_editor [OF inv(1)]) simp_all
    from keepsD [OF keeps_puts this] show "yields (sh_inv n) (andthen (or_fault (do { line \<leftarrow> get_at (history s') (nat i); strcpy (cmd_buffer s') line }))
        (\<lambda>b. puts b (s'\<lparr>cmd_buffer := b, cmd_len := strlen b\<rparr>)))"
      using e b(1) by simp
  qed
qed

text \<open>A key keeps the invariant, and Enter leaves a string in the buffer.\<close>

lemma line_ok_put: "length b = 256 \<Longrightarrow> i < 256 \<Longrightarrow> line_ok (b[i := 0])"
  by (simp add: line_ok_def set_update_memI)

definition edit_inv :: "nat \<Rightarrow> bool \<Rightarrow> unit \<times> shell \<Rightarrow> bool" where
  "edit_inv n go us \<longleftrightarrow> sh_inv n (snd us) \<and> (\<not> go \<longrightarrow> line_ok (cmd_buffer (snd us)))"

lemma yields_if: "(b \<Longrightarrow> yields P x) \<Longrightarrow> (\<not> b \<Longrightarrow> yields P y) \<Longrightarrow> yields P (if b then x else y)"
  by simp

lemma yields_again: "yields (sh_inv n) r \<Longrightarrow> yields (\<lambda>(go, us). edit_inv n go us) (andthen r (\<lambda>s. Inr (True, (), s)))"
  by (erule yields_andthen) (simp add: edit_inv_def)

lemma edit_key_yields:
  assumes s: "sh_inv n s"
  shows "yields (\<lambda>(go, us). edit_inv n go us) (edit_key c ((), s))"
proof -
  have again: "yields (\<lambda>(go, us). edit_inv n go us) (Inr (True, (), s))" using s by (simp add: edit_inv_def)
  have e: "editor_ok s" by (rule sh_inv_editor_ok [OF s])
  have enter: "yields (\<lambda>(go, us). edit_inv n go us) (andthen (putc 10 s) (\<lambda>s. andthen (or_fault (put_at (cmd_buffer s) (cmd_len s) 0)) (\<lambda>b.
            Inr (False, (), s\<lparr>cmd_buffer := b\<rparr>))))"
  proof (rule yields_andthen [OF keepsD [OF keeps_putc s]])
    fix s' assume s': "sh_inv n s'"
    have e': "length (cmd_buffer s') = 256" "cmd_len s' < 256" "editor_ok s'"
      using sh_inv_editor_ok [OF s'] by (simp_all add: editor_ok_def)
    have "sh_inv n (s'\<lparr>cmd_buffer := (cmd_buffer s')[cmd_len s' := 0]\<rparr>)"
      using e' by (intro sh_inv_editor [OF s']) (simp_all add: editor_ok_def)
    with e' show "yields (\<lambda>(go, us). edit_inv n go us) (andthen (or_fault (put_at (cmd_buffer s') (cmd_len s') 0)) (\<lambda>b.
            Inr (False, (), s'\<lparr>cmd_buffer := b\<rparr>)))"
      by (simp add: edit_inv_def line_ok_put)
  qed
  have rub: "yields (sh_inv n) (putc 8 (s\<lparr>cmd_len := cmd_len s - 1\<rparr>))"
    using e by (intro keepsD [OF keeps_putc] sh_inv_editor [OF s]) (auto simp: editor_ok_def)
  have up: "yields (sh_inv n) (recall (history_pos s - 1) s)" if "history_pos s > 0"
    using that e by (intro recall_yields s) (simp_all add: editor_ok_def)
  have down: "yields (sh_inv n) (recall (history_pos s + 1) s)" if "history_pos s < int (history_count s) - 1"
    using that e by (intro recall_yields s) (simp_all add: editor_ok_def)
  have last: "yields (sh_inv n) (erase_line (s\<lparr>history_pos := int (history_count s)\<rparr>))"
    using erase_line_yields [of n "history_count s" "s\<lparr>history_pos := int (history_count s)\<rparr>"]
      sh_inv_editor [OF s, of "s\<lparr>history_pos := int (history_count s)\<rparr>"] e
    by (auto simp: editor_ok_def count_inv_def elim: yields_mono)
  have char: "yields (\<lambda>(go, us). edit_inv n go us) (andthen (or_fault (put_at (cmd_buffer s) (cmd_len s) c)) (\<lambda>b.
      andthen (putc c (s\<lparr>cmd_buffer := b, cmd_len := cmd_len s + 1\<rparr>)) (\<lambda>s. Inr (True, (), s))))" if "cmd_len s < 256 - 1"
  proof -
    have "sh_inv n (s\<lparr>cmd_buffer := (cmd_buffer s)[cmd_len s := c], cmd_len := cmd_len s + 1\<rparr>)"
      using e that by (intro sh_inv_editor [OF s]) (simp_all add: editor_ok_def)
    from yields_again [OF keepsD [OF keeps_putc this]] e show ?thesis by (simp add: editor_ok_def)
  qed
  show ?thesis
    unfolding edit_key_def Let_def snd_conv
    by (intro yields_if again enter yields_again [OF rub] yields_again [OF up] yields_again [OF down] yields_again [OF last])
      (use char in auto)
qed

lemma edit_loop_yields: "sh_inv n s \<Longrightarrow> yields (edit_inv n False) (key_loop k edit_key ((), s))"
proof (induction k arbitrary: s)
  case (Suc k)
  have "yields (edit_inv n False) (andthen (edit_key c ((), s')) (\<lambda>(go, us). if go then key_loop k edit_key us else Inr us))"
    if "sh_inv n s'" for c s'
  proof (rule yields_andthen [OF edit_key_yields [OF that]], clarify)
    fix go s'' assume k: "edit_inv n go ((), s'')"
    show "yields (edit_inv n False) (if go then key_loop k edit_key ((), s'') else Inr ((), s''))"
    proof (cases go)
      case True
      then show ?thesis using Suc.IH [of s''] k by (simp add: edit_inv_def [of n True])
    qed (use k in simp)
  qed
  then show ?case
    unfolding key_loop.simps by (intro yields_andthen [OF getchar_yields [OF Suc.prems]]) auto
qed simp

lemma keeps_print_prompt: "keeps print_prompt"
  unfolding print_prompt_def
  by (rule keepsI, rule keepsD [OF keeps_steps]) (auto intro!: keeps_colour keeps_text keeps_say simp: fits_eval)

lemma read_line_yields:
  assumes "sh_inv n s"
  shows "yields (\<lambda>s. sh_inv n s \<and> line_ok (cmd_buffer s)) (read_line s)"
  unfolding read_line_def
proof (rule yields_andthen [OF keepsD [OF keeps_print_prompt assms]])
  fix s assume s: "sh_inv n s"
  have "sh_inv n (s\<lparr>cmd_len := 0, history_pos := int (history_count s)\<rparr>)"
    using sh_inv_editor_ok [OF s] by (intro sh_inv_editor [OF s]) (simp_all add: editor_ok_def)
  from edit_loop_yields [OF this]
  show "yields (\<lambda>s. sh_inv n s \<and> line_ok (cmd_buffer s))
      (andthen (while_keys edit_key ((), s\<lparr>cmd_len := 0, history_pos := int (history_count s)\<rparr>)) (\<lambda>(_, s). Inr s))"
    unfolding while_keys_def by (rule yields_andthen) (auto simp: edit_inv_def)
qed

end
