(* ===== verification/ScreenKeys.thy ===== *)
theory ScreenKeys
  imports LineSafe
begin

text \<open>
  What output does to the characters typed so far, which the terminal's state holds: the pager may take
  one, and otherwise they stay. Both are instances of one interface: a preorder on states that every
  operation respects if it leaves the keys and the pager alone.
\<close>

section \<open>Operations that respect a preorder\<close>

definition obeys :: "(screen \<Rightarrow> screen \<Rightarrow> bool) \<Rightarrow> (screen \<Rightarrow> stop + screen) \<Rightarrow> bool" where
  "obeys R f \<longleftrightarrow> (\<forall>t t'. f t = Inr t' \<longrightarrow> R t t')"

lemma obeysD: "obeys R f \<Longrightarrow> f t = Inr t' \<Longrightarrow> R t t'"
  by (simp add: obeys_def)

locale screen_order =
  fixes R :: "screen \<Rightarrow> screen \<Rightarrow> bool"
  assumes frame: "keys t' = keys t \<Longrightarrow> pager_enabled t' = pager_enabled t \<Longrightarrow> R t t'"
    and trans: "R t u \<Longrightarrow> R u v \<Longrightarrow> R t v"
begin

lemma andthen: "obeys R f \<Longrightarrow> obeys R g \<Longrightarrow> obeys R (\<lambda>t. andthen (f t) g)"
  unfolding obeys_def andthen_Inr_iff by (meson trans)

lemma loop: "(\<And>x. obeys R (f x)) \<Longrightarrow> obeys R (loop f xs)"
proof (induction xs)
  case (Cons x xs)
  have "obeys R (\<lambda>t. andthen (f x t) (loop f xs))" by (rule andthen [OF Cons.prems Cons.IH [OF Cons.prems]])
  then show ?case by (simp add: obeys_def)
qed (simp add: obeys_def frame)

lemma pure: "(\<And>t. R t (f t)) \<Longrightarrow> obeys R (\<lambda>t. Inr (f t))"
  by (simp add: obeys_def)

lemma after: "obeys R f \<Longrightarrow> (\<And>t. R t (g t)) \<Longrightarrow> obeys R (\<lambda>t. f (g t))"
  unfolding obeys_def by (meson trans)

lemma choice: "obeys R f \<Longrightarrow> obeys R g \<Longrightarrow> obeys R (\<lambda>t. if b t then f t else g t)"
  by (simp add: obeys_def)

lemma diag: "(\<And>a. obeys R (f a)) \<Longrightarrow> obeys R (\<lambda>t. f t t)"
  by (simp add: obeys_def)

lemma put: "obeys R (\<lambda>t. put_cell (i t) (v t) t)"
  by (auto simp: obeys_def put_cell_def intro!: frame split: if_splits)

lemma move: "obeys R (move_cell d s)"
  by (auto simp: obeys_def move_cell_def put_cell_def intro!: frame split: if_splits)

lemma scroll: "obeys R terminal_scroll"
  unfolding terminal_scroll_def by (intro andthen loop move put)

lemma scroll_if: "obeys R scroll_if_below"
  unfolding scroll_if_below_def by (intro choice andthen scroll pure frame) simp_all

lemma finish: "obeys R finish_char"
  unfolding finish_char_def by (intro andthen scroll_if pure frame) simp_all

lemma fill: "obeys R fill_screen"
  unfolding fill_screen_def by (intro loop put)

lemma clear: "obeys R terminal_clear"
  unfolding terminal_clear_def by (intro andthen pure after [OF fill] frame) simp_all

lemma finish_of: "(\<And>t. R t (g t)) \<Longrightarrow> obeys R (\<lambda>t. finish_char (g t))"
  by (rule after [OF finish])

lemma put_then:
  assumes "obeys R h" "\<And>t. R t (g t)"
  shows "obeys R (\<lambda>t. andthen (put_cell (i t) (v t) (g t)) h)"
proof (rule andthen [OF _ assms(1)])
  have "R t (g t\<lparr>terminal_buffer := b\<rparr>)" for t b
    by (rule trans [OF assms(2) frame]) simp_all
  then show "obeys R (\<lambda>t. put_cell (i t) (v t) (g t))"
    unfolding obeys_def put_cell_def by (auto split: if_splits)
qed

end

text \<open>An order that the pager respects too.\<close>

locale pager_order = screen_order +
  assumes prompt: "pager_enabled t \<Longrightarrow> pager_prompt t = Inr t' \<Longrightarrow> R t t'"
begin

lemma newline:
  assumes "\<And>t. p t \<Longrightarrow> pager_enabled (g t)" "\<And>t. R t (g t)" "\<And>t. R t (h t)" "\<And>t. R t (k t)"
  shows "obeys R (\<lambda>t. if p t then if b t then pager_prompt (g t) else finish_char (h t) else finish_char (k t))"
proof -
  have "R t t'" if "p t" "pager_prompt (g t) = Inr t'" for t t'
    by (rule trans [OF assms(2) prompt [OF assms(1)]]) (fact that)+
  then show ?thesis
    using finish_of [OF assms(3)] finish_of [OF assms(4)] by (simp add: obeys_def)
qed

lemma putchar: "obeys R (terminal_putchar c)"
proof (cases "c = 10")
  case True
  then show ?thesis
    unfolding terminal_putchar_def Let_def by (simp only: True if_True refl) (rule newline; simp add: frame)
next
  case False
  then show ?thesis
    unfolding terminal_putchar_def Let_def
    by (simp only: False if_False) (intro choice put_then finish_of finish; simp add: frame)
qed

lemma writes: "obeys R (terminal_write s)"
  unfolding terminal_write_def by (intro loop putchar)

lemma writestring: "obeys R (terminal_writestring s)"
proof (induction s)
  case (Cons c s)
  have "obeys R (\<lambda>t. andthen (terminal_putchar c t) (terminal_writestring s))"
    by (rule andthen [OF putchar Cons])
  then show ?case by (simp add: obeys_def frame)
qed (simp add: obeys_def frame)

lemma kprintf: "obeys R (\<lambda>t. case kprintf fmt args t of None \<Rightarrow> Inl Fault | Some r \<Rightarrow> r)"
  using writes by (cases "kprintf_chars fmt args") (auto simp: obeys_def kprintf_def)

end

section \<open>No keys are added\<close>

definition fewer_keys :: "screen \<Rightarrow> screen \<Rightarrow> bool" where
  "fewer_keys t t' \<longleftrightarrow> length (keys t') \<le> length (keys t)"

interpretation fewer: screen_order fewer_keys
  by unfold_locales (auto simp: fewer_keys_def)

text \<open>The prompt takes one.\<close>

lemma fewer_keys_take:
  assumes "obeys fewer_keys f" "\<And>k. obeys fewer_keys (g k)"
  shows "obeys fewer_keys (\<lambda>t. case keys t of [] \<Rightarrow> Inl Waiting
    | k # ks \<Rightarrow> andthen (f (t\<lparr>terminal_color := c, keys := ks\<rparr>)) (g k))"
  unfolding obeys_def
proof (intro allI impI)
  fix t t' assume t: "(case keys t of [] \<Rightarrow> Inl Waiting
    | k # ks \<Rightarrow> andthen (f (t\<lparr>terminal_color := c, keys := ks\<rparr>)) (g k)) = Inr t'"
  then obtain k ks where k: "keys t = k # ks" by (cases "keys t") auto
  with t obtain u where "f (t\<lparr>terminal_color := c, keys := ks\<rparr>) = Inr u" "g k u = Inr t'"
    by (auto simp: andthen_Inr_iff)
  from obeysD [OF assms(1) this(1)] obeysD [OF assms(2) this(2)] k
  show "fewer_keys t t'" by (simp add: fewer_keys_def)
qed

lemma fewer_keys_after_prompt: "obeys fewer_keys (\<lambda>t. let t = t\<lparr>terminal_column := 0, pager_lines := 0\<rparr> in
    if b then Inr (t\<lparr>pager_enabled := False\<rparr>) else finish_char t)"
  unfolding Let_def by (intro fewer.choice fewer.finish_of fewer.pure) (simp_all add: fewer_keys_def)

lemma fewer_keys_prompt: "obeys fewer_keys pager_prompt"
proof -
  let ?msg = "\<lambda>idx. loop (\<lambda>i t. put_cell (idx + i) (vga_entry (pager_msg ! i) (terminal_color t)) t) [0 ..< length pager_msg]"
  let ?row = "\<lambda>c. loop (\<lambda>x t. put_cell (terminal_row t * 80 + x) (vga_entry (byte CHR '' '') c) t) [0 ..< 80]"
  have "obeys fewer_keys (\<lambda>t. andthen (scroll_if_below (t\<lparr>terminal_color := vga_entry_color 0 7\<rparr>)) (\<lambda>t.
      andthen (?msg (terminal_row t * 80 + terminal_column t) t) (\<lambda>t. case keys t of [] \<Rightarrow> Inl Waiting
        | k # ks \<Rightarrow> andthen (?row c (t\<lparr>terminal_color := c, keys := ks\<rparr>)) (\<lambda>t.
                let t = t\<lparr>terminal_column := 0, pager_lines := 0\<rparr> in
                if k = byte CHR ''q'' \<or> k = byte CHR ''Q''
                then Inr (t\<lparr>pager_enabled := False\<rparr>) else finish_char t))))" for c
    by (rule fewer.andthen, rule fewer.after [OF fewer.scroll_if], simp add: fewer_keys_def, rule fewer.andthen,
        rule fewer.diag, (rule fewer.loop, rule fewer.put), rule fewer_keys_take,
        (rule fewer.loop, rule fewer.put), rule fewer_keys_after_prompt)
  then have "obeys fewer_keys (\<lambda>t. pager_prompt t)"
    unfolding pager_prompt_def Let_def by (rule fewer.diag)
  then show ?thesis .
qed

interpretation fewer: pager_order fewer_keys
  by unfold_locales (rule obeysD [OF fewer_keys_prompt])

section \<open>With the pager off the keys stay\<close>

definition same_keys :: "screen \<Rightarrow> screen \<Rightarrow> bool" where
  "same_keys t t' \<longleftrightarrow> (\<not> pager_enabled t \<longrightarrow> keys t' = keys t \<and> \<not> pager_enabled t')"

interpretation same: pager_order same_keys
  by unfold_locales (auto simp: same_keys_def)

end
