(* ===== verification/KeyFuel.thy ===== *)
theory KeyFuel
  imports ScreenKeys
begin

text \<open>
  The bounds on the loops that read keys: output never adds to the keys to come, every round of such
  a loop takes one, and so the bound \<open>Suc (pending s)\<close> is never reached: any larger one gives the same
  result.
\<close>

section \<open>Pieces of the shell that add no keys\<close>

definition no_keys :: "(shell \<Rightarrow> stop + shell) \<Rightarrow> bool" where
  "no_keys f \<longleftrightarrow> (\<forall>s s'. f s = Inr s' \<longrightarrow> pending s' \<le> pending s)"

named_theorems no_keys_intros

lemma no_keysD: "no_keys f \<Longrightarrow> f s = Inr s' \<Longrightarrow> pending s' \<le> pending s"
  by (simp add: no_keys_def)

lemma no_keys_steps [no_keys_intros]: "(\<And>f. f \<in> set fs \<Longrightarrow> no_keys f) \<Longrightarrow> no_keys (steps fs)"
proof (induction fs)
  case (Cons f fs)
  then have "no_keys f" "no_keys (steps fs)" by simp_all
  then show ?case unfolding no_keys_def steps.simps andthen_Inr_iff by (meson order_trans)
qed (simp add: no_keys_def)

lemma no_keys_loop [no_keys_intros]: "(\<And>x. no_keys (f x)) \<Longrightarrow> no_keys (loop f xs)"
proof (induction xs)
  case (Cons x xs)
  then have "no_keys (f x)" "no_keys (loop f xs)" by simp_all
  then show ?case unfolding no_keys_def loop.simps andthen_Inr_iff by (meson order_trans)
qed (simp add: no_keys_def)

lemma no_keys_screen: "obeys fewer_keys f \<Longrightarrow> no_keys (on_screen f)"
  unfolding no_keys_def on_screen_def andthen_Inr_iff
  by (auto simp: pending_def pending_keys_def fewer_keys_def dest: obeysD)

lemma no_keys_putc [no_keys_intros]: "no_keys (putc c)"
  unfolding putc_def by (intro no_keys_screen fewer.putchar)

lemma no_keys_puts [no_keys_intros]: "no_keys (puts str)"
  unfolding puts_def by (intro no_keys_screen fewer.writestring)

lemma no_keys_colour [no_keys_intros]: "no_keys (colour fg bg)"
  unfolding colour_def by (intro no_keys_screen fewer.pure fewer.frame) (simp_all add: terminal_setcolor_def)

lemma no_keys_clear [no_keys_intros]: "no_keys clear"
  unfolding clear_def by (intro no_keys_screen fewer.clear)

lemma no_keys_say [no_keys_intros]: "no_keys (say fmt args)"
  unfolding say_def by (intro no_keys_screen fewer.kprintf)

section \<open>A key is one key less\<close>

lemma getchar_pending: "getchar s = Inr (s', c) \<Longrightarrow> pending s = Suc (pending s')"
proof -
  have "wait_key (halts s) s = Inr (s', c) \<Longrightarrow> pending s = Suc (pending s')"
  proof (induction "halts s" arbitrary: s)
    case Nil
    then show ?case
      by (auto simp: wait_key.simps [of "[]"] take_key.simps pending_def set_keys_def pending_keys_def split: if_splits list.splits)
  next
    case (Cons h hs)
    obtain t ks where h: "h = (t, ks)" by (cases h)
    show ?case
    proof (cases "pending_keys s = []")
      case True
      have "pending s = pending (after_halt t ks hs s)"
        using True Cons(2) h by (simp add: pending_def after_halt_def set_keys_def set_ticks_def pending_keys_def flip: Cons(2))
      moreover have "halts (after_halt t ks hs s) = hs" by (simp add: after_halt_def)
      ultimately show ?thesis
        using Cons(1) [of "after_halt t ks hs s"] Cons(3) True h by (simp add: wait_key.simps [of "(t, ks) # hs"] flip: Cons(2))
    next
      case False
      then show ?thesis using Cons(3)
        by (auto simp: wait_key.simps [of "_ # _"] take_key.simps pending_def set_keys_def pending_keys_def
            simp flip: Cons(2) split: list.splits)
    qed
  qed
  then show "getchar s = Inr (s', c) \<Longrightarrow> ?thesis" by (simp add: getchar_def)
qed

text \<open>With a handler that adds no keys, every bound above the keys to come gives the same.\<close>

definition handler_ok :: "(u8 \<Rightarrow> 'l \<times> shell \<Rightarrow> stop + bool \<times> 'l \<times> shell) \<Rightarrow> bool" where
  "handler_ok f \<longleftrightarrow> (\<forall>c ls go ls'. f c ls = Inr (go, ls') \<longrightarrow> pending (snd ls') \<le> pending (snd ls))"

lemma handler_okD: "handler_ok f \<Longrightarrow> f c ls = Inr (go, ls') \<Longrightarrow> pending (snd ls') \<le> pending (snd ls)"
  unfolding handler_ok_def by blast

lemma key_loop_bound:
  assumes "handler_ok f"
  shows "pending (snd ls) < k \<Longrightarrow> key_loop k f ls = key_loop (Suc (pending (snd ls))) f ls"
proof (induction k arbitrary: ls rule: less_induct)
  case (less k)
  obtain l s where ls: "ls = (l, s)" by (cases ls)
  obtain k' where k: "k = Suc k'" using less.prems by (cases k) auto
  have "andthen (f c (l, s')) (\<lambda>(go, ls). if go then key_loop k' f ls else Inr ls)
      = andthen (f c (l, s')) (\<lambda>(go, ls). if go then key_loop (pending s) f ls else Inr ls)"
    if g: "getchar s = Inr (s', c)" for s' c
  proof (cases "f c (l, s')")
    case (Inr r)
    obtain go ls' where r: "r = (go, ls')" by (cases r)
    have p: "pending s = Suc (pending s')" by (rule getchar_pending [OF g])
    moreover have "pending (snd ls') \<le> pending s'" using handler_okD [OF assms] Inr r by fastforce
    ultimately have "pending (snd ls') < k'" "pending (snd ls') < pending s" "pending s \<le> k'"
      using less.prems k ls by auto
    then have "key_loop k' f ls' = key_loop (pending s) f ls'"
      using less.IH [of k' ls'] less.IH [of "pending s" ls'] k by simp
    with Inr r show ?thesis by simp
  qed simp
  then show ?case
    by (cases "getchar s") (auto simp: k ls)
qed

lemma key_loop_pending:
  assumes "handler_ok f" "key_loop k f ls = Inr ls'"
  shows "pending (snd ls') \<le> pending (snd ls)"
  using assms(2)
proof (induction k arbitrary: ls)
  case (Suc k)
  obtain l s where ls: "ls = (l, s)" by (cases ls)
  from Suc.prems obtain s1 c go ls1 where r: "getchar s = Inr (s1, c)" "f c (l, s1) = Inr (go, ls1)"
    "(if go then key_loop k f ls1 else Inr ls1) = Inr ls'"
    by (auto simp: ls andthen_Inr_iff)
  have "pending s1 \<le> pending s" using getchar_pending [OF r(1)] by simp
  moreover have "pending (snd ls1) \<le> pending s1" using handler_okD [OF assms(1) r(2)] by simp
  moreover have "pending (snd ls') \<le> pending (snd ls1)" using r(3) Suc.IH [of ls1] by (auto split: if_splits)
  ultimately show ?case by (simp add: ls)
qed simp

end
