(* ===== verification/Dispatch.thy ===== *)
theory Dispatch
  imports KeyFuel
begin

text \<open>
  The shell as a whole: the table of commands, the dispatch of a line, a round of the shell's loop and
  the login, all safe, and the loops that read keys never end for want of fuel.
\<close>

section \<open>The calculator and the list of notes\<close>

text \<open>The calculator is safe when its operands are numbers in range and so is the result: it prints what
  it is given, and only the most negative \<open>int\<close> cannot be printed.\<close>

definition calculable :: "u8 list list \<Rightarrow> bool" where
  "calculable argv \<longleftrightarrow> length argv < 4 \<or>
     (case (atoi (argv ! 1), atoi (argv ! 3)) of
        (Some a, Some b) \<Rightarrow>
          let opr = hdc (argv ! 2) in
          opr \<notin> set (bytes ''+-*/'') \<or> (opr = byte CHR ''/'' \<and> b = 0)
          \<or> (case calc_result a opr b of Some r \<Rightarrow> - 2147483648 < r | None \<Rightarrow> False)
      | _ \<Rightarrow> False)"

lemma calc_result_range: "calc_result a opr b = Some r \<Longrightarrow> r < 2147483648"
  by (auto simp: calc_result_def cint_def split: if_splits)

lemma keeps_cmd_calc:
  assumes "calculable argv"
  shows "keeps (cmd_calc argv)"
proof (cases "length argv < 4")
  case True
  then have "cmd_calc argv = say (ln ''  calc <n> <op> <n>'') []" by (simp add: cmd_calc_def fun_eq_iff)
  then show ?thesis by (auto intro: keeps_text)
next
  case False
  with assms obtain a b where ab: "atoi (argv ! 1) = Some a" "atoi (argv ! 3) = Some b"
    by (auto simp: calculable_def split: option.splits)
  let ?opr = "hdc (argv ! 2)"
  have shown: "keeps (steps [colour VGA_LIGHT_GREEN VGA_BLACK,
      say (ln ''  %d %c %d = %d'') [int_arg a, Word (ucast ?opr), int_arg b, int_arg r], colour VGA_LIGHT_GREY VGA_BLACK])"
    if "calc_result a ?opr b = Some r" "- 2147483648 < r" for r
    using that calc_result_range [OF that(1)] atoi_range [OF ab(1)] atoi_range [OF ab(2)]
    by (intro keeps_steps) (auto intro!: keeps_colour keeps_say simp: fits_eval int_arg_def signed_word_ok)
  have bad: "keeps (steps [say (ln ''  Bad op'') [], colour VGA_LIGHT_GREY VGA_BLACK])"
    by (rule keeps_steps) (auto intro!: keeps_colour keeps_text)
  have zero: "keeps (say (ln ''  /0!'') [])" by (rule keeps_text) simp
  show ?thesis
    using False assms ab shown bad zero
    by (auto simp: keeps_def cmd_calc_def calculable_def Let_def simp del: steps.simps split: option.splits if_splits)
qed

text \<open>Listing the notes; writing one can overflow the array the old notes are read into.\<close>

lemma keeps_cmd_note: "length argv < 2 \<Longrightarrow> keeps (cmd_note argv)"
  using keeps_note_list by (simp add: keeps_def cmd_note_def)

section \<open>The dispatch\<close>

lemma costs_mono: "costs m f \<Longrightarrow> m \<le> k \<Longrightarrow> costs k f"
  unfolding costs_def by (meson add_left_mono sh_inv_less)

lemma keeps_pager: "keeps (on_screen (\<lambda>t. Inr (terminal_enable_pager t)))" "keeps (on_screen (\<lambda>t. Inr (terminal_disable_pager t)))"
  by (rule keeps_on_screen; simp add: terminal_enable_pager_def terminal_disable_pager_def vga_ok_def)+

lemma keeps_with_pager: "keeps f \<Longrightarrow> keeps (with_pager f)"
  unfolding with_pager_def using keeps_pager by (intro keeps_steps) auto

lemma keeps_cmd_unknown: "keeps (cmd_unknown nm)"
  unfolding cmd_unknown_def by (rule keeps_steps) (auto intro!: keeps_colour keeps_text keeps_say simp: fits_eval)

lemma keeps_machine_stops: "keeps machine_stops"
  by (simp add: keeps_def machine_stops_def)

lemma keeps_stops: "keeps cmd_halt" "keeps cmd_reboot" "keeps cmd_panic"
  unfolding cmd_halt_def cmd_reboot_def cmd_panic_def
  by (rule keeps_steps; auto intro!: keeps_colour keeps_text keeps_machine_stops)+

text \<open>The commands with arithmetic on keys typed while they run, and those that run such a command or
  read the names in a listing back.\<close>

definition partial_commands :: "string list" where
  "partial_commands = [''game'', ''menu'', ''files'']"

text \<open>The commands that read numbers from their arguments.\<close>

definition number_commands :: "string list" where
  "number_commands = [''kill'', ''color'']"

definition env_ok :: "shell_env \<Rightarrow> bool" where
  "env_ok env \<longleftrightarrow> length (se_junkx env) = 200 \<and> length (se_junky env) = 200"

definition tame :: "u8 list list \<Rightarrow> string \<Rightarrow> bool" where
  "tame argv nm \<longleftrightarrow> nm \<notin> set partial_commands \<and> (nm \<in> set number_commands \<longrightarrow> numeric argv)
     \<and> (nm = ''calc'' \<longrightarrow> calculable argv) \<and> (nm = ''note'' \<longrightarrow> length argv < 2)"

lemma commands_cost:
  assumes "env_ok env" "args_ok argv"
  shows "\<forall>(nm, f) \<in> set (commands env argv). tame argv nm \<longrightarrow> costs 3 f"
proof -
  have n: "keeps (cmd_color argv)" if "numeric argv" using that by (intro keeps_cmd_color) (simp add: numeric_def)
  have k: "costs 3 (cmd_kill argv)" if "numeric argv" using costs_mono [OF costs_cmd_kill [OF that]] by simp
  have snake: "keeps (cmd_snake (se_junkx env) (se_junky env))" using assms(1) by (intro keeps_cmd_snake) (simp_all add: env_ok_def)
  show ?thesis
    unfolding commands_def tame_def partial_commands_def number_commands_def
    using assms(2) n k snake
    by (simp add: keeps_costs keeps_with_pager keeps_stops keeps_intros keeps_cmd_write costs_cmd_spawn
        keeps_cmd_calc keeps_cmd_note)
qed

lemma dispatch_costs:
  assumes "\<forall>(nm, f) \<in> set cs. strcmp w (bytes nm) = 0 \<longrightarrow> costs 3 f"
  shows "costs 3 (dispatch w cs)"
  using assms
proof (induction cs)
  case Nil
  have "keeps (dispatch w [])" using keeps_cmd_unknown [of w] by (simp add: keeps_def)
  then show ?case by (rule keeps_costs)
next
  case (Cons c cs)
  obtain nm f where c: "c = (nm, f)" by (cases c)
  from Cons show ?case by (cases "strcmp w (bytes nm) = 0") (simp_all add: c costs_def)
qed

text \<open>A line that names none of the partial commands, with numbers where a command takes one, a sum
  that can be worked out after \<^verbatim>\<open>calc\<close> and nothing after \<^verbatim>\<open>note\<close>.\<close>

definition safe_words :: "u8 list list \<Rightarrow> bool" where
  "safe_words ws \<longleftrightarrow> (case ws of [] \<Rightarrow> True
     | w # _ \<Rightarrow> w \<notin> set (map bytes partial_commands) \<and> (w \<in> set (map bytes number_commands) \<longrightarrow> numeric ws)
         \<and> (w = bytes ''calc'' \<longrightarrow> calculable ws) \<and> (w = bytes ''note'' \<longrightarrow> length ws < 2))"

definition safe_line :: "u8 list \<Rightarrow> bool" where
  "safe_line line \<longleftrightarrow> safe_words (take 16 (line_words (cstr line)))"

lemma line_words_chars: "w \<in> set (line_words s) \<Longrightarrow> set w \<subseteq> set s"
proof (induction s rule: line_words.induct)
  case (2 c s)
  show ?case
  proof (cases "c = 32 \<or> w = c # takeWhile (\<lambda>c. c \<noteq> 32) s")
    case True
    with 2 show ?thesis by (auto split: if_splits dest: set_takeWhileD)
  next
    case False
    with 2(2,3) have "set w \<subseteq> set (dropWhile (\<lambda>c. c \<noteq> 32) s)" by simp
    then show ?thesis by (auto dest: set_dropWhileD)
  qed
qed simp

lemma execute_command_yields:
  assumes "env_ok env" "sh_inv (n + 3) s" "line_ok (cmd_buffer s)" "safe_line (cmd_buffer s)"
  shows "yields (sh_inv n) (execute_command env s)"
proof -
  let ?ws = "take 16 (line_words (cstr (cmd_buffer s)))"
  from assms(3) argv_of_words [of "cmd_buffer s"] obtain buf where
    a: "argv_of (cmd_buffer s) = Some (buf, ?ws)" "length buf = 256" by (auto simp: line_ok_def)
  let ?s = "s\<lparr>cmd_buffer := buf\<rparr>"
  have s: "sh_inv (n + 3) ?s"
    using sh_inv_editor_ok [OF assms(2)] a(2) by (intro sh_inv_editor [OF assms(2)]) (simp_all add: editor_ok_def)
  show ?thesis
  proof (cases ?ws)
    case Nil
    with a sh_inv_less [OF s, of n] show ?thesis by (simp add: execute_command_def)
  next
    case (Cons w ws)
    have plain: "0 \<notin> set (bytes nm)" if "nm \<in> {''calc'', ''note''} \<union> set partial_commands \<union> set number_commands" for nm
      using that by (auto simp: partial_commands_def number_commands_def)
    have "w \<in> set (line_words (cstr (cmd_buffer s)))" using Cons in_set_takeD [of w 16] by fastforce
    then have w: "cstr w = w" using line_words_chars cstr_no_nul [of "cmd_buffer s"] by (intro cstr_id) blast
    have "tame ?ws nm" if "strcmp (?ws ! 0) (bytes nm) = 0" for nm
      using that assms(4) w Cons plain [of nm]
      by (auto simp: strcmp_eq_0 safe_line_def safe_words_def tame_def cstr_id)
    then have "\<forall>(nm, f) \<in> set (commands env ?ws). strcmp (?ws ! 0) (bytes nm) = 0 \<longrightarrow> costs 3 f"
      using commands_cost [OF assms(1) args_ok_words [OF assms(3)], of 16] by fast
    from costsD [OF dispatch_costs [OF this] s] a Cons show ?thesis by (simp add: execute_command_def)
  qed
qed

section \<open>The loop of the shell\<close>

lemma shell_turn_yields:
  assumes "env_ok env" "sh_inv (n + 3) s" "\<And>s'. read_line s = Inr s' \<Longrightarrow> safe_line (cmd_buffer s')"
  shows "yields (sh_inv n) (shell_turn env s)"
  unfolding shell_turn_def
proof (rule yields_andthen_eq [OF read_line_yields [OF assms(2)]])
  fix s' assume r: "read_line s = Inr s'" and i: "sh_inv (n + 3) s' \<and> line_ok (cmd_buffer s')"
  have "cmd_buffer s'' = cmd_buffer s'" if "history_add (cmd_buffer s') s' = Some s''" for s''
    using history_add_step [OF sh_inv_editor_ok, of "n + 3" s' "cmd_buffer s'"] i that by auto
  then have "yields (sh_inv n) (andthen (or_fault (history_add (cmd_buffer s') s')) (execute_command env))"
    using i assms(3) [OF r]
    by (intro yields_andthen_eq [OF history_add_yields [of "n + 3"]] execute_command_yields [OF assms(1)])
      (simp_all add: or_fault_Inr)
  then show "yields (sh_inv n) (if cmd_len s' > 0
      then andthen (or_fault (history_add (cmd_buffer s') s')) (execute_command env) else Inr s')"
    using i by (auto intro: sh_inv_less)
qed

text \<open>Rounds in which only safe lines are typed.\<close>

fun safe_turns :: "shell_env \<Rightarrow> nat \<Rightarrow> shell \<Rightarrow> bool" where
  "safe_turns env 0 s \<longleftrightarrow> True"
| "safe_turns env (Suc n) s \<longleftrightarrow>
     (case read_line s of Inr s' \<Rightarrow> safe_line (cmd_buffer s') | Inl _ \<Rightarrow> True)
     \<and> (case shell_turn env s of Inr s' \<Rightarrow> safe_turns env n s' | Inl _ \<Rightarrow> True)"

lemma shell_turns_yields:
  "env_ok env \<Longrightarrow> sh_inv (m + 3 * n) s \<Longrightarrow> safe_turns env n s \<Longrightarrow> yields (sh_inv m) (shell_turns env n s)"
proof (induction n arbitrary: s)
  case (Suc n)
  have "sh_inv (m + 3 * n + 3) s" using Suc.prems(2) by (simp add: algebra_simps)
  from shell_turn_yields [OF Suc.prems(1) this] Suc.prems(3)
  have "yields (sh_inv (m + 3 * n)) (shell_turn env s)" by (auto split: sum.splits)
  then show ?case using Suc.prems(1,3) Suc.IH
    by (auto intro!: yields_andthen_eq [of "sh_inv (m + 3 * n)"])
qed simp

section \<open>The login\<close>

lemma ask_yields:
  assumes "37 \<notin> set prompt" "sh_inv n s"
  shows "yields (\<lambda>(b, s). 0 \<in> set b \<and> sh_inv n s) (ask prompt echo s)"
proof -
  have k: "keeps (steps [colour VGA_LIGHT_GREY VGA_BLACK, say prompt [], colour VGA_WHITE VGA_BLACK])"
    using assms(1) by (intro keeps_steps) (auto intro!: keeps_colour keeps_text)
  show ?thesis
    unfolding ask_def
    by (rule yields_andthen [OF keepsD [OF k assms(2)]], rule yields_andthen [OF read_field_yields], assumption)
      (auto dest: field_ok_nul)
qed

lemma keeps_login_refused: "- 2147483648 < a \<Longrightarrow> a < 2147483648 \<Longrightarrow> f \<in> set (login_refused a) \<Longrightarrow> keeps f"
  by (auto simp: login_refused_def fits_eval signed_word_ok intro!: keeps_colour keeps_text keeps_say split: if_splits)

lemma login_loop_yields:
  "sh_inv n s \<Longrightarrow> 0 \<le> a \<Longrightarrow> a + int k < 2147483648 \<Longrightarrow> yields (sh_inv n) (login_loop k a s)"
proof (induction k arbitrary: a s)
  case (Suc k)
  have in1: "yields (sh_inv n) (steps [colour VGA_LIGHT_GREEN VGA_BLACK,
              say (10 # ln ''                       Authenticated. Welcome, %s.'') [Str (Some user)],
              busy_wait 150, clear] s)" if "sh_inv n s" for user s
    using that by (intro keepsD [OF keeps_steps]) (auto intro!: keeps_colour keeps_say keeps_clear keeps_busy_wait simp: fits_eval)
  have refused: "yields (sh_inv n) (andthen (or_fault (cint (a + 1))) (\<lambda>a.
              andthen (steps (login_refused a) s) (login_loop k a)))" if "sh_inv n s" for s
  proof -
    have "keeps (steps (login_refused (a + 1)))" using Suc.prems by (intro keeps_steps keeps_login_refused) auto
    then have "yields (sh_inv n) (andthen (steps (login_refused (a + 1)) s) (login_loop k (a + 1)))"
      using Suc.prems by (intro yields_andthen [OF keepsD [OF _ that]] Suc.IH) auto
    with Suc.prems show ?thesis by (simp add: cint_def)
  qed
  show ?case
    unfolding login_loop.simps
    by (rule yields_andthen [OF ask_yields], simp, rule Suc.prems, clarify, rule yields_andthen [OF ask_yields], simp,
        assumption) (auto intro: in1 refused simp del: steps.simps)
qed simp

lemma keeps_login_banner: "f \<in> set (login_banner v) \<Longrightarrow> keeps f"
  by (auto simp: login_banner_def fits_eval intro!: keeps_colour keeps_text keeps_say)


text \<open>Nothing before the login loop adds keys, so the attempts stay below the largest \<open>int\<close>.\<close>

lemma no_keys_login_banner: "f \<in> set (login_banner v) \<Longrightarrow> no_keys f"
  by (auto simp: login_banner_def intro!: no_keys_colour no_keys_say)

lemma login_screen_yields:
  assumes "sh_inv n s" "pending s < 2147483646"
  shows "yields (sh_inv n) (login_screen v s)"
  unfolding login_screen_def
proof (rule yields_andthen_eq [OF keepsD [OF keeps_clear assms(1)]])
  fix s1 assume 1: "clear s = Inr s1" "sh_inv n s1"
  have "keeps (steps (login_banner v))" by (rule keeps_steps) (rule keeps_login_banner)
  then show "yields (sh_inv n) (andthen (steps (login_banner v) s1) (\<lambda>s. login_loop (Suc (pending s)) 0 s))"
  proof (rule yields_andthen_eq [OF keepsD [OF _ 1(2)]])
    fix s2 assume 2: "steps (login_banner v) s1 = Inr s2" "sh_inv n s2"
    have "no_keys (steps (login_banner v))" by (rule no_keys_steps) (rule no_keys_login_banner)
    from no_keysD [OF this 2(1)] no_keysD [OF no_keys_clear 1(1)] assms(2)
    have "pending s2 < 2147483646" by simp
    then show "yields (sh_inv n) (login_loop (Suc (pending s2)) 0 s2)"
      by (intro login_loop_yields [OF 2(2)]) simp_all
  qed
qed

section \<open>The loops end\<close>

lemma erase_line_pending: "erase_line s = Inr s' \<Longrightarrow> pending s' \<le> pending s"
proof -
  have "no_keys (loop (\<lambda>_. putc 8) [0 ..< cmd_len s])" by (intro no_keys_loop no_keys_putc)
  then show "erase_line s = Inr s' \<Longrightarrow> ?thesis"
    by (auto simp: erase_line_def andthen_Inr_iff pending_def pending_keys_def dest: no_keysD)
qed

lemma pending_editor: "sh_sys s' = sh_sys s \<Longrightarrow> halts s' = halts s \<Longrightarrow> pending s' = pending s"
  by (simp add: pending_def pending_keys_def)

lemma recall_pending: "recall i s = Inr s' \<Longrightarrow> pending s' \<le> pending s"
proof -
  assume "recall i s = Inr s'"
  then obtain s1 b where "erase_line (s\<lparr>history_pos := i\<rparr>) = Inr s1" "puts b (s1\<lparr>cmd_buffer := b, cmd_len := strlen b\<rparr>) = Inr s'"
    by (auto simp: recall_def andthen_Inr_iff)
  from erase_line_pending [OF this(1)] no_keysD [OF no_keys_puts this(2)] show ?thesis
    by (simp add: pending_def pending_keys_def)
qed

lemma edit_key_handler: "handler_ok edit_key"
  unfolding handler_ok_def
proof (intro allI impI)
  fix c us go us' assume e: "edit_key c us = Inr (go, us')"
  obtain s where us: "us = ((), s)" by (metis old.unit.exhaust surj_pair)
  have p: "pending (s\<lparr>cmd_buffer := b, cmd_len := k, history_pos := j\<rparr>) = pending s" for b k j
    by (rule pending_editor) simp_all
  show "pending (snd us') \<le> pending (snd us)"
    using e unfolding us edit_key_def Let_def
    by (auto simp: andthen_Inr_iff pending_def pending_keys_def split: if_splits
        dest!: no_keysD [OF no_keys_putc] erase_line_pending recall_pending)
qed

lemma field_key_handler: "handler_ok (field_key lim echo newline)"
  unfolding handler_ok_def field_key_def
  by (auto simp: andthen_Inr_iff split: if_splits dest!: no_keysD [OF no_keys_putc])

end
