(* ===== verification/Typing.thy ===== *)
theory Typing
  imports Dispatch
begin

text \<open>
  What a typed line does: with its characters in the keyboard buffer, a field and the shell's line
  editor end with the text that the keys spell, and the shell runs the command of its words.
\<close>

section \<open>Keys that are there\<close>

definition calm :: "shell \<Rightarrow> bool" where
  "calm s \<longleftrightarrow> \<not> pager_enabled (s_term (sh_sys s))"

lemma getchar_typed: "pending_keys s = c # ks \<Longrightarrow> getchar s = Inr (set_keys ks s, c)"
  unfolding getchar_def by (cases "halts s") (simp_all add: wait_key.simps [of "[]"] wait_key.simps [of "_ # _"] take_key.simps)

lemma set_keys_simps [simp]:
  "pending_keys (set_keys ks s) = ks" "calm (set_keys ks s) = calm s" "cmd_buffer (set_keys ks s) = cmd_buffer s"
  "cmd_len (set_keys ks s) = cmd_len s" "history (set_keys ks s) = history s" "history_count (set_keys ks s) = history_count s"
  by (simp_all add: set_keys_def pending_keys_def calm_def)

definition calm_at :: "nat \<Rightarrow> u8 list \<Rightarrow> shell \<Rightarrow> bool" where
  "calm_at n ks s \<longleftrightarrow> sh_inv n s \<and> calm s \<and> pending_keys s = ks"

lemma calm_at_key: "calm_at n (c # ks) s \<Longrightarrow> calm_at n ks (set_keys ks s)"
  by (simp add: calm_at_def sh_inv_keys)

text \<open>Output with the pager off.\<close>

definition calmly :: "(shell \<Rightarrow> stop + shell) \<Rightarrow> bool" where
  "calmly f \<longleftrightarrow> (\<forall>n ks s. calm_at n ks s \<longrightarrow> (\<exists>y. f s = Inr (s\<lparr>sh_sys := y\<rparr>) \<and> calm_at n ks (s\<lparr>sh_sys := y\<rparr>)))"

lemma calmlyD: "calmly f \<Longrightarrow> calm_at n ks s \<Longrightarrow> \<exists>y. f s = Inr (s\<lparr>sh_sys := y\<rparr>) \<and> calm_at n ks (s\<lparr>sh_sys := y\<rparr>)"
  by (simp add: calmly_def)

lemma calmly_screen:
  assumes "\<And>t. vga_ok t \<Longrightarrow> good_outcome t (f t)" "obeys same_keys f"
  shows "calmly (on_screen f)"
  unfolding calmly_def
proof (intro allI impI)
  fix n ks s assume c: "calm_at n ks s"
  let ?t = "s_term (sh_sys s)"
  have s: "sh_inv n s" "\<not> pager_enabled ?t" "keys ?t = ks"
    using c by (simp_all add: calm_at_def calm_def pending_keys_def)
  then have "vga_ok ?t" by (simp add: sh_inv_def sys_inv_def)
  from assms(1) [OF this] s(2) obtain t' where t': "f ?t = Inr t'"
    by (auto simp: good_outcome_def split: sum.splits stop.splits)
  have "same_keys ?t t'" by (rule obeysD [OF assms(2) t'])
  moreover have "yields (sh_inv n) (on_screen f s)"
    by (rule keepsD [OF keeps_on_screen s(1)]) (rule good_yields, rule assms(1))
  ultimately show "\<exists>y. on_screen f s = Inr (s\<lparr>sh_sys := y\<rparr>) \<and> calm_at n ks (s\<lparr>sh_sys := y\<rparr>)"
    using t' s(2,3) by (auto simp: on_screen_def same_keys_def calm_at_def calm_def pending_keys_def)
qed

lemma calmly_putc: "calmly (putc c)"
  unfolding putc_def by (rule calmly_screen) (auto intro: terminal_putchar_good same.putchar)

lemmas putc_calm = calmlyD [OF calmly_putc]

lemma calmly_colour: "calmly (colour fg bg)"
  unfolding colour_def
proof (rule calmly_screen)
  show "obeys same_keys (\<lambda>t. Inr (terminal_setcolor (vga_entry_color fg bg) t))"
    by (intro same.pure same.frame) (simp_all add: terminal_setcolor_def)
qed (simp add: good_outcome_def terminal_setcolor_def vga_ok_def)

lemma calmly_say:
  assumes "fits fmt args"
  shows "calmly (say fmt args)"
proof -
  obtain out where "kprintf_chars fmt args = Some out" using fits_chars [OF assms] by blast
  then show ?thesis
    unfolding say_def by (intro calmly_screen same.kprintf) (simp add: kprintf_def terminal_write_good)
qed

lemma calmly_steps: "(\<And>f. f \<in> set fs \<Longrightarrow> calmly f) \<Longrightarrow> calmly (steps fs)"
proof (induction fs)
  case Nil
  have "s = s\<lparr>sh_sys := sh_sys s\<rparr>" for s :: shell by simp
  then show ?case unfolding calmly_def steps.simps by metis
next
  case (Cons f fs)
  show ?case
    unfolding calmly_def
  proof (intro allI impI)
    fix n ks s assume "calm_at n ks s"
    then obtain y where y: "f s = Inr (s\<lparr>sh_sys := y\<rparr>)" "calm_at n ks (s\<lparr>sh_sys := y\<rparr>)"
      using calmlyD [of f] Cons.prems by force
    moreover have "calmly (steps fs)" using Cons by simp
    from calmlyD [OF this y(2)] obtain z where "steps fs (s\<lparr>sh_sys := y\<rparr>) = Inr (s\<lparr>sh_sys := z\<rparr>)" "calm_at n ks (s\<lparr>sh_sys := z\<rparr>)"
      by auto
    ultimately show "\<exists>y. steps (f # fs) s = Inr (s\<lparr>sh_sys := y\<rparr>) \<and> calm_at n ks (s\<lparr>sh_sys := y\<rparr>)" by auto
  qed
qed

section \<open>The text that keys spell\<close>

text \<open>Backspace takes back the last character, and only printable characters that fit are added.\<close>

fun typed :: "nat \<Rightarrow> u8 list \<Rightarrow> u8 list \<Rightarrow> u8 list" where
  "typed lim acc [] = acc"
| "typed lim acc (c # ks) = typed lim
     (if c = 8 then butlast acc else if length acc < lim \<and> printable c then acc @ [c] else acc) ks"

lemma typed_length: "length acc \<le> lim \<Longrightarrow> length (typed lim acc ks) \<le> lim"
  by (induction lim acc ks rule: typed.induct) auto

lemma printable_not: "printable c \<Longrightarrow> c \<noteq> 0 \<and> c \<noteq> 1 \<and> c \<noteq> 2 \<and> c \<noteq> 8 \<and> c \<noteq> 10"
  by (auto simp: printable_def word_le_nat_alt)

lemma typed_no_nul: "0 \<notin> set acc \<Longrightarrow> 0 \<notin> set (typed lim acc ks)"
proof (induction lim acc ks rule: typed.induct)
  case (2 lim acc c ks)
  have "0 \<notin> set (if c = 8 then butlast acc else if length acc < lim \<and> printable c then acc @ [c] else acc)"
    using 2(2) printable_not [of c] in_set_butlastD [of 0 acc] by auto
  then show ?case using 2(1) by (simp only: typed.simps simp_thms)
qed simp

text \<open>A buffer whose first bytes are \<open>acc\<close>.\<close>

lemma cstr_end: "take (length acc) b = acc \<Longrightarrow> length acc < length b \<Longrightarrow> 0 \<notin> set acc \<Longrightarrow> cstr (b[length acc := 0]) = acc"
  by (simp add: upd_conv_take_nth_drop)

lemma take_typed: "take (length acc) b = acc \<Longrightarrow> length acc < length b \<Longrightarrow> take (Suc (length acc)) (b[length acc := c]) = acc @ [c]"
  by (simp add: take_Suc_conv_app_nth)

lemma take_erased: "take (length acc) b = acc \<Longrightarrow> take (length acc - Suc 0) b = butlast acc"
  by (metis One_nat_def butlast_conv_take length_take min.absorb_iff2 take_take diff_le_self min.commute)

section \<open>Fields\<close>

lemma field_loop_typed:
  assumes "calm_at n (ks @ 10 # rest) s" "10 \<notin> set ks" "length ks < k"
    and "length b = lim + 1" "length acc \<le> lim" "take (length acc) b = acc" "0 \<notin> set acc"
  shows "\<exists>b' s'. key_loop k (field_key lim echo newline) ((b, length acc), s)
      = Inr ((b', length (typed lim acc ks)), s') \<and> cstr b' = typed lim acc ks \<and> calm_at n rest s'"
  using assms
proof (induction ks arbitrary: s k b acc)
  case Nil
  then obtain k' where k: "k = Suc k'" by (cases k) auto
  let ?s = "set_keys rest s"
  have s: "getchar s = Inr (?s, 10)" "calm_at n rest ?s"
    using Nil(1) getchar_typed [of s 10 rest] calm_at_key [of n 10 rest s] by (simp_all add: calm_at_def)
  obtain s' where "(if newline then putc 10 ?s else Inr ?s) = Inr s'" "calm_at n rest s'"
    using putc_calm [OF s(2), of 10] s(2) by (cases newline) auto
  with s(1) k Nil(4-7) show ?case by (simp add: field_key_def cstr_end)
next
  case (Cons c ks)
  then obtain k' where k: "k = Suc k'" "length ks < k'" by (cases k) auto
  let ?s = "set_keys (ks @ 10 # rest) s"
  have s: "getchar s = Inr (?s, c)" "calm_at n (ks @ 10 # rest) ?s"
    using Cons(2) getchar_typed [of s c] calm_at_key [of n c "ks @ 10 # rest" s] by (simp_all add: calm_at_def)
  have c: "c \<noteq> 10" "10 \<notin> set ks" using Cons(3) by auto
  have step: ?case if f: "field_key lim echo newline c ((b, length acc), ?s) = Inr (True, (b', length acc'), s')"
    "calm_at n (ks @ 10 # rest) s'" "length b' = lim + 1" "length acc' \<le> lim" "take (length acc') b' = acc'" "0 \<notin> set acc'"
    "acc' = (if c = 8 then butlast acc else if length acc < lim \<and> printable c then acc @ [c] else acc)" for b' acc' s'
  proof -
    from Cons.IH [OF f(2) c(2) k(2) f(3-6)] show ?thesis
      using s(1) k(1) f(1,7) by simp
  qed
  show ?case
  proof (cases "c = 8")
    case True
    show ?thesis
    proof (cases "acc = []")
      case True
      then show ?thesis using \<open>c = 8\<close> s Cons.prems by (intro step [of b "[]" ?s]) (simp_all add: field_key_def)
    next
      case False
      obtain y where y: "putc 8 ?s = Inr (?s\<lparr>sh_sys := y\<rparr>)" "calm_at n (ks @ 10 # rest) (?s\<lparr>sh_sys := y\<rparr>)"
        using putc_calm [OF s(2)] by blast
      have "take (length (butlast acc)) b = butlast acc" using take_erased [OF Cons.prems(6)] by simp
      then show ?thesis using \<open>c = 8\<close> False y Cons.prems
        by (intro step [of b "butlast acc" "?s\<lparr>sh_sys := y\<rparr>"]) (auto simp: field_key_def dest: in_set_butlastD)
    qed
  next
    case c8: False
    show ?thesis
    proof (cases "length acc < lim \<and> printable c")
      case True
      obtain y where y: "putc (echo c) ?s = Inr (?s\<lparr>sh_sys := y\<rparr>)" "calm_at n (ks @ 10 # rest) (?s\<lparr>sh_sys := y\<rparr>)"
        using putc_calm [OF s(2)] by blast
      have "take (length (acc @ [c])) (b[length acc := c]) = acc @ [c]"
        using take_typed [OF Cons.prems(6), of c] Cons.prems(4,5) by simp
      then show ?thesis using c8 c(1) True y Cons.prems printable_not [of c]
        by (intro step [of "b[length acc := c]" "acc @ [c]" "?s\<lparr>sh_sys := y\<rparr>"]) (simp_all add: field_key_def)
    next
      case False
      then show ?thesis using c8 c(1) s Cons.prems
        by (intro step [of b acc ?s]) (auto simp: field_key_def)
    qed
  qed
qed

lemma calm_at_pending: "calm_at n (ks @ 10 # rest) s \<Longrightarrow> length ks < Suc (pending s)"
  by (auto simp: calm_at_def pending_def)

lemma read_field_typed:
  assumes "calm_at n (ks @ 10 # rest) s" "10 \<notin> set ks"
  shows "\<exists>b s'. read_field lim echo newline s = Inr ((b, length (typed lim [] ks)), s')
    \<and> cstr b = typed lim [] ks \<and> calm_at n rest s'"
  using field_loop_typed [OF assms calm_at_pending [OF assms(1)], of "replicate (lim + 1) 0" lim "[]" echo newline]
  by (simp add: read_field_def while_keys_def)

section \<open>The login\<close>

definition credentials :: "(u8 list \<times> u8 list) set" where
  "credentials = (\<lambda>(u, p). (bytes u, bytes p)) ` {(''misu'', ''misu''), (''admin'', ''admin''), (''james'', ''1234'')}"

lemma valid_login_iff: "valid_login u p \<longleftrightarrow> (cstr u, cstr p) \<in> credentials"
  by (auto simp: valid_login_def credentials_def strcmp_eq_0 byte_def)

lemma ask_typed:
  assumes "calm_at n (ks @ 10 # rest) s" "10 \<notin> set ks" "37 \<notin> set prompt"
  shows "\<exists>b s'. ask prompt echo s = Inr (b, s') \<and> cstr b = typed 31 [] ks \<and> calm_at n rest s'"
proof -
  have "calmly (steps [colour VGA_LIGHT_GREY VGA_BLACK, say prompt [], colour VGA_WHITE VGA_BLACK])"
    using assms(3) by (intro calmly_steps) (auto intro!: calmly_colour calmly_say fits_text)
  from calmlyD [OF this assms(1)] obtain y where
    y: "steps [colour VGA_LIGHT_GREY VGA_BLACK, say prompt [], colour VGA_WHITE VGA_BLACK] s = Inr (s\<lparr>sh_sys := y\<rparr>)"
      "calm_at n (ks @ 10 # rest) (s\<lparr>sh_sys := y\<rparr>)" by blast
  from read_field_typed [OF y(2) assms(2), of 31 echo True] y(1) show ?thesis
    by (auto simp: ask_def simp del: steps.simps)
qed

lemma login_typed:
  assumes "calm_at n (u @ 10 # p @ 10 # rest) s" "10 \<notin> set u" "10 \<notin> set p"
  shows "\<exists>b s'. calm_at n rest s' \<and> cstr b = typed 31 [] u \<and> login_loop (Suc k) a s =
    (if (typed 31 [] u, typed 31 [] p) \<in> credentials
     then steps [colour VGA_LIGHT_GREEN VGA_BLACK,
              say (10 # ln ''                       Authenticated. Welcome, %s.'') [Str (Some b)],
              busy_wait 150, clear] s'
     else andthen (or_fault (cint (a + 1))) (\<lambda>a. andthen (steps (login_refused a) s') (login_loop k a)))"
proof -
  have n: "37 \<notin> set (bytes ''                       Username: '')" "37 \<notin> set (bytes ''                       Password: '')"
    by simp_all
  obtain b s1 where 1: "ask (bytes ''                       Username: '') (\<lambda>c. c) s = Inr (b, s1)"
    "cstr b = typed 31 [] u" "calm_at n (p @ 10 # rest) s1"
    using ask_typed [OF assms(1,2) n(1)] by blast
  obtain b2 s2 where 2: "ask (bytes ''                       Password: '') (\<lambda>c. 42) s1 = Inr (b2, s2)"
    "cstr b2 = typed 31 [] p" "calm_at n rest s2"
    using ask_typed [OF 1(3) assms(3) n(2)] by blast
  show ?thesis
    using 1 2 by (intro exI [of _ b] exI [of _ s2]) (simp add: valid_login_iff del: steps.simps bytes_simps(1,2))
qed

section \<open>The line editor\<close>

text \<open>What a line leaves alone.\<close>

definition same_history :: "shell \<Rightarrow> shell \<Rightarrow> bool" where
  "same_history s s' \<longleftrightarrow> history s' = history s \<and> history_count s' = history_count s"

lemma calm_at_editor:
  "calm_at n ks s \<Longrightarrow> sh_sys s' = sh_sys s \<Longrightarrow> halts s' = halts s \<Longrightarrow> editor_ok s' \<Longrightarrow> calm_at n ks s'"
  using sh_inv_editor [of n s s'] by (simp add: calm_at_def calm_def pending_keys_def)

definition line_at :: "nat \<Rightarrow> u8 list \<Rightarrow> u8 list \<Rightarrow> shell \<Rightarrow> bool" where
  "line_at n acc ks s \<longleftrightarrow> calm_at n ks s \<and> cmd_len s = length acc \<and> length acc \<le> 255
     \<and> take (length acc) (cmd_buffer s) = acc \<and> 0 \<notin> set acc"

lemma line_at_inv: "line_at n acc ks s \<Longrightarrow> sh_inv n s \<and> length (cmd_buffer s) = 256"
  using sh_inv_editor_ok [of n s] by (simp add: line_at_def calm_at_def editor_ok_def)

text \<open>A key's effect on the line, and its output.\<close>

lemma line_at_set:
  assumes "line_at n acc ks s" "length b = 256" "length acc' \<le> 255" "take (length acc') b = acc'" "0 \<notin> set acc'"
  shows "line_at n acc' ks (s\<lparr>cmd_buffer := b, cmd_len := length acc'\<rparr>)"
proof -
  have s: "calm_at n ks s" "editor_ok s" using assms(1) line_at_inv [OF assms(1)] sh_inv_editor_ok by (auto simp: line_at_def)
  then have "calm_at n ks (s\<lparr>cmd_buffer := b, cmd_len := length acc'\<rparr>)"
    using assms(2,3) by (intro calm_at_editor [OF s(1)]) (simp_all add: editor_ok_def)
  with assms(3-5) show ?thesis by (simp add: line_at_def)
qed

lemma line_at_putc:
  assumes "line_at n acc ks s"
  shows "\<exists>y. putc c s = Inr (s\<lparr>sh_sys := y\<rparr>) \<and> line_at n acc ks (s\<lparr>sh_sys := y\<rparr>)"
  using putc_calm [of n ks s c] assms by (auto simp: line_at_def)

lemma edit_key_typed:
  assumes "line_at n acc ks s" "c \<notin> {1, 2, 10}"
  shows "\<exists>s'. edit_key c ((), s) = Inr (True, (), s') \<and> same_history s s'
    \<and> line_at n (if c = 8 then butlast acc else if length acc < 255 \<and> printable c then acc @ [c] else acc) ks s'"
proof -
  have l: "cmd_len s = length acc" "length acc \<le> 255" "take (length acc) (cmd_buffer s) = acc" "0 \<notin> set acc"
    "length (cmd_buffer s) = 256"
    using assms(1) line_at_inv [OF assms(1)] by (simp_all add: line_at_def)
  show ?thesis
  proof (cases "c = 8 \<and> acc \<noteq> [] \<or> c \<noteq> 8 \<and> length acc < 255 \<and> printable c")
    case False
    then show ?thesis using assms l(1)
      by (intro exI [of _ s]) (auto simp: edit_key_def Let_def same_history_def)
  next
    case True
    then consider (rub) "c = 8" "acc \<noteq> []" | (add) "c \<noteq> 8" "length acc < 255" "printable c" by blast
    then show ?thesis
    proof cases
      case rub
      have "take (length (butlast acc)) (cmd_buffer s) = butlast acc" using take_erased [OF l(3)] by simp
      then have "line_at n (butlast acc) ks (s\<lparr>cmd_buffer := cmd_buffer s, cmd_len := length (butlast acc)\<rparr>)"
        using l by (intro line_at_set [OF assms(1)]) (auto dest: in_set_butlastD)
      from line_at_putc [OF this, of 8] rub l(1) show ?thesis
        by (auto simp: edit_key_def Let_def same_history_def)
    next
      case add
      have "take (length (acc @ [c])) ((cmd_buffer s)[length acc := c]) = acc @ [c]"
        using take_typed [OF l(3), of c] add(2) l(5) by simp
      then have "line_at n (acc @ [c]) ks (s\<lparr>cmd_buffer := (cmd_buffer s)[length acc := c], cmd_len := length (acc @ [c])\<rparr>)"
        using l add printable_not [of c] by (intro line_at_set [OF assms(1)]) auto
      from line_at_putc [OF this, of c] add l assms(2) show ?thesis
        by (auto simp: edit_key_def Let_def same_history_def)
    qed
  qed
qed

lemma edit_key_enter:
  assumes "line_at n acc ks s"
  shows "\<exists>s'. edit_key 10 ((), s) = Inr (False, (), s') \<and> same_history s s' \<and> calm_at n ks s'
    \<and> cmd_len s' = length acc \<and> cstr (cmd_buffer s') = acc \<and> line_ok (cmd_buffer s')"
proof -
  obtain y where y: "putc 10 s = Inr (s\<lparr>sh_sys := y\<rparr>)" "line_at n acc ks (s\<lparr>sh_sys := y\<rparr>)"
    using line_at_putc [OF assms] by blast
  let ?s = "s\<lparr>sh_sys := y\<rparr>" and ?b = "(cmd_buffer s)[length acc := 0]"
  have l: "cmd_len s = length acc" "length acc \<le> 255" "take (length acc) (cmd_buffer s) = acc" "0 \<notin> set acc"
    "length (cmd_buffer s) = 256"
    using assms line_at_inv [OF assms] by (simp_all add: line_at_def)
  have c: "calm_at n ks ?s" "editor_ok s"
    using y(2) line_at_inv [OF assms] sh_inv_editor_ok by (auto simp: line_at_def)
  have "calm_at n ks (?s\<lparr>cmd_buffer := ?b\<rparr>)"
    by (rule calm_at_editor [OF c(1)]) (use c(2) in \<open>simp_all add: editor_ok_def\<close>)
  moreover have "cstr ?b = acc" using l by (intro cstr_end) simp_all
  moreover have "line_ok ?b" using l by (intro line_ok_put) simp_all
  moreover have "edit_key 10 ((), s) = Inr (False, (), ?s\<lparr>cmd_buffer := ?b\<rparr>)"
    using y(1) l(1,2,5) by (simp add: edit_key_def Let_def)
  ultimately show ?thesis using l(1)
    by (intro exI [of _ "?s\<lparr>cmd_buffer := ?b\<rparr>"]) (simp add: same_history_def)
qed

lemma line_at_key: "line_at n acc (c # ks) s \<Longrightarrow> line_at n acc ks (set_keys ks s)"
  using calm_at_key [of n c ks s] by (auto simp: line_at_def)

lemma edit_loop_typed:
  assumes "line_at n acc (ks @ 10 # rest) s" "set ks \<inter> {1, 2, 10} = {}" "length ks < k"
  shows "\<exists>s'. key_loop k edit_key ((), s) = Inr ((), s') \<and> same_history s s' \<and> calm_at n rest s'
    \<and> cmd_len s' = length (typed 255 acc ks) \<and> cstr (cmd_buffer s') = typed 255 acc ks \<and> line_ok (cmd_buffer s')"
  using assms
proof (induction ks arbitrary: s k acc)
  case Nil
  then obtain k' where k: "k = Suc k'" by (cases k) auto
  have g: "getchar s = Inr (set_keys rest s, 10)"
    using Nil(1) by (intro getchar_typed) (simp add: line_at_def calm_at_def)
  have "line_at n acc rest (set_keys rest s)" using Nil(1) line_at_key [of n acc 10 rest s] by simp
  from edit_key_enter [OF this] g k show ?case by (auto simp: same_history_def)
next
  case (Cons c ks)
  then obtain k' where k: "k = Suc k'" "length ks < k'" by (cases k) auto
  let ?s = "set_keys (ks @ 10 # rest) s"
  have g: "getchar s = Inr (?s, c)"
    using Cons(2) by (intro getchar_typed) (simp add: line_at_def calm_at_def)
  have l: "line_at n acc (ks @ 10 # rest) ?s" using Cons(2) line_at_key [of n acc c _ s] by simp
  obtain s' where s': "edit_key c ((), ?s) = Inr (True, (), s')" "same_history ?s s'"
    "line_at n (if c = 8 then butlast acc else if length acc < 255 \<and> printable c then acc @ [c] else acc) (ks @ 10 # rest) s'"
    using edit_key_typed [OF l, of c] Cons.prems(2) by auto
  have "set ks \<inter> {1, 2, 10} = {}" using Cons.prems(2) by auto
  from Cons.IH [OF s'(3) this k(2)] g s'(1,2) k(1) show ?case by (auto simp: same_history_def)
qed

lemma read_line_typed:
  assumes "calm_at n (ks @ 10 # rest) s" "set ks \<inter> {1, 2, 10} = {}"
  shows "\<exists>s'. read_line s = Inr s' \<and> same_history s s' \<and> calm_at n rest s'
    \<and> cmd_len s' = length (typed 255 [] ks) \<and> cstr (cmd_buffer s') = typed 255 [] ks \<and> line_ok (cmd_buffer s')"
proof -
  have "\<exists>y. print_prompt s = Inr (s\<lparr>sh_sys := y\<rparr>) \<and> calm_at n (ks @ 10 # rest) (s\<lparr>sh_sys := y\<rparr>)"
    unfolding print_prompt_def
    by (rule calmlyD [OF calmly_steps assms(1)]) (auto intro!: calmly_colour calmly_say intro: fits_text simp: fits_eval)
  then obtain y where
    y: "print_prompt s = Inr (s\<lparr>sh_sys := y\<rparr>)" "calm_at n (ks @ 10 # rest) (s\<lparr>sh_sys := y\<rparr>)" by blast
  let ?s = "s\<lparr>sh_sys := y, cmd_len := 0, history_pos := int (history_count s)\<rparr>"
  have i: "sh_inv n (s\<lparr>sh_sys := y\<rparr>)" using y(2) by (simp add: calm_at_def)
  have "sh_inv n ?s" using sh_inv_editor_ok [OF i] by (intro sh_inv_editor [OF i]) (simp_all add: editor_ok_def)
  then have "line_at n [] (ks @ 10 # rest) ?s"
    using y(2) by (simp add: line_at_def calm_at_def calm_def pending_keys_def)
  from edit_loop_typed [OF this assms(2), of "Suc (pending ?s)"] calm_at_pending [of n ks rest ?s] this y(1)
  show ?thesis by (auto simp: read_line_def while_keys_def same_history_def line_at_def simp del: key_loop.simps)
qed

text \<open>C8: a line is what its keys spell: with the characters \<open>ks\<close> and Enter in the keyboard buffer (no arrow
  keys), one round of the shell adds the edited text to the history, which keeps the last ten lines,
  and runs the command that the first word names with the first 16 words as its arguments, or none if
  there are only blanks.\<close>

theorem shell_turn_runs:
  assumes "calm_at n (ks @ 10 # rest) s" "set ks \<inter> {1, 2, 10} = {}" "typed 255 [] ks \<noteq> []"
  shows "\<exists>s'. calm_at n rest s' \<and> recalled s' = (let ls = recalled s @ [typed 255 [] ks] in drop (length ls - 10) ls)
    \<and> shell_turn env s = (case take 16 (line_words (typed 255 [] ks)) of [] \<Rightarrow> Inr s'
        | w # ws \<Rightarrow> dispatch w (commands env (w # ws)) s')"
proof -
  obtain s1 where 1: "read_line s = Inr s1" "same_history s s1" "calm_at n rest s1"
    "cmd_len s1 = length (typed 255 [] ks)" "cstr (cmd_buffer s1) = typed 255 [] ks" "line_ok (cmd_buffer s1)"
    using read_line_typed [OF assms(1,2)] by blast
  have i: "sh_inv n s1" using 1(3) by (simp add: calm_at_def)
  obtain h m where 2: "history_add (cmd_buffer s1) s1 = Some (s1\<lparr>history := h, history_count := m\<rparr>)"
    "recalled (s1\<lparr>history := h, history_count := m\<rparr>) = (let ls = recalled s1 @ [typed 255 [] ks] in drop (length ls - 10) ls)"
    "editor_ok (s1\<lparr>history := h, history_count := m\<rparr>)"
    using history_add_step [OF sh_inv_editor_ok [OF i] 1(6)] 1(5) by auto
  obtain buf where 3: "argv_of (cmd_buffer s1) = Some (buf, take 16 (line_words (typed 255 [] ks)))" "length buf = 256"
    using argv_of_words [of "cmd_buffer s1"] 1(5,6) by (auto simp: line_ok_def)
  let ?s = "s1\<lparr>history := h, history_count := m, cmd_buffer := buf\<rparr>"
  have "calm_at n rest ?s" using 2(3) 3(2) by (intro calm_at_editor [OF 1(3)]) (simp_all add: editor_ok_def)
  moreover have "recalled ?s = (let ls = recalled s @ [typed 255 [] ks] in drop (length ls - 10) ls)"
    using 2(2) 1(2) by (simp add: recalled_def same_history_def)
  moreover have "shell_turn env s = execute_command env (s1\<lparr>history := h, history_count := m\<rparr>)"
    using 1(1,4) 2(1) assms(3) by (simp add: shell_turn_def)
  moreover have "execute_command env (s1\<lparr>history := h, history_count := m\<rparr>)
      = (case take 16 (line_words (typed 255 [] ks)) of [] \<Rightarrow> Inr ?s | w # ws \<Rightarrow> dispatch w (commands env (w # ws)) ?s)"
    using 3(1) by (cases "take 16 (line_words (typed 255 [] ks))") (simp_all add: execute_command_def)
  ultimately show ?thesis by (intro exI [of _ ?s]) simp
qed

end
