(* ===== verification/MainSafe.thy ===== *)
theory MainSafe
  imports Typing
begin

text \<open>
  The whole of \<open>kernel_main\<close>: the boot leaves the shell's invariant, the login and the status screen
  keep it, and so do the rounds of the shell.
\<close>

section \<open>From the boot to the shell\<close>

lemma kern_ok_online:
  assumes "kern_ok (Suc n) k" "klog now lv m (log k) = Some l" "klog_inv l"
  shows "kern_ok n (k\<lparr>procs := process_set_scheduling_enabled True (procs k), log := l\<rparr>)"
proof -
  have "procs_ok (process_set_scheduling_enabled True (procs k))"
    using assms(1) by (simp add: kern_ok_def kern_inv_def procs_ok_def process_set_scheduling_enabled_def idents_def running_ok_def) metis
  with assms klog_total_step [OF assms(2)] show ?thesis
    by (simp add: kern_ok_def kern_inv_def process_set_scheduling_enabled_def)
qed

lemma kernel_online_yields:
  assumes "sh_inv (Suc n) s" "o_sys os = sh_sys s"
  shows "yields (\<lambda>os'. sh_inv n (s\<lparr>sh_sys := o_sys os'\<rparr>)) (kernel_online env os)"
proof -
  let ?k = "s_kern (sh_sys s)" and ?f = "s_fs (sh_sys s)"
  have v: "vga_ok (s_term (sh_sys s))" and kl: "klog_inv (log ?k)" "klog_total (log ?k) < 2147483647"
    using sh_inv_parts(5,6,7) [OF assms(1)] by (auto simp: numbers_ok_def)
  then have clear: "yields vga_ok (terminal_clear (s_term (sh_sys s)))"
    using terminal_clear_eq [of "s_term (sh_sys s)"] by (auto simp: vga_ok_def)
  note num = shell_counts_ok [OF assms(1)]
  have nums: "pmm_get_total_memory_kb (pages ?k) \<noteq> 0x80000000" "pmm_get_free_pages (pages ?k) \<noteq> 0x80000000"
    "(of_nat (fs_get_file_count ?f) :: u32) \<noteq> 0x80000000" "(of_nat (fs_get_dir_count ?f) :: u32) \<noteq> 0x80000000"
    using num(2,8,10,11) by (simp_all add: the_pages_def the_fs_def)
  obtain a b c d where p: "print_int (sint (pmm_get_total_memory_kb (pages ?k))) = Some a"
    "print_int (sint (pmm_get_free_pages (pages ?k))) = Some b"
    "print_int (sint (of_nat (fs_get_file_count ?f) :: u32)) = Some c"
    "print_int (sint (of_nat (fs_get_dir_count ?f) :: u32)) = Some d"
    using nums [THEN print_int_sint] by blast
  have status: "yields vga_ok (case run_ops (status_ops (pmm_get_total_memory_kb (pages ?k)) (pmm_get_free_pages (pages ?k))
      (of_nat (fs_get_file_count ?f)) (of_nat (fs_get_dir_count ?f)) (be_version env)) t of None \<Rightarrow> Inl Fault | Some r \<Rightarrow> r)"
    if "vga_ok t" for t
    using run_ops_prints [OF status_ops_formats [OF p, of "be_version env"] that] by auto
  obtain l where l: "klog (s_now (sh_sys s)) KLOG_OK (bytes ''Scheduler online - round-robin preemptive 100ms'') (log ?k) = Some l"
    "klog_inv l" using klog_step_inv [OF kl] by blast
  have "kern_ok (Suc n) ?k" using kern_ok_of [OF assms(1)] .
  note k = kern_ok_online [OF this l]
  have last: "sh_inv n (s\<lparr>sh_sys := (sh_sys s)\<lparr>s_term := t, s_kern := ?k\<lparr>procs := process_set_scheduling_enabled True (procs ?k), log := l\<rparr>\<rparr>\<rparr>)"
    if "vga_ok t" for t
  proof -
    have "sh_inv n (set_kern (?k\<lparr>procs := process_set_scheduling_enabled True (procs ?k), log := l\<rparr>)
        (s\<lparr>sh_sys := (sh_sys s)\<lparr>s_term := t\<rparr>\<rparr>))"
      by (rule sh_inv_set_kern [OF sh_inv_screen [OF assms(1) that] k])
    moreover have "set_kern k' (s\<lparr>sh_sys := (sh_sys s)\<lparr>s_term := t\<rparr>\<rparr>) = s\<lparr>sh_sys := (sh_sys s)\<lparr>s_term := t, s_kern := k'\<rparr>\<rparr>" for k'
      by (simp add: set_kern_def)
    ultimately show ?thesis by (simp only:)
  qed
  have logged: "yields (\<lambda>os'. sh_inv n (s\<lparr>sh_sys := o_sys os'\<rparr>)) (klog_ok (bytes ''Scheduler online - round-robin preemptive 100ms'')
       (upd_kern (\<lambda>k. k\<lparr>procs := process_set_scheduling_enabled True (procs k)\<rparr>) (upd_term (\<lambda>_. t) os)))" if "vga_ok t" for t
    using last [OF that] l(1) assms(2)
    by (simp add: klog_ok_def upd_kern_def upd_term_def s_now_def process_set_scheduling_enabled_def del: bytes_simps(1,2))
  show ?thesis
    unfolding kernel_online_def assms(2)
    by (rule yields_andthen [OF clear], rule yields_andthen [OF status], assumption, rule logged)
qed

lemma keeps_shell_init: "keeps shell_init"
  unfolding shell_init_def by (rule keeps_steps) (auto intro!: keeps_colour keeps_text)

text \<open>The shell's invariant right after the boot.\<close>

lemma pmm_init_total:
  assumes "mbi_flags mbi AND 64 \<noteq> 0"
    and "entries_at m (mbi_mmap_addr mbi) (mbi_mmap_addr mbi + mbi_mmap_length mbi) es"
    and "pmm_init m kernel_end mbi = Some p"
  shows "unat (total_pages p) \<le> 32768"
proof -
  have "unat (total_pages (init_start mbi)) \<le> 32768"
    by (auto simp: init_start_def Let_def word_less_nat_alt)
  with pmm_init_effect [OF assms(1,2), of kernel_end] assms(3) show ?thesis by (metis option.inject)
qed

lemma editor_ok_start: "editor_ok (shell_start y hs)"
  by (auto simp: editor_ok_def shell_start_def line_ok_def)

lemma shell_start_inv:
  assumes "sys_inv y" "process_init ps = Some (procs (s_kern y))" "klog_total (log (s_kern y)) + int n < 2 ^ 31"
    and "unat (total_pages (pages (s_kern y))) \<le> 32768" "unat (s_now y) < 2 ^ 31" "halts_ok hs" "n < 2147483641"
  shows "sh_inv n (shell_start y hs)"
proof -
  have p: "current_pid (procs (s_kern y)) = 1" "next_pid (procs (s_kern y)) = 2"
    "\<forall>p \<in> set (proc_table (procs (s_kern y))). unat (ticks_used p) < 2 ^ 31"
    using process_init_eq [of ps] assms(2) by (auto simp: zero_proc_def)
  show ?thesis
    unfolding sh_inv_def numbers_ok_def
    using assms(1,3-7) p editor_ok_start [of y hs]
    by (simp add: the_procs_def the_pages_def ticks_def shell_start_def)
qed

section \<open>The whole\<close>

text \<open>\<open>kernel_main\<close> up to the first round of the shell.\<close>

definition kernel_session :: "boot_env \<Rightarrow> halt_events \<Rightarrow> os \<Rightarrow> stop + shell" where
  "kernel_session benv hs os =
     andthen (kernel_init benv os) (\<lambda>os.
     andthen (login_screen (be_version benv) (shell_start (o_sys os) hs)) (\<lambda>s.
     andthen (kernel_online benv (os\<lparr>o_sys := sh_sys s\<rparr>)) (\<lambda>os.
     shell_init (s\<lparr>sh_sys := o_sys os\<rparr>))))"

lemma kernel_main_session: "kernel_main benv env n hs os = andthen (kernel_session benv hs os) (shell_turns env n)"
proof -
  have assoc: "andthen (andthen r f) g = andthen r (\<lambda>x. andthen (f x) g)" for r :: "'e + 'a" and f :: "'a \<Rightarrow> 'e + 'b" and g :: "'b \<Rightarrow> 'e + 'c"
    by (cases r) simp_all
  show ?thesis by (simp add: kernel_main_def kernel_session_def assoc)
qed

lemma kernel_session_yields:
  assumes "boot_ready benv os" "mbi_flags (be_mbi benv) AND 64 \<noteq> 0"
    and "entries_at (be_mem benv) (mbi_mmap_addr (be_mbi benv)) (mbi_mmap_addr (be_mbi benv) + mbi_mmap_length (be_mbi benv)) es"
    and "(of_nat (\<Sum>e\<leftarrow>es. card (region_pages e)) :: u32) = of_nat (card (\<Union>e\<in>set es. region_pages e))"
    and "unat (s_now (o_sys os)) < 2 ^ 31" "halts_ok hs" "n < 2147483640"
    and "length (keys (s_term (o_sys os))) + (\<Sum>(t, ks)\<leftarrow>hs. length ks) < 2147483646"
  shows "yields (sh_inv n) (kernel_session benv hs os)"
proof -
  from pmm_init_pages [OF assms(2,3), of "be_kernel_end benv"] assms(4) obtain pg where
    pg: "pmm_init (be_mem benv) (be_kernel_end benv) (be_mbi benv) = Some pg" "pmm_inv pg" by blast
  obtain os1 where 1: "kernel_init benv os = Inr os1" "logged 7 os1" "sys_inv (o_sys os1)" "pages (s_kern (o_sys os1)) = pg"
    "same_input os os1" "process_init (os_procs os) = Some (os_procs os1)"
    using kernel_init_works [OF assms(1) pg] by blast
  have start: "sh_inv (Suc n) (shell_start (o_sys os1) hs)"
    using 1 assms(5-7) pmm_init_total [OF assms(2,3) pg(1)]
    by (intro shell_start_inv [of _ "os_procs os"]) (simp_all add: logged_def Let_def same_input_def s_now_def)
  have "pending (shell_start (o_sys os1) hs) < 2147483646"
    using assms(8) 1(5) by (simp add: pending_def pending_keys_def shell_start_def same_input_def)
  note login = login_screen_yields [OF start this, of "be_version benv"]
  show ?thesis
    unfolding kernel_session_def 1(1) andthen.simps
    by (rule yields_andthen [OF login], rule yields_andthen [OF kernel_online_yields], assumption, simp,
        rule keepsD [OF keeps_shell_init], simp)
qed

end
