(* ===== verification/ShellProps.thy ===== *)
theory ShellProps
  imports MainSafe
begin

text \<open>
  The properties of the shell and of the whole kernel, with their instances.
\<close>

lemma yields_iff: "yields P r \<longleftrightarrow> r \<noteq> Inl Fault \<and> (\<forall>x. r = Inr x \<longrightarrow> P x)"
proof (cases r)
  case (Inl e)
  then show ?thesis by (cases e) simp_all
qed simp

text \<open>The shell on a machine after its boot, for the instances.\<close>

definition ready_shell :: shell where
  "ready_shell = shell_start boot_sys []"

lemma boot_sys_simps:
  "procs (s_kern boot_sys) = boot_procs" "klog_total (log (s_kern boot_sys)) = 0" "unat (s_now boot_sys) = 3"
  "unat (total_pages (pages (s_kern boot_sys))) \<le> 32768" "\<not> pager_enabled (s_term boot_sys)" "keys (s_term boot_sys) = []"
  by (simp_all add: boot_sys_def boot_kern_def klog_init_def s_now_def timer_get_ticks_def timer_start_def fresh_screen_def
      fresh_pmm_def empty_pmm_def pmm_set_bit_def)

lemma ready_shell_inv: "n < 2147483641 \<Longrightarrow> halts_ok hs \<Longrightarrow> sh_inv n (shell_start boot_sys hs)"
  using boot_sys_simps(2) boot_procs_init
  by (intro shell_start_inv [OF boot_sys_facts(1), of "\<lparr>proc_table = [], current_pid = 0, next_pid = 1, scheduling_enabled = True\<rparr>"])
    (simp_all add: boot_sys_simps)

definition typed_keys :: "string \<Rightarrow> shell" where
  "typed_keys w = set_keys (bytes w @ [10]) ready_shell"

lemma typed_keys_calm: "n < 2147483641 \<Longrightarrow> calm_at n (bytes w @ [10]) (typed_keys w)"
  using ready_shell_inv [of n "[]"] boot_sys_simps(5)
  by (simp add: typed_keys_def calm_at_def sh_inv_keys ready_shell_def halts_ok_def) (simp add: calm_def shell_start_def)

lemma env_ok_zero: "env_ok \<lparr>se_rtc = \<lambda>_. 0, se_tasks = ts, se_junkx = replicate 200 0, se_junky = replicate 200 0\<rparr>"
  by (simp add: env_ok_def)

definition plain_env :: shell_env where
  "plain_env = \<lparr>se_rtc = \<lambda>_. 0, se_tasks = \<lparr>t_wrapper = 0x105000, t_counter = 0x105100, t_spinner = 0x105200, t_ticker = 0x105300\<rparr>,
     se_junkx = replicate 200 0, se_junky = replicate 200 0\<rparr>"

lemma plain_env_ok: "env_ok plain_env"
  by (simp add: env_ok_def plain_env_def)

section \<open>The whole kernel\<close>



section \<open>The shell\<close>

text \<open>C2: every command keeps the well-formedness of the system: executing a safe line ends, waits for
  input or stops the machine, and afterwards the file system, the process table, the allocator, the
  log, the screen, the history and all numbers that are printed are as they should be, with at most
  three process ids and log messages used up. Nothing is assumed about the state but the invariant,
  and nothing about the keys typed while the command runs.\<close>

theorem execute_command_safe:
  assumes "env_ok env" "sh_inv (n + 3) s" "line_ok (cmd_buffer s)" "safe_line (cmd_buffer s)"
  shows "execute_command env s \<noteq> Inl Fault \<and> (\<forall>s'. execute_command env s = Inr s' \<longrightarrow> sh_inv n s')"
  using execute_command_yields [OF assms] unfolding yields_iff .

text \<open>The line \<^verbatim>\<open>spawn all\<close>.\<close>

definition buffer_of :: "string \<Rightarrow> u8 list" where
  "buffer_of w = bytes w @ replicate (256 - length w) 0"

theorem execute_command_safe_witness:
  "execute_command plain_env (ready_shell\<lparr>cmd_buffer := buffer_of ''spawn all''\<rparr>) \<noteq> Inl Fault"
proof -
  let ?s = "ready_shell\<lparr>cmd_buffer := buffer_of ''spawn all''\<rparr>"
  have b: "length (buffer_of ''spawn all'') = 256" "0 \<in> set (buffer_of ''spawn all'')"
    by (simp_all add: buffer_of_def)
  have i: "sh_inv (0 + 3) ready_shell" using ready_shell_inv [of 3 "[]"] by (simp add: ready_shell_def halts_ok_def)
  have "sh_inv (0 + 3) ?s"
    using sh_inv_editor_ok [OF i] b by (intro sh_inv_editor [OF i]) (simp_all add: editor_ok_def)
  moreover have "cstr (buffer_of ''spawn all'') = bytes ''spawn all''"
    by (simp add: buffer_of_def cstr_append cstr_id del: bytes_simps(1,2))
  then have "safe_line (cmd_buffer ?s)"
    by (simp add: safe_line_def safe_words_def partial_commands_def number_commands_def byte_def)
  ultimately show ?thesis
    using execute_command_safe [OF plain_env_ok, of 0 ?s] b by (simp add: line_ok_def)
qed

text \<open>\<^verbatim>\<open>pwx\<close>, backspace, \<^verbatim>\<open>d\<close>.\<close>

theorem shell_turn_runs_witness:
  "\<exists>s'. recalled s' = recalled (set_keys (bytes ''pwx'' @ 8 # bytes ''d'' @ [10]) ready_shell) @ [bytes ''pwd'']
    \<and> shell_turn plain_env (set_keys (bytes ''pwx'' @ 8 # bytes ''d'' @ [10]) ready_shell) = cmd_pwd s'"
proof -
  let ?ks = "bytes ''pwx'' @ 8 # bytes ''d''"
  have c: "calm_at 0 (?ks @ 10 # []) (set_keys (?ks @ [10]) ready_shell)"
    using ready_shell_inv [of 0 "[]"] boot_sys_simps(5)
    by (simp add: calm_at_def sh_inv_keys ready_shell_def halts_ok_def) (simp add: calm_def shell_start_def)
  have t: "typed 255 [] ?ks = bytes ''pwd''" by (simp add: byte_def printable_def word_le_nat_alt word_less_nat_alt)
  have d: "set ?ks \<inter> {1, 2, 10} = {}" by (simp add: byte_def)
  have w: "line_words (bytes ''pwd'') = [bytes ''pwd'']" by (simp add: byte_def)
  have "recalled (set_keys (?ks @ [10]) ready_shell) = []"
    by (simp add: recalled_def ready_shell_def shell_start_def)
  moreover have "dispatch (bytes ''pwd'') (commands plain_env [bytes ''pwd'']) = cmd_pwd"
    by (rule ext) (simp add: commands_def strcmp_eq_0 byte_def)
  ultimately show ?thesis
    using shell_turn_runs [OF c d, of plain_env] by (auto simp: t w simp del: bytes_simps(1,2))
qed

text \<open>C9: the splitting of a line in place agrees with the list of its words: \<open>argv\<close> is the first 16 maximal
  runs of characters other than blanks, whatever follows the line in its array.\<close>

theorem argv_of_line_words:
  assumes "0 \<in> set line"
  shows "\<exists>buf. argv_of line = Some (buf, take 16 (line_words (cstr line))) \<and> length buf = length line"
  using argv_of_words [OF assms] by blast

theorem argv_of_line_words_witness:
  "\<exists>buf. argv_of (bytes ''  rm   a b '' @ [0, 7]) = Some (buf, [bytes ''rm'', bytes ''a'', bytes ''b'']) \<and> length buf = 13"
proof -
  have "cstr (bytes ''  rm   a b '' @ [0, 7]) = bytes ''  rm   a b ''" by (rule cstr_append_nul) simp
  moreover have "line_words (bytes ''  rm   a b '') = [bytes ''rm'', bytes ''a'', bytes ''b'']" by (simp add: byte_def)
  ultimately show ?thesis
    using argv_of_line_words [of "bytes ''  rm   a b '' @ [0, 7]"] by (auto simp del: bytes_simps(1,2))
qed

text \<open>The history is a queue of the last ten lines: \<open>history_add\<close> puts the line at the end, drops the
  first when there are more than ten, and never writes outside the array.\<close>

theorem history_add_queue:
  assumes "editor_ok s" "line_ok cmd"
  shows "\<exists>s'. history_add cmd s = Some s' \<and> editor_ok s'
    \<and> recalled s' = (let ls = recalled s @ [cstr cmd] in drop (length ls - 10) ls)"
  using history_add_step [OF assms] by blast

theorem history_add_queue_witness:
  "\<exists>s'. history_add (buffer_of ''ls'') ready_shell = Some s' \<and> recalled s' = [bytes ''ls'']"
proof -
  have e: "editor_ok ready_shell" unfolding ready_shell_def by (rule editor_ok_start)
  have b: "line_ok (buffer_of ''ls'')" by (simp add: line_ok_def buffer_of_def)
  have "cstr (buffer_of ''ls'') = bytes ''ls''"
    by (simp add: buffer_of_def cstr_append cstr_id del: bytes_simps(1,2))
  moreover have "recalled ready_shell = []" by (simp add: recalled_def ready_shell_def shell_start_def)
  ultimately show ?thesis using history_add_queue [OF e b] by auto
qed

text \<open>C25: exactly three logins are accepted: the user name and the password typed, edited and cut at 31
  characters, decide between the welcome and the next attempt.\<close>

theorem login_accepts:
  assumes "calm_at n (u @ 10 # p @ 10 # rest) s" "10 \<notin> set u" "10 \<notin> set p"
  shows "\<exists>b s'. calm_at n rest s' \<and> cstr b = typed 31 [] u \<and> login_loop (Suc k) a s =
    (if (typed 31 [] u, typed 31 [] p)
        \<in> {(bytes ''misu'', bytes ''misu''), (bytes ''admin'', bytes ''admin''), (bytes ''james'', bytes ''1234'')}
     then steps [colour VGA_LIGHT_GREEN VGA_BLACK,
              say (10 # ln ''                       Authenticated. Welcome, %s.'') [Str (Some b)],
              busy_wait 150, clear] s'
     else andthen (or_fault (cint (a + 1))) (\<lambda>a. andthen (steps (login_refused a) s') (login_loop k a)))"
proof -
  have "credentials = {(bytes ''misu'', bytes ''misu''), (bytes ''admin'', bytes ''admin''), (bytes ''james'', bytes ''1234'')}"
    by (simp add: credentials_def)
  with login_typed [OF assms, of k a] show ?thesis by (simp only:)
qed

text \<open>\<^verbatim>\<open>james\<close> with the password \<^verbatim>\<open>1234\<close>.\<close>

theorem login_accepts_witness:
  "\<exists>b s'. cstr b = bytes ''james'' \<and> login_loop 1 0 (set_keys (bytes ''james'' @ 10 # bytes ''1234'' @ 10 # []) ready_shell)
    = steps [colour VGA_LIGHT_GREEN VGA_BLACK,
              say (10 # ln ''                       Authenticated. Welcome, %s.'') [Str (Some b)],
              busy_wait 150, clear] s'"
proof -
  have c: "calm_at 0 (bytes ''james'' @ 10 # bytes ''1234'' @ 10 # []) (set_keys (bytes ''james'' @ 10 # bytes ''1234'' @ 10 # []) ready_shell)"
    using ready_shell_inv [of 0 "[]"] boot_sys_simps(5)
    by (simp add: calm_at_def sh_inv_keys ready_shell_def halts_ok_def) (simp add: calm_def shell_start_def)
  have n: "10 \<notin> set (bytes ''james'')" "10 \<notin> set (bytes ''1234'')" by (simp_all add: byte_def)
  have t: "typed 31 [] (bytes ''james'') = bytes ''james''" "typed 31 [] (bytes ''1234'') = bytes ''1234''"
    by (simp_all add: byte_def printable_def word_le_nat_alt word_less_nat_alt)
  show ?thesis
    using login_accepts [OF c n, of 0 0] unfolding t by (simp del: steps.simps bytes_simps(1,2)) blast
qed



end
