(* ===== verification/CommandProps.thy ===== *)
theory CommandProps
  imports ShellProps
begin

text \<open>
  Properties of single commands: what \<open>write\<close> stores is what \<open>cat\<close> shows, and the column printer of the
  process viewer agrees with \<^verbatim>\<open>%d\<close>.
\<close>

section \<open>Writing and showing a file\<close>

lemma find_node_cong:
  assumes "\<And>i. i < 64 \<Longrightarrow> in_use (fs_nodes g ! i) = in_use (fs_nodes f ! i) \<and> name (fs_nodes g ! i) = name (fs_nodes f ! i)
      \<and> parent (fs_nodes g ! i) = parent (fs_nodes f ! i)" "current_dir g = current_dir f"
  shows "find_node nm g = find_node nm f"
proof -
  have cong: "first_from p a n = first_from q a n" if "\<And>i. i < n \<Longrightarrow> p i = q i" for p q and a n :: nat
    using that
  proof (induction p a n rule: first_from.induct)
    case (1 p a n)
    have "first_from p (Suc a) n = first_from q (Suc a) n" if "a < n" "\<not> p a"
      by (rule "1.IH" [OF that]) (rule "1.prems")
    with "1.prems" [of a] show ?case by (simp add: first_from.simps [of p a] first_from.simps [of q a])
  qed
  show ?thesis unfolding find_node_def assms(2) by (rule cong) (simp add: assms(1))
qed

lemma write_read_file:
  assumes "fs_inv f" "find_node nm f = Some i" "node_type (fs_nodes f ! i) = FS_TYPE_FILE"
    and "0 \<in> set txt" "length txt \<le> 4096"
  shows "\<exists>f'. fs_write_file nm txt (of_nat (strlen txt)) f = Some (f', Inr (strlen txt))
    \<and> fs_read_file nm (replicate 4096 0) 4096 f' = Some (cstr txt @ 0 # replicate (4095 - strlen txt) 0, Inr (strlen txt))"
proof -
  let ?n = "fs_nodes f ! i" and ?k = "length (cstr txt)"
  define f' where "f' = set_node i (?n\<lparr>data := (overwrite (data ?n) 0 ?k txt)[?k := 0], node_size := of_nat ?k\<rparr>) f"
  have sh: "fs_shape f" by (rule fs_inv_shape [OF assms(1)])
  have k: "?k < length txt" "?k \<le> 4095" using length_cstr_less [OF assms(4)] assms(5) by simp_all
  have len: "write_file_len (of_nat ?k) = ?k" using k(2) by (simp add: write_file_len_def unat_of_nat_u32)
  have i: "i < 64" by (rule find_node_SomeD(1) [OF assms(2)])
  have w: "fs_write_file nm txt (of_nat ?k) f = Some (f', Inr ?k)"
    using fs_write_file_eq [OF sh, of "of_nat ?k" "txt" nm] len k(1) assms(2,3) by (simp add: f'_def Let_def)
  have "fs_inv f'" using fs_write_file_inv [OF assms(1), of "of_nat ?k" "txt" nm] len k(1) w by auto
  then have sh': "fs_shape f'" by (rule fs_inv_shape)
  have d: "length (data ?n) = 4096" using i sh by (simp add: fs_shapeD)
  have n: "length (fs_nodes f) = 64" using sh by (simp add: fs_shapeD)
  have find: "find_node nm f' = Some i"
    using i n by (subst find_node_cong [of f' f]) (auto simp: f'_def set_node_def nth_list_update assms(2))
  have node: "fs_nodes f' ! i = ?n\<lparr>data := (overwrite (data ?n) 0 ?k txt)[?k := 0], node_size := of_nat ?k\<rparr>"
    using i n by (simp add: f'_def set_node_def)
  have t: "take ?k ((overwrite (data ?n) 0 ?k txt)[?k := 0]) = cstr txt"
  proof -
    have "take ?k ((overwrite (data ?n) 0 ?k txt)[?k := 0]) = take ?k txt" using k d by (simp add: overwrite_def)
    also have "\<dots> = cstr txt" by (simp add: cstr_def takeWhile_eq_take [symmetric])
    finally show ?thesis .
  qed
  have m: "min (unat (of_nat ?k :: u32)) 4095 = ?k" using k(2) by (simp add: unat_of_nat_u32)
  have "fs_read_file nm (replicate 4096 0) 4096 f' = Some (cstr txt @ 0 # drop (Suc ?k) (replicate 4096 0), Inr ?k)"
    using fs_read_file_eq [OF sh', of 4096 "replicate 4096 0" nm] assms(3) by (simp add: find node Let_def m t)
  with w show ?thesis by simp
qed

text \<open>Output leaves the files alone.\<close>

definition files_kept :: "(shell \<Rightarrow> stop + shell) \<Rightarrow> bool" where
  "files_kept f \<longleftrightarrow> (\<forall>s s'. f s = Inr s' \<longrightarrow> the_fs s' = the_fs s)"

lemma files_kept_screen: "files_kept (on_screen f)"
  by (auto simp: files_kept_def on_screen_def andthen_Inr_iff the_fs_def)

lemma files_kept_steps: "(\<And>f. f \<in> set fs \<Longrightarrow> files_kept f) \<Longrightarrow> files_kept (steps fs)"
proof (induction fs)
  case (Cons f fs)
  then have "files_kept f" "files_kept (steps fs)" by simp_all
  then show ?case unfolding files_kept_def steps.simps andthen_Inr_iff by metis
qed (simp add: files_kept_def)

lemma files_kept_report: "files_kept (report ok (say a b) (say c d))"
  unfolding report_def
  by (rule files_kept_steps) (auto simp: say_def colour_def intro: files_kept_screen split: if_splits)

lemma calmly_report: "calmly f \<Longrightarrow> calmly g \<Longrightarrow> calmly (report ok f g)"
  unfolding report_def by (rule calmly_steps) (auto intro: calmly_colour split: if_splits)

text \<open>C19: what \<open>write\<close> stores is what \<open>cat\<close> shows: for a file of the current directory, \<open>write\<close> with the
  arguments \<open>argv\<close> succeeds, and \<open>cat\<close> of the same name then prints the words from the third on,
  separated by single blanks, and a newline.\<close>

theorem write_then_cat:
  assumes "calm_at n ks s" "args_ok argv" "3 \<le> length argv" "find_node (argv ! 1) (the_fs s) = Some i"
    and "node_type (fs_nodes (the_fs s) ! i) = FS_TYPE_FILE"
  shows "\<exists>s' buf. cmd_write_file argv s = Inr s' \<and> calm_at n ks s' \<and> cstr buf = joined (drop 2 argv) @ [10]
    \<and> cmd_cat [c, argv ! 1] s' = steps [colour VGA_LIGHT_GREY VGA_BLACK, say (10 # ln ''%s'') [arg_str buf],
        colour VGA_LIGHT_GREY VGA_BLACK] s'"
proof -
  have s: "sh_inv n s" using assms(1) by (simp add: calm_at_def)
  have f: "fs_inv (the_fs s)" by (rule sh_inv_parts(1) [OF s])
  from joined_line [OF assms(2), of 2 1024] assms(3) obtain b t where
    t: "join_args (replicate 1024 0) (drop 2 argv) = Some b" "strcat b [10] = Some t" "length t = 1024"
      "cstr t = joined (drop 2 argv) @ [10]" "0 \<in> set t" by auto
  from write_read_file [OF f assms(4,5) t(5)] t(3) obtain g where
    g: "fs_write_file (argv ! 1) t (of_nat (strlen t)) (the_fs s) = Some (g, Inr (strlen t))"
      "fs_read_file (argv ! 1) (replicate 4096 0) 4096 g = Some (cstr t @ 0 # replicate (4095 - strlen t) 0, Inr (strlen t))"
    by auto
  have len: "strlen t < 1024" using length_cstr_less [OF t(5)] t(3) by simp
  have "write_file_len (of_nat (strlen t)) \<le> length t" using len t(3) by (simp add: write_file_len_def unat_of_nat_u32)
  from fs_write_file_inv [OF f this, of "argv ! 1"] g(1) have "fs_inv g" by auto
  then have c: "calm_at n ks (set_fs g s)"
    using assms(1) sh_inv_set_fs [OF s] by (simp add: calm_at_def calm_def pending_keys_def set_fs_def)
  define r where "r = report (\<not> ret_int (Inr (strlen t)) < 0) (say (ln ''  Wrote %d bytes'') [Word (word_of_int (ret_int (Inr (strlen t))))])
      (say (ln ''  Not found (touch first)'') [])"
  have "calmly r"
    unfolding r_def using len
    by (intro calmly_report calmly_say) (auto simp: fits_eval signed_word_ok)
  from calmlyD [OF this c] obtain y where y: "r (set_fs g s) = Inr ((set_fs g s)\<lparr>sh_sys := y\<rparr>)"
    "calm_at n ks ((set_fs g s)\<lparr>sh_sys := y\<rparr>)" by blast
  have "files_kept r" unfolding r_def by (rule files_kept_report)
  then have "the_fs ((set_fs g s)\<lparr>sh_sys := y\<rparr>) = the_fs (set_fs g s)" using y(1) unfolding files_kept_def by blast
  then have k: "the_fs ((set_fs g s)\<lparr>sh_sys := y\<rparr>) = g" by (simp add: the_fs_def set_fs_def)
  have w: "cmd_write_file argv s = Inr ((set_fs g s)\<lparr>sh_sys := y\<rparr>)"
    using assms(3) t(1,2) g(1) y(1) by (simp add: cmd_write_file_def r_def)
  let ?b = "cstr t @ 0 # replicate (4095 - strlen t) 0"
  have "cmd_cat [c, argv ! 1] ((set_fs g s)\<lparr>sh_sys := y\<rparr>) = steps [colour VGA_LIGHT_GREY VGA_BLACK, say (10 # ln ''%s'') [arg_str ?b],
      colour VGA_LIGHT_GREY VGA_BLACK] ((set_fs g s)\<lparr>sh_sys := y\<rparr>)" for c
    using g(2) k by (simp add: cmd_cat_def del: steps.simps strlen_eq)
  moreover have "cstr ?b = joined (drop 2 argv) @ [10]" unfolding t(4) [symmetric] by simp
  ultimately show ?thesis using w y(2) by blast
qed

text \<open>The file \<^verbatim>\<open>a\<close> of the instance's root directory.\<close>

theorem write_then_cat_witness:
  "\<exists>s' buf. cmd_write_file [bytes ''write'', bytes ''a'', bytes ''hi'', bytes ''all''] ready_shell = Inr s'
    \<and> cstr buf = bytes ''hi all'' @ [10]
    \<and> cmd_cat [bytes ''cat'', bytes ''a''] s' = steps [colour VGA_LIGHT_GREY VGA_BLACK, say (10 # ln ''%s'') [arg_str buf],
        colour VGA_LIGHT_GREY VGA_BLACK] s'"
proof -
  let ?argv = "[bytes ''write'', bytes ''a'', bytes ''hi'', bytes ''all'']"
  have c: "calm_at 0 [] ready_shell"
    using ready_shell_inv [of 0 "[]"] boot_sys_simps(5,6)
    by (simp add: calm_at_def ready_shell_def halts_ok_def) (simp add: calm_def shell_start_def pending_keys_def)
  have a: "args_ok ?argv" by (simp add: args_ok_def)
  have fs: "the_fs ready_shell = one_file" by (simp add: the_fs_def ready_shell_def shell_start_def boot_sys_def)
  have f: "find_node (?argv ! 1) (the_fs ready_shell) = Some 1" using one_file_find(1) by (simp add: fs)
  have t: "node_type (fs_nodes (the_fs ready_shell) ! 1) = FS_TYPE_FILE"
    by (simp add: fs one_file_def boot_fs_def init_node_simps)
  have j: "joined (drop 2 ?argv) = bytes ''hi all''" by (simp add: byte_def)
  from write_then_cat [OF c a _ f t, of "bytes ''cat''"] show ?thesis
    unfolding j by (auto simp del: bytes_simps(1,2) steps.simps)
qed

section \<open>Numbers in columns\<close>

lemma low_digits_print: "0 < x \<Longrightarrow> x < 10 ^ n \<Longrightarrow> rev (low_digits n x) = print_digits x"
proof (induction n arbitrary: x)
  case (Suc n)
  have e: "low_digits n 0 = []" for n by (cases n) simp_all
  show ?case
  proof (cases "0 < x div 10")
    case True
    with Suc have "rev (low_digits n (x div 10)) = print_digits (x div 10)" by simp
    with Suc.prems(1) True show ?thesis by (subst print_digits.simps) simp
  next
    case False
    with Suc.prems(1) have "x div 10 = 0" by (simp add: pos_imp_zdiv_pos_iff)
    with Suc.prems(1) False show ?thesis by (subst print_digits.simps) (simp add: e)
  qed
qed simp

text \<open>The digits that the process viewer builds backwards in an array of 16 are those of \<^verbatim>\<open>%d\<close>: for every
  \<open>int\<close>, the least one included, for which both are undefined.\<close>

theorem int_text_is_print_int:
  assumes "- 2147483648 \<le> v" "v < 2147483648"
  shows "int_text v = print_int v"
proof -
  have zero: "print_digits 0 = [48]" by (subst print_digits.simps) simp
  have "rev (low_digits 15 x) = print_digits x" if "0 < x" "x < 2147483648" for x
    using that by (intro low_digits_print) simp_all
  from this [of v] this [of "- v"] assms zero show ?thesis
    by (auto simp: int_text_def print_int_def cint_def byte_def)
qed

theorem int_text_is_print_int_witness:
  "int_text (- 307) = print_int (- 307) \<and> int_text (- 2147483648) = None"
  using int_text_is_print_int [of "- 307"] int_text_is_print_int [of "- 2147483648"]
  by (simp add: print_int_def cint_def)

end
