(* ===== verification/GameProps.thy ===== *)
theory GameProps
  imports CommandProps
begin

text \<open>
  The games as their rules: tic-tac-toe played by the keys typed, and bounds that hold in every state
  that snake, pong and hangman can reach.
\<close>

section \<open>Tic-tac-toe\<close>

lemma loop_steps: "loop f xs s = steps (map f xs) s"
proof (induction xs arbitrary: s)
  case (Cons x xs)
  then show ?case by (cases "f x s") simp_all
qed simp

lemma calmly_loop:
  assumes "\<And>x. x \<in> set xs \<Longrightarrow> calmly (f x)"
  shows "calmly (loop f xs)"
proof -
  have "loop f xs = steps (map f xs)" by (rule ext) (rule loop_steps)
  moreover have "calmly (steps (map f xs))" by (rule calmly_steps) (use assms in auto)
  ultimately show ?thesis by simp
qed

lemma calmly_skip: "calmly Inr"
  using calmly_steps [of "[]"] by (simp add: calmly_def)

lemma calmly_text: "37 \<notin> set fmt \<Longrightarrow> calmly (say fmt args)"
  by (rule calmly_say) (rule fits_text)

lemma calmly_say_str: "CHR ''%'' \<notin> set t \<Longrightarrow> calmly (say_str t)" "CHR ''%'' \<notin> set t \<Longrightarrow> calmly (say_line t)"
  unfolding say_str_def say_line_def by (rule calmly_text; simp)+

lemma calmly_ttt_cell: "calmly (ttt_cell oc b r c)"
  unfolding ttt_cell_def Let_def
  by (rule calmly_steps) (auto intro!: calmly_colour calmly_say calmly_say_str calmly_skip simp: fits_eval)

lemma calmly_ttt_draw: "37 \<notin> set title \<Longrightarrow> calmly (ttt_draw title oc b)"
  unfolding ttt_draw_def
  by (rule calmly_steps) (auto intro!: calmly_colour calmly_text calmly_loop calmly_steps calmly_say_str calmly_ttt_cell
      calmly_skip split: if_splits)

lemma calmly_ttt_message: "calmly (ttt_message ''  You win!'' ''  CPU wins!'' r)"
  unfolding ttt_message_def by (rule calmly_text) auto

lemma calmly_echo: "calmly (steps [putc c, putc 10])"
  by (rule calmly_steps) (auto intro: calmly_putc)

text \<open>The game as its rules and the keys: the result and the keys left, or nothing while it waits.\<close>

function ttt_play :: "bool \<Rightarrow> u8 list \<Rightarrow> u8 list \<Rightarrow> (u8 \<times> u8 list) option" where
  "ttt_play cpu b ks =
     (case ttt_result b of Some r \<Rightarrow> Some (r, ks)
      | None \<Rightarrow> if cpu then ttt_play False (cpu_move b) ks
               else case ks of [] \<Rightarrow> None
                 | c # ks \<Rightarrow> ttt_play (fst (player_move MARK_X c b)) (snd (player_move MARK_X c b)) ks)"
  by pat_completeness auto
termination
  by (relation "measure (\<lambda>(cpu, b, ks). 2 * length ks + (if cpu then 1 else 0))") auto

declare ttt_play.simps [simp del]

lemma ttt_loop_plays:
  assumes "calm_at n ks s" "ttt_play cpu b ks = Some (r, rest)" "2 * length ks + (if cpu then 1 else 0) < k"
  shows "\<exists>s'. ttt_loop k cpu b s = Inr (r, s') \<and> calm_at n rest s'"
  using assms
proof (induction cpu b ks arbitrary: k s rule: ttt_play.induct)
  case (1 cpu b ks)
  then obtain k' where k: "k = Suc k'" by (cases k) auto
  obtain y where y: "ttt_draw (10 # ln ''  TTT You=X CPU=O'' @ [10]) VGA_LIGHT_RED b s = Inr (s\<lparr>sh_sys := y\<rparr>)"
    "calm_at n ks (s\<lparr>sh_sys := y\<rparr>)"
    using calmlyD [OF calmly_ttt_draw [of "10 # ln ''  TTT You=X CPU=O'' @ [10]" VGA_LIGHT_RED b] 1(3)] by auto
  let ?s = "s\<lparr>sh_sys := y\<rparr>"
  show ?case
  proof (cases "ttt_result b")
    case (Some r')
    then have r: "r' = r" "rest = ks" using 1(4) by (simp_all add: ttt_play.simps [of cpu])
    obtain z where "ttt_message ''  You win!'' ''  CPU wins!'' r ?s = Inr (?s\<lparr>sh_sys := z\<rparr>)" "calm_at n ks (?s\<lparr>sh_sys := z\<rparr>)"
      using calmlyD [OF calmly_ttt_message y(2)] by blast
    then show ?thesis using k y(1) Some r by simp
  next
    case None
    show ?thesis
    proof (cases cpu)
      case True
      with 1(4,5) None have "ttt_play False (cpu_move b) ks = Some (r, rest)" "2 * length ks + (if False then 1 else 0) < k'"
        by (simp_all add: ttt_play.simps [of True] k)
      from 1(1) [OF None True y(2) this] show ?thesis using k y(1) None True by simp
    next
      case False
      with 1(4) None obtain c ks' where ks: "ks = c # ks'"
        by (cases ks) (simp_all add: ttt_play.simps [of False])
      let ?m = "player_move MARK_X c b"
      obtain z where z: "say_str ''  1-9: '' ?s = Inr (?s\<lparr>sh_sys := z\<rparr>)" "calm_at n ks (?s\<lparr>sh_sys := z\<rparr>)"
        using calmlyD [OF calmly_say_str(1) y(2), of "''  1-9: ''"] by auto
      let ?s1 = "set_keys ks' (?s\<lparr>sh_sys := z\<rparr>)"
      have g: "getchar (?s\<lparr>sh_sys := z\<rparr>) = Inr (?s1, c)" "calm_at n ks' ?s1"
        using z(2) getchar_typed calm_at_key [of n c ks'] by (auto simp: ks calm_at_def)
      obtain w where w: "steps [putc c, putc 10] ?s1 = Inr (?s1\<lparr>sh_sys := w\<rparr>)" "calm_at n ks' (?s1\<lparr>sh_sys := w\<rparr>)"
        using calmlyD [OF calmly_echo g(2)] by blast
      have p: "ttt_play (fst ?m) (snd ?m) ks' = Some (r, rest)" "2 * length ks' + (if fst ?m then 1 else 0) < k'"
        using 1(4,5) None False by (simp_all add: ttt_play.simps [of False] ks k)
      from 1(2) [OF None False ks w(2) p] show ?thesis
        using k y(1) None False z(1) g(1) w(1) by (simp add: case_prod_unfold del: steps.simps)
    qed
  qed
qed


text \<open>The moves of the witness: the player takes two opposite corners, and the CPU answers with the centre
  and a third corner, after which the player has two lines to complete.\<close>

lemma ttt_play_round:
  assumes "ttt_result b = None" "player_move MARK_X c b = (True, b')" "ttt_result b' = None"
  shows "ttt_play False b (c # ks) = ttt_play False (cpu_move b') ks"
  using assms by (simp add: ttt_play.simps [of False] ttt_play.simps [of True])

lemma ttt_play_last:
  assumes "ttt_result b = None" "player_move MARK_X c b = (True, b')" "ttt_result b' = Some r"
  shows "ttt_play False b (c # ks) = Some (r, ks)"
  using assms by (simp add: ttt_play.simps [of False] ttt_play.simps [of True])

lemmas ttt_rules = player_move_def ttt_result_def winner_def win_lines_def board_full_def cpu_move_def
  cpu_choice_def line_gap_def

lemma ttt_1974: "ttt_play False (replicate 9 32) [49, 57, 55, 52] = Some (MARK_X, [])"
proof -
  have "ttt_play False (replicate 9 32) [49, 57, 55, 52]
      = ttt_play False (cpu_move [88, 32, 32, 32, 32, 32, 32, 32, 32]) [57, 55, 52]"
    by (rule ttt_play_round) (code_simp+)
  also have "cpu_move [88, 32, 32, 32, 32, 32, 32, 32, 32] = [88, 32, 32, 32, 79, 32, 32, 32, 32]" by code_simp
  also have "ttt_play False \<dots> [57, 55, 52] = ttt_play False (cpu_move [88, 32, 32, 32, 79, 32, 32, 32, 88]) [55, 52]"
    by (rule ttt_play_round) (code_simp+)
  also have "cpu_move [88, 32, 32, 32, 79, 32, 32, 32, 88] = [88, 32, 79, 32, 79, 32, 32, 32, 88]" by code_simp
  also have "ttt_play False \<dots> [55, 52] = ttt_play False (cpu_move [88, 32, 79, 32, 79, 32, 88, 32, 88]) [52]"
    by (rule ttt_play_round) (code_simp+)
  also have "cpu_move [88, 32, 79, 32, 79, 32, 88, 32, 88] = [88, 32, 79, 32, 79, 32, 88, 79, 88]" by code_simp
  also have "ttt_play False \<dots> [52] = Some (MARK_X, [])"
    by (rule ttt_play_last [where b' = "[88, 32, 79, 88, 79, 32, 88, 79, 88]"]) (code_simp+)
  finally show ?thesis .
qed


section \<open>Pong\<close>

text \<open>The states of a game: keys, and rounds of the ball while nobody has won.\<close>

inductive pong_reach :: "pong \<Rightarrow> bool" where
  pong_begin: "pong_reach pong_start"
| pong_typed: "pong_reach g \<Longrightarrow> \<not> pong_over g \<Longrightarrow> pong_reach (snd (pong_key c g))"
| pong_round: "pong_reach g \<Longrightarrow> \<not> pong_over g \<Longrightarrow> pong_reach (pong_score (pong_bounce g))"

lemma pong_reach_ok: "pong_reach g \<Longrightarrow> pong_ok g"
  by (induction rule: pong_reach.induct) (simp_all add: pong_start_ok pong_key_ok pong_round_ok)

text \<open>C39: pong stays on its field: in every state that keys and rounds can reach, the paddles of four cells
  lie between the borders, the ball is inside the field and moves by one cell each way, and nobody has
  more than five points.\<close>

theorem pong_in_bounds:
  assumes "pong_reach g"
  shows "1 \<le> p1y g \<and> p1y g + 4 \<le> 19 \<and> 1 \<le> p2y g \<and> p2y g + 4 \<le> 19
    \<and> 0 < bx g \<and> bx g < 39 \<and> 0 < pos_y g \<and> pos_y g < 19 \<and> \<bar>bdx g\<bar> = 1 \<and> \<bar>bdy g\<bar> = 1
    \<and> 0 \<le> s1 g \<and> s1 g \<le> 5 \<and> 0 \<le> s2 g \<and> s2 g \<le> 5"
  using pong_reach_ok [OF assms] by (auto simp: pong_ok_def)

theorem pong_in_bounds_witness:
  "let g = pong_score (pong_bounce (snd (pong_key 115 pong_start))) in 1 \<le> p1y g \<and> bx g < 39 \<and> \<bar>bdy g\<bar> = 1"
proof -
  have "pong_reach (pong_score (pong_bounce (snd (pong_key 115 pong_start))))"
    by (intro pong_begin pong_typed pong_round) (simp_all add: pong_over_key pong_not_over)
  from pong_in_bounds [OF this] show ?thesis by (simp add: Let_def)
qed

section \<open>Snake\<close>

text \<open>The states after \<open>m\<close> steps: keys that do not end the game, and steps at any time.\<close>

inductive snake_reach :: "int list \<Rightarrow> int list \<Rightarrow> nat \<Rightarrow> snake \<Rightarrow> bool" for jx jy where
  snake_begin: "snake_reach jx jy 0 (snake_start jx jy t)"
| snake_typed: "snake_reach jx jy m k \<Longrightarrow> snake_reach jx jy m (snd (snake_key c k))"
| snake_moves: "snake_reach jx jy m k \<Longrightarrow> snake_step t k = Some (False, k') \<Longrightarrow> snake_reach jx jy (Suc m) k'"

definition snake_in_box :: "nat \<Rightarrow> snake \<Rightarrow> bool" where
  "snake_in_box m k \<longleftrightarrow> length (sx k) = 200 \<and> length (sy k) = 200 \<and> 3 \<le> slen k \<and> slen k \<le> 200
     \<and> 0 < sx k ! 0 \<and> sx k ! 0 < 39 \<and> 0 < sy k ! 0 \<and> sy k ! 0 < 17
     \<and> 0 < fx k \<and> fx k < 39 \<and> 0 < fy k \<and> fy k < 17 \<and> 0 \<le> score k \<and> score k \<le> 10 * int m"

lemma uint_next: "unat (w :: u32) < 100 \<Longrightarrow> uint (w + 1) = int (unat w) + 1"
  by (simp only: uint_nat) (simp add: unat_word_ariths)

lemma food_in_box: "0 < food_x t \<and> food_x t < 39 \<and> 0 < food_y t \<and> food_y t < 17"
proof -
  have u: "unat (t mod 38) < 38" "unat (t div 7 mod 16) < 16" by (simp_all add: unat_mod)
  have "food_x t = int (unat (t mod 38)) + 1" using u(1) uint_next [of "t mod 38"] by (simp add: food_x_def)
  moreover have "food_y t = int (unat (t div 7 mod 16)) + 1" using u(2) uint_next [of "t div 7 mod 16"] by (simp add: food_y_def)
  ultimately show ?thesis using u by linarith
qed

lemma snake_key_box: "snake_in_box m k \<Longrightarrow> snake_in_box m (snd (snake_key c k))"
  by (simp add: snake_key_def snake_in_box_def)

lemma snake_box_ok: "snake_in_box m k \<Longrightarrow> 10 * int m + 10 * int j < 2147483648 \<Longrightarrow> snake_ok j k"
  by (simp add: snake_in_box_def snake_ok_def)

lemma snake_step_form:
  assumes "snake_in_box m k"
  obtains xs ys bite where "length xs = 200" "length ys = 200"
    "snake_step t k = Some (xs ! 0 \<le> 0 \<or> xs ! 0 \<ge> 39 \<or> ys ! 0 \<le> 0 \<or> ys ! 0 \<ge> 17 \<or> bite,
       if xs ! 0 = fx k \<and> ys ! 0 = fy k
       then k\<lparr>sx := xs, sy := ys, score := score k + 10, slen := (if slen k < 200 then slen k + 1 else slen k),
         fx := food_x t, fy := food_y t\<rparr>
       else k\<lparr>sx := xs, sy := ys\<rparr>)"
proof -
  have l: "length (sx k) = 200" "length (sy k) = 200" "slen k - 1 < 200"
    using assms by (auto simp: snake_in_box_def)
  from follow_some [of "slen k - 1" "sx k"] follow_some [of "slen k - 1" "sy k"] l obtain xs ys where
    f: "follow (slen k - 1) (sx k) = Some xs" "length xs = 200" "follow (slen k - 1) (sy k) = Some ys" "length ys = 200"
    by auto
  define x y where "x = (if dir k = 2 then xs ! 0 - 1 else if dir k = 3 then xs ! 0 + 1 else xs ! 0)"
    and "y = (if dir k = 0 then ys ! 0 - 1 else if dir k = 1 then ys ! 0 + 1 else ys ! 0)"
  note xy = this
  show thesis
  proof (rule that)
    show "length (xs[0 := x]) = 200" "length (ys[0 := y]) = 200" using f by simp_all
    show "snake_step t k = Some (xs[0 := x] ! 0 \<le> 0 \<or> xs[0 := x] ! 0 \<ge> 39 \<or> ys[0 := y] ! 0 \<le> 0 \<or> ys[0 := y] ! 0 \<ge> 17
        \<or> (\<exists>i \<in> set [1 ..< slen k]. x = xs[0 := x] ! i \<and> y = ys[0 := y] ! i),
       if xs[0 := x] ! 0 = fx k \<and> ys[0 := y] ! 0 = fy k
       then k\<lparr>sx := xs[0 := x], sy := ys[0 := y], score := score k + 10,
         slen := (if slen k < 200 then slen k + 1 else slen k), fx := food_x t, fy := food_y t\<rparr>
       else k\<lparr>sx := xs[0 := x], sy := ys[0 := y]\<rparr>)"
      unfolding snake_step_def f(1,3) using f(2,4)
      by (simp flip: xy) (simp add: Let_def)
  qed
qed

lemma snake_step_defined: "snake_in_box m k \<Longrightarrow> snake_step t k \<noteq> None"
  by (rule snake_step_form [of m k t]) simp_all

lemma snake_step_box:
  assumes "snake_in_box m k" "snake_step t k = Some (False, k')"
  shows "snake_in_box (Suc m) k'"
  by (rule snake_step_form [OF assms(1), of t])
    (use assms food_in_box [of t] in \<open>auto simp: snake_in_box_def split: if_splits\<close>)

lemma snake_reach_box:
  assumes "snake_reach jx jy m k" "length jx = 200" "length jy = 200"
  shows "snake_in_box m k"
  using assms
proof (induction rule: snake_reach.induct)
  case (snake_begin t)
  then show ?case using food_in_box [of t] by (simp add: snake_in_box_def snake_start_def upt_conv_Cons numeral_3_eq_3)
qed (simp_all add: snake_key_box snake_step_box)

text \<open>C38: snake stays inside its arrays and its box: in every state that keys and steps can reach, whatever
  the arrays held before, the next step is defined, the snake has 3 to 200 segments, its head and the
  food lie inside the walls, and the score is at most ten for each step.\<close>

theorem snake_in_bounds:
  assumes "snake_reach jx jy m k" "length jx = 200" "length jy = 200"
  shows "snake_step t k \<noteq> None \<and> 3 \<le> slen k \<and> slen k \<le> 200
    \<and> 0 < sx k ! 0 \<and> sx k ! 0 < 39 \<and> 0 < sy k ! 0 \<and> sy k ! 0 < 17
    \<and> 0 < fx k \<and> fx k < 39 \<and> 0 < fy k \<and> fy k < 17 \<and> 0 \<le> score k \<and> score k \<le> 10 * int m"
  using snake_reach_box [OF assms] snake_step_defined [of m k t] by (simp add: snake_in_box_def)

theorem snake_in_bounds_witness:
  "let k = snd (snake_key 1 (snake_start (replicate 200 7) (replicate 200 7) 5)) in snake_step 9 k \<noteq> None \<and> sx k ! 0 < 39"
proof -
  have "snake_reach (replicate 200 7) (replicate 200 7) 0 (snd (snake_key 1 (snake_start (replicate 200 7) (replicate 200 7) 5)))"
    by (intro snake_begin snake_typed)
  from snake_in_bounds [OF this, of 9] show ?thesis by (simp add: Let_def)
qed

text \<open>Two keys within one tick turn the snake back on itself: each is checked against the direction that
  the previous key set, not against the one of the last step, so up and left while going right make
  the first step bite the neck.\<close>

theorem snake_turns_back:
  assumes "length jx = 200" "length jy = 200"
  shows "\<exists>k. snake_step t (snd (snake_key 3 (snd (snake_key 1 (snake_start jx jy t0))))) = Some (True, k)"
  using assms by (simp add: snake_step_def snake_key_def snake_start_def Let_def upt_conv_Cons eval_nat_numeral)

theorem snake_turns_back_witness:
  "\<exists>k. snake_step 1 (snd (snake_key 3 (snd (snake_key 1 (snake_start (replicate 200 0) (replicate 200 0) 0))))) = Some (True, k)"
  by (rule snake_turns_back) simp_all

section \<open>Hangman\<close>

fun after_guess :: "u8 list \<times> nat \<Rightarrow> guess \<Rightarrow> u8 list \<times> nat" where
  "after_guess st Not_A_Letter = st"
| "after_guess st Repeated = st"
| "after_guess st (Hit st') = st'"
| "after_guess st (Miss st') = st'"

fun hangman_guesses :: "u8 list \<Rightarrow> u8 list \<Rightarrow> u8 list \<times> nat \<Rightarrow> (u8 list \<times> nat) option" where
  "hangman_guesses wd [] st = Some st"
| "hangman_guesses wd (c # cs) st = do { r \<leftarrow> hangman_guess wd c st; hangman_guesses wd cs (after_guess st r) }"

definition small_letter :: "u8 \<Rightarrow> bool" where
  "small_letter c \<longleftrightarrow> 97 \<le> sint c \<and> sint c \<le> 122"

definition letters_of :: "u8 list \<times> nat \<Rightarrow> u8 set" where
  "letters_of st = set (take (snd st) (fst st))"

lemma hangman_guess_letters:
  assumes "letters_ok st"
  shows "\<exists>r. hangman_guess wd c st = Some r \<and> letters_ok (after_guess st r)
    \<and> letters_of (after_guess st r) = letters_of st \<union> {x \<in> {c}. small_letter x}"
proof -
  obtain g ng where st: "st = (g, ng)" by fastforce
  have g: "length g = 26" "ng \<le> 26" using assms by (simp_all add: st letters_ok_def)
  from hangman_guess_ok [OF assms, of wd c] obtain r where
    r: "hangman_guess wd c st = Some r" "case r of Hit st' \<Rightarrow> letters_ok st' | Miss st' \<Rightarrow> letters_ok st' | _ \<Rightarrow> True"
    by blast
  have ok: "letters_ok (after_guess st r)" using r(2) assms by (cases r) simp_all
  have "letters_of (after_guess st r) = letters_of st \<union> {x \<in> {c}. small_letter x}"
  proof (cases "small_letter c \<and> \<not> guessed g ng c")
    case True
    then obtain g' where g': "put_at g ng c = Some g'" "after_guess st r = (g', ng + 1)"
      using r(1) by (auto simp: hangman_guess_def st small_letter_def bind_eq_Some_conv split: if_splits)
    with g True show ?thesis
      by (auto simp: letters_of_def st take_Suc_conv_app_nth put_at_def split: if_splits)
  next
    case False
    then show ?thesis
      using r(1) g by (auto simp: hangman_guess_def st small_letter_def letters_of_def guessed_iff split: if_splits)
  qed
  with r(1) ok show ?thesis by blast
qed

text \<open>C40: hangman's array of 26 letters is large enough: for every word and every sequence of keys, the
  guesses never write outside it, and it holds exactly the small letters typed, each once.\<close>

theorem hangman_letters_fit:
  "\<exists>g ng. hangman_guesses wd cs (replicate 26 0, 0) = Some (g, ng) \<and> length g = 26 \<and> ng \<le> 26
    \<and> distinct (take ng g) \<and> set (take ng g) = {c \<in> set cs. 97 \<le> sint c \<and> sint c \<le> 122}"
proof -
  have "letters_ok st \<Longrightarrow> \<exists>st'. hangman_guesses wd cs st = Some st' \<and> letters_ok st'
      \<and> letters_of st' = letters_of st \<union> {c \<in> set cs. small_letter c}" for st
  proof (induction cs arbitrary: st)
    case (Cons c cs)
    from hangman_guess_letters [OF Cons.prems, of wd c] obtain r where
      r: "hangman_guess wd c st = Some r" "letters_ok (after_guess st r)"
        "letters_of (after_guess st r) = letters_of st \<union> {x \<in> {c}. small_letter x}" by blast
    from Cons.IH [OF r(2)] r(1,3) show ?case by auto
  qed simp
  from this [of "(replicate 26 0, 0)"] show ?thesis
    by (auto simp: letters_ok_def letters_of_def small_letter_def)
qed

end
