(* ===== verification/Spec2Isabelle.thy ===== *)
theory Spec2Isabelle
  imports FsSpec GameProps
begin

text \<open>
  MyMisu OS is a small 32-bit x86 kernel in C (\<^verbatim>\<open>src/src\<close>): a multiboot loader enters \<open>kernel_main\<close>, which
  sets up the tables of the processor, the devices, memory and a file system in memory, asks for a login
  and runs a shell with commands, apps and games. The scheduler switches between the shell and a few
  tasks from the timer interrupt. This library is a model of all of its C files and of the context
  switch, with the theorems that make it correct.

  \<^bold>\<open>How the code is modelled.\<close> Each C file has a theory, in the order of the calls; definitions have the
  names of the functions. The static variables of a file are a record (\<open>fs\<close>, \<open>pmm\<close>, \<open>procs\<close>, \<open>klog\<close>, \<open>kbd\<close>,
  \<open>screen\<close>, \<open>gdt\<close>, \<open>idt\<close>, \<open>timer\<close>, \<open>shell\<close>), a function takes the record and returns the new one. The
  records are put together as \<open>kern\<close> (processes, pages, log and memory), \<open>sys\<close> (with files, screen and
  timer), \<open>os\<close> (with the tables and the keyboard, for the boot) and \<open>shell\<close>. \<^verbatim>\<open>uint8_t\<close>, \<^verbatim>\<open>uint16_t\<close> and
  \<^verbatim>\<open>uint32_t\<close> are words of their width, which wrap around; \<^verbatim>\<open>int\<close> is \<open>int\<close>, and arithmetic that may leave
  its 32 bits goes through \<open>cint\<close>, which is \<open>None\<close> then, because signed overflow is undefined in C. An
  array is a list whose accesses are checked: \<open>get_at\<close> and \<open>put_at\<close> are \<open>None\<close> outside it. Strings are byte
  lists that the functions of \<^verbatim>\<open>string.c\<close> read up to the NUL (\<open>cstr\<close>). So \<open>None\<close> is undefined behaviour,
  error codes are values of the sum type with \<open>errno\<close>, and where a function may also wait the result is
  \<open>stop + state\<close> with \<open>Fault\<close> for undefined behaviour and \<open>Waiting\<close> for input or time that does not come.

  \<^bold>\<open>The theories.\<close>

    \<^item> \<open>Prelude\<close>: words, checked arrays, C \<^verbatim>\<open>int\<close>, searching loops, \<^verbatim>\<open>errno.h\<close>. \<open>Interfaces\<close>: the locales. \<open>CString\<close>:
      \<^verbatim>\<open>string.c\<close>, each loop with its closed form.

    \<^item> \<open>Pmm\<close> (\<^verbatim>\<open>pmm.c\<close>): the page bitmap and its initialisation from the loader's memory map. The allocator
      refines a set of used pages and interprets the locale of page sources.

    \<^item> \<open>Fs\<close>, \<open>FsInv\<close>, \<open>FsProps\<close>, \<open>FsSpec\<close> (\<^verbatim>\<open>fs.c\<close>): the operations, the invariant \<open>fs_inv\<close> (shape of the arrays and
      a tree of names without cycles), the operations' effects on it, and their specifications.

    \<^item> \<open>Keyboard\<close> (\<^verbatim>\<open>keyboard.c\<close>): scancodes, the ring buffer as a bounded queue, the interplay of reader and
      interrupt. \<open>Vga\<close> (\<^verbatim>\<open>vga.c\<close>): the text screen, scrolling and the pager. \<open>Kprintf\<close> (\<^verbatim>\<open>kprintf.c\<close>), \<open>Klog\<close>
      (\<^verbatim>\<open>klog.c\<close>).

    \<^item> \<open>Process\<close>, \<open>ProcessInv\<close>, \<open>ProcessProps\<close> (\<^verbatim>\<open>process.c\<close>): the table, the round-robin scheduler, reachable
      states as an inductive step relation. \<open>Timer\<close> (\<^verbatim>\<open>timer.c\<close>), \<open>Sched\<close> (fairness and sleeping), \<open>Switch\<close>
      (\<^verbatim>\<open>context_switch.s\<close>, stack frames, creation of tasks).

    \<^item> \<open>Interrupts\<close> (\<^verbatim>\<open>gdt.c\<close>, \<^verbatim>\<open>idt.c\<close>), \<open>Syscall\<close>, \<open>SyscallProps\<close> (\<^verbatim>\<open>syscall.c\<close>), \<open>Boot\<close> (\<^verbatim>\<open>kernel.c\<close>).

    \<^item> \<open>Shell\<close>, \<open>Screens\<close>, \<open>Files\<close>, \<open>Tasks\<close>, \<open>SelfTest\<close>, \<open>Games\<close>, \<open>Apps\<close>, \<open>ShellRun\<close> (\<^verbatim>\<open>shell.c\<close>): the shell's core and
      its commands by subject; \<open>ShellRun\<close> has the dispatch and the whole \<open>kernel_main\<close>.

    \<^item> \<open>ShellSafe\<close>, \<open>CommandSafe\<close>, \<open>InputSafe\<close>, \<open>FileSafe\<close>, \<open>TaskSafe\<close>, \<open>SelfTestSafe\<close>, \<open>AppSafe\<close>, \<open>GameSafe\<close>: a small
      calculus for \<open>yields\<close> (no fault, and a property of the result) and \<open>keeps\<close> (the invariant \<open>sh_inv\<close> of
      the shell), with one rule per combinator in the collection \<open>keeps_intros\<close>, and a lemma per command.

    \<^item> \<open>LineSafe\<close> (words, history, line editor), \<open>ScreenKeys\<close> (what output does to the keys typed, over a locale
      of preorders with two interpretations), \<open>KeyFuel\<close> (the bounds of the input loops), \<open>Dispatch\<close> (the
      table of commands, a round of the shell, the login), \<open>Typing\<close> (what a typed line does), \<open>MainSafe\<close>
      (the composition of the boot, the login and the shell).

    \<^item> \<open>ShellProps\<close>, \<open>CommandProps\<close>, \<open>GameProps\<close>: the properties of the shell, its commands and games.
\<close>

text \<open>
  \<^bold>\<open>What the properties show.\<close>

    \<^item> The composition (\<open>ShellProps\<close>): the whole system runs from any state of the machine through boot, login
      and any number of safe lines without undefined behaviour, and so does each command; \<open>Boot\<close> says what
      the boot establishes. The invariants below are those of all reachable file systems (\<open>FsSpec\<close>) and
      process tables (\<open>ProcessProps\<close>), of the handler of the system calls (\<open>SyscallProps\<close>) and of the screen.

    \<^item> Functional behaviour and refinement: the allocator against a set, file writes against a splice, the
      keyboard buffer against a queue, the log against the last 64 messages, the scheduler against cyclic
      order (with a bound on waiting), the tokenizer against the words of the line, tic-tac-toe against
      its rules, typed keys against the text they spell, from scancodes to the login and the command.

    \<^item> Errors: each file operation on every branch; \<^verbatim>\<open>int 0x80\<close>, which panics. Round trips: writing and
      reading through descriptors, \<open>write\<close> and \<open>cat\<close>, printing and reading numbers, switching away and back.

    \<^item> Defects of the code are theorems too: the race in \<open>process_create_kernel\<close>, the idle process overwritten
      after a task's return, a sleeper that never wakes, a game won against the CPU that the help calls
      unbeatable, the snake that turns into itself within one tick.

  \<^bold>\<open>Bounds.\<close> Loops over arrays are recursion on the index. A loop that ends by the user's keys has a bound, one
  more than the characters to come, or the halts to come; \<open>KeyFuel\<close> proves for the line editor and all
  fields that a larger bound gives the same result, because every round takes a character and output never
  adds one. When the bound of another loop runs out, the result is \<open>Waiting\<close>, as for a machine whose user
  types no more. The recursion of \<open>tree\<close> has 64 levels and counts more as a fault; its safety shows
  that they suffice, since the parents form a tree of at most 64 nodes. The walk over the memory map of
  the loader may not end, and \<open>pmm_init\<close> is partial; it returns for maps that only go forward.

  \<^bold>\<open>What lies outside the code\<close> is a parameter: \<open>boot_env\<close> (the loader's memory map, the linker's addresses,
  the version string), \<open>shell_env\<close> (the clock's registers, the addresses of the tasks, what local arrays
  hold before they are written), and the list \<open>halts\<close>, which gives for each \<^verbatim>\<open>hlt\<close> to come the tick count
  after it and the characters typed during it. Memory maps must have disjoint available regions, the
  clock stays below its middle (248 days of uptime), and at most \<open>2 ^ 31\<close>
  process ids and log messages are used; these are hypotheses where they matter.

  \<^bold>\<open>Not modelled.\<close> The assembly stubs \<^verbatim>\<open>boot.s\<close>, \<^verbatim>\<open>isr.s\<close> and \<^verbatim>\<open>gdt_flush.s\<close>: they set up a stack, push the
  registers and call the C functions. Within the shell, interrupts act only at its halts, through the
  clock and the keys; that a switch to another task can happen between any two instructions is the
  subject of \<open>ProcessProps\<close> and \<open>Switch\<close>, where the steps interleave freely, and the tasks themselves are
  modelled round by round in \<open>Tasks\<close>. The pager takes a key that is already there and waits otherwise. The
  commands \<open>calc\<close>, \<open>note\<close>, \<open>game\<close>, \<open>files\<close> and \<open>menu\<close> are modelled but not safe for every input: the first
  three overflow an \<^verbatim>\<open>int\<close> or an array on inputs that the findings name, \<open>files\<close> relies on names without
  newlines, and \<open>menu\<close> contains the last two. \<open>calculable\<close> says when \<open>calc\<close> is safe, and listing the notes
  always is; nothing is shown of the safety of the others.
\<close>

end
